(* ===== verification/Sq_Prelude.thy ===== *)
theory Sq_Prelude
  imports Main "HOL-Library.Word" "HOL-Library.Sublist"
begin

text \<open>
  The prelude of the development: the integer types of the Rust code as words of their
  width, Rust's saturating and checked arithmetic, results with their early return (\<open>rbind\<close>,
  \<open>ensure\<close>, \<open>collect\<close>) and the inclusive range of heights. Plain \<open>+\<close> and \<open>-\<close> on integers are
  the wrapping operations of a release build.
\<close>

section \<open>Integers\<close>

type_synonym u64 = "64 word"
type_synonym u32 = "32 word"
type_synonym u16 = "16 word"
type_synonym usize = "64 word"

named_theorems int_simps \<open>reading Rust's saturating and checked operations through unat\<close>

definition u64_max :: u64 where
  "u64_max = - 1"

definition i64_max :: u64 where
  "i64_max = 9223372036854775807"

definition saturating_add :: "'a::len word \<Rightarrow> 'a word \<Rightarrow> 'a word" where
  "saturating_add a b = (if a + b < a then - 1 else a + b)"

definition saturating_sub :: "'a::len word \<Rightarrow> 'a word \<Rightarrow> 'a word" where
  "saturating_sub a b = (if a < b then 0 else a - b)"

definition checked_add :: "'a::len word \<Rightarrow> 'a word \<Rightarrow> 'a word option" where
  "checked_add a b = (if a + b < a then None else Some (a + b))"

definition checked_sub :: "'a::len word \<Rightarrow> 'a word \<Rightarrow> 'a word option" where
  "checked_sub a b = (if a < b then None else Some (a - b))"

definition saturating_mul :: "'a::len word \<Rightarrow> 'a word \<Rightarrow> 'a word" where
  "saturating_mul a b = (if unat a * unat b < 2 ^ LENGTH('a) then a * b else - 1)"

lemma unat_minus_one [int_simps]: "unat (- 1 :: 'a::len word) = 2 ^ LENGTH('a) - 1"
  by (simp add: unsigned_minus_1_eq_mask mask_eq_exp_minus_1)

lemma unat_u64_max [int_simps]: "unat u64_max = 2 ^ 64 - 1"
  by (simp add: u64_max_def unat_minus_one)

lemma le_i64_max: "h \<le> i64_max \<longleftrightarrow> unat h < 2 ^ 63"
  by (simp add: i64_max_def word_le_nat_alt) linarith

lemma le_u64_max [simp]: "x \<le> u64_max"
  by (simp add: u64_max_def word_order.extremum)

lemma unat_u64_bound: "unat (x :: u64) < 2 ^ 64"
  using unsigned_less [of x] by simp

lemma mod_add_less_iff:
  assumes "x < n" "y < n"
  shows "(x + y) mod n < x \<longleftrightarrow> n \<le> x + (y :: nat)"
proof (cases "x + y < n")
  case False
  then have "(x + y) mod n = x + y - n"
    using assms by (simp add: le_mod_geq)
  with False assms show ?thesis by simp
qed simp

lemma add_less_iff_overflow: "a + b < a \<longleftrightarrow> 2 ^ LENGTH('a) \<le> unat a + unat b"
  for a b :: "'a::len word"
  unfolding word_less_nat_alt unat_word_ariths(1)
  by (rule mod_add_less_iff) (rule unsigned_less)+

lemma unat_add_no_overflow:
  "unat a + unat b < 2 ^ LENGTH('a) \<Longrightarrow> unat (a + b) = unat a + unat b"
  for a b :: "'a::len word"
  by (simp add: unat_word_ariths(1))

lemma unat_saturating_add [int_simps]:
  "unat (saturating_add a b) = min (2 ^ LENGTH('a) - 1) (unat a + unat b)"
  for a b :: "'a::len word"
  by (auto simp: saturating_add_def add_less_iff_overflow unat_add_no_overflow
      unat_minus_one min_def not_le)

lemma unat_saturating_sub [int_simps]: "unat (saturating_sub a b) = unat a - unat b"
  for a b :: "'a::len word"
  by (auto simp: saturating_sub_def word_less_nat_alt unat_sub word_le_nat_alt not_less)

lemma checked_add_eq_Some [int_simps]:
  "checked_add a b = Some c \<longleftrightarrow> unat a + unat b < 2 ^ LENGTH('a) \<and> c = a + b"
  for a b :: "'a::len word"
  by (auto simp: checked_add_def add_less_iff_overflow not_le)

lemma checked_add_eq_None [int_simps]:
  "checked_add a b = None \<longleftrightarrow> 2 ^ LENGTH('a) \<le> unat a + unat b"
  for a b :: "'a::len word"
  by (auto simp: checked_add_def add_less_iff_overflow)

lemma checked_add_one_None: "checked_add a 1 = None \<longleftrightarrow> a = u64_max"
proof -
  have "unat a < 2 ^ 64" by (rule unat_u64_bound)
  then show ?thesis
    by (auto simp: checked_add_eq_None word_unat_eq_iff unat_u64_max)
qed

lemma unat_Suc_u64: "a \<noteq> u64_max \<Longrightarrow> unat (a + 1) = Suc (unat a)"
proof -
  assume "a \<noteq> u64_max"
  then have "unat a + 1 < 2 ^ 64"
    using unat_u64_bound [of a] by (auto simp: word_unat_eq_iff unat_u64_max)
  then show ?thesis by (subst unat_add_no_overflow) simp_all
qed

lemma saturating_add_one: "a \<noteq> u64_max \<Longrightarrow> saturating_add a 1 = a + 1"
  using checked_add_one_None [of a] by (auto simp: saturating_add_def checked_add_def split: if_splits)

lemma saturating_add_max [simp]: "saturating_add u64_max 1 = u64_max"
  by (simp add: word_unat_eq_iff int_simps)

lemma not_u64_max_less [simp]: "\<not> u64_max < x"
  by (simp add: not_less)

lemma less_imp_not_max: "a < b \<Longrightarrow> a \<noteq> u64_max"
  using le_u64_max [of b] by (auto simp del: le_u64_max)

lemma less_eq_add_one: "a < (b :: u64) \<Longrightarrow> a + 1 \<le> b"
  by (simp add: word_le_nat_alt word_less_nat_alt unat_Suc_u64 [OF less_imp_not_max])

lemma less_add_one: "a \<noteq> u64_max \<Longrightarrow> a < a + 1"
  by (simp add: word_less_nat_alt unat_Suc_u64)

lemma less_add_one_iff: "a \<noteq> u64_max \<Longrightarrow> x < a + 1 \<longleftrightarrow> x \<le> a"
  by (auto simp: word_less_nat_alt word_le_nat_alt unat_Suc_u64)

lemma add_one_le_iff: "a \<noteq> u64_max \<Longrightarrow> a + 1 \<le> x \<longleftrightarrow> a < x"
  by (auto simp: word_less_nat_alt word_le_nat_alt unat_Suc_u64)

lemma unat_pred: "a < (b :: u64) \<Longrightarrow> unat (b - 1) = unat b - 1"
  by (simp add: unat_sub word_le_nat_alt word_less_nat_alt)

lemma le_pred_iff: "a < (b :: u64) \<Longrightarrow> x \<le> b - 1 \<longleftrightarrow> x < b"
  by (auto simp: word_less_nat_alt word_le_nat_alt unat_sub)

section \<open>Results\<close>

text \<open>
  \<open>Result<T, E>\<close> is \<open>'e + 't\<close>: \<open>Inl\<close> is \<open>Err\<close>, \<open>Inr\<close> is \<open>Ok\<close>. The question mark
  operator is \<open>rbind\<close>; \<open>collect::<Result<Vec<_>>>\<close> is \<open>collect\<close>, which stops at
  the first error.
\<close>

definition rbind :: "'e + 'a \<Rightarrow> ('a \<Rightarrow> 'e + 'b) \<Rightarrow> 'e + 'b" where
  "rbind r f = (case r of Inl e \<Rightarrow> Inl e | Inr a \<Rightarrow> f a)"

lemma rbind_simps [simp]: "rbind (Inl e) f = Inl e" "rbind (Inr a) f = f a"
  by (simp_all add: rbind_def)

lemma rbind_eq_Inr: "rbind r f = Inr b \<longleftrightarrow> (\<exists>a. r = Inr a \<and> f a = Inr b)"
  by (cases r) simp_all

lemma rbind_cong [fundef_cong]:
  "r = s \<Longrightarrow> (\<And>a. s = Inr a \<Longrightarrow> f a = g a) \<Longrightarrow> rbind r f = rbind s g"
  by (cases s) simp_all

definition ok_or :: "'a option \<Rightarrow> 'e \<Rightarrow> 'e + 'a" where
  "ok_or x e = (case x of None \<Rightarrow> Inl e | Some a \<Rightarrow> Inr a)"

lemma ok_or_simps [simp]: "ok_or None e = Inl e" "ok_or (Some a) e = Inr a"
  by (simp_all add: ok_or_def)

lemma ok_or_eq_Inr [simp]: "ok_or x e = Inr a \<longleftrightarrow> x = Some a"
  by (cases x) simp_all

definition ensure :: "bool \<Rightarrow> 'e \<Rightarrow> 'e + unit" where
  "ensure b e = (if b then Inr () else Inl e)"

lemma ensure_Inr [simp]: "ensure b e = Inr u \<longleftrightarrow> b"
  by (simp add: ensure_def)

lemma ensure_Inl [simp]: "ensure b e = Inl f \<longleftrightarrow> \<not> b \<and> f = e"
  by (auto simp: ensure_def)

definition map_err :: "('e \<Rightarrow> 'f) \<Rightarrow> 'e + 'a \<Rightarrow> 'f + 'a" where
  "map_err f r = (case r of Inl e \<Rightarrow> Inl (f e) | Inr a \<Rightarrow> Inr a)"

lemma map_err_simps [simp]: "map_err f (Inl e) = Inl (f e)" "map_err f (Inr a) = Inr a"
  by (simp_all add: map_err_def)

lemma map_err_eq_Inr [simp]: "map_err f r = Inr a \<longleftrightarrow> r = Inr a"
  by (cases r) simp_all

fun collect :: "('a \<Rightarrow> 'e + 'b) \<Rightarrow> 'a list \<Rightarrow> 'e + 'b list" where
  "collect f [] = Inr []"
| "collect f (x # xs) = rbind (f x) (\<lambda>y. rbind (collect f xs) (\<lambda>ys. Inr (y # ys)))"

lemma collect_Inr_iff: "collect f xs = Inr ys \<longleftrightarrow> list_all2 (\<lambda>x y. f x = Inr y) xs ys"
proof (induction xs arbitrary: ys)
  case (Cons x xs)
  then show ?case
    by (cases ys) (auto simp: rbind_eq_Inr)
qed auto

lemma collect_length: "collect f xs = Inr ys \<Longrightarrow> length ys = length xs"
  by (auto simp: collect_Inr_iff dest: list_all2_lengthD)

lemma collect_all_Inr: "(\<And>x. x \<in> set xs \<Longrightarrow> f x = Inr (g x)) \<Longrightarrow> collect f xs = Inr (map g xs)"
  by (induction xs) simp_all

section \<open>Inclusive ranges of heights\<close>

text \<open>\<open>start..=end\<close> as the list its iterator yields.\<close>

definition heights_between :: "u64 \<Rightarrow> u64 \<Rightarrow> u64 list" where
  "heights_between a b = map of_nat [unat a ..< Suc (unat b)]"

lemma unat_of_nat_u64: "n < 2 ^ 64 \<Longrightarrow> unat (of_nat n :: u64) = n"
  by (simp add: unat_of_nat take_bit_nat_eq_self)

lemma set_heights_between [simp]: "set (heights_between a b) = {a..b}"
proof (intro equalityI subsetI)
  fix x assume "x \<in> set (heights_between a b)"
  then obtain n where n: "unat a \<le> n" "n \<le> unat b" "x = of_nat n"
    by (auto simp: heights_between_def)
  then have "unat x = n"
    using unat_u64_bound [of b] by (simp add: unat_of_nat_u64)
  with n show "x \<in> {a..b}" by (simp add: word_le_nat_alt)
next
  fix x assume "x \<in> {a..b}"
  then have "unat x \<in> {unat a ..< Suc (unat b)}" "x = of_nat (unat x)"
    by (auto simp: word_le_nat_alt)
  then show "x \<in> set (heights_between a b)"
    unfolding heights_between_def by (metis image_eqI set_map set_upt)
qed

lemma heights_between_sorted [simp]: "sorted_wrt (<) (heights_between a b)"
proof -
  have "sorted_wrt (\<lambda>i j. (of_nat i :: u64) < of_nat j) [unat a ..< Suc (unat b)]"
    by (rule sorted_wrt_mono_rel [OF _ sorted_wrt_upt])
      (use unat_u64_bound [of b] in \<open>auto simp: word_less_nat_alt unat_of_nat_u64\<close>)
  then show ?thesis by (simp add: heights_between_def sorted_wrt_map)
qed

lemma length_heights_between [simp]:
  "length (heights_between a b) = Suc (unat b) - unat a"
  by (simp add: heights_between_def del: upt_Suc)

lemma unat_heights_between_nth:
  assumes "i < Suc (unat b) - unat a"
  shows "unat (heights_between a b ! i) = unat a + i"
proof -
  have "heights_between a b ! i = of_nat (unat a + i)"
    using assms by (simp add: heights_between_def del: upt_Suc of_nat_add)
  moreover have "unat a + i < 2 ^ 64"
    using assms unat_u64_bound [of b] by simp
  ultimately show ?thesis by (simp only: unat_of_nat_u64)
qed

lemma heights_between_empty [simp]: "b < a \<Longrightarrow> heights_between a b = []"
  by (simp add: heights_between_def word_less_nat_alt)

lemma heights_between_Cons: "a \<le> b \<Longrightarrow> a \<noteq> u64_max \<Longrightarrow>
  heights_between a b = a # heights_between (a + 1) b"
  by (simp add: heights_between_def word_le_nat_alt unat_Suc_u64 upt_conv_Cons del: upt_Suc)

lemma heights_between_max [simp]: "heights_between u64_max b = (if b = u64_max then [u64_max] else [])"
proof (cases "b = u64_max")
  case False
  then have "b < u64_max" by (simp add: order.not_eq_order_implies_strict)
  with False show ?thesis by simp
next
  case True
  have "heights_between u64_max u64_max = [of_nat (unat u64_max)]"
    by (simp add: heights_between_def)
  with True show ?thesis by simp
qed

lemma hd_heights_between: "heights_between a b \<noteq> [] \<Longrightarrow> hd (heights_between a b) = a"
proof -
  assume "heights_between a b \<noteq> []"
  then have "a \<le> b" by (cases "a \<le> b") (simp_all add: not_le)
  then show ?thesis
    by (cases "a = u64_max") (auto simp: heights_between_Cons dest: order.antisym [OF le_u64_max])
qed

lemma heights_between_split:
  assumes "a \<le> c" "c < b"
  shows "heights_between a b = heights_between a c @ heights_between (c + 1) b"
proof -
  have "[unat a ..< Suc (unat b)] = [unat a ..< Suc (unat c)] @ [Suc (unat c) ..< Suc (unat b)]"
    using upt_add_eq_append [of "unat a" "Suc (unat c)" "unat b - unat c"] assms
    by (simp add: word_le_nat_alt word_less_nat_alt del: upt_Suc)
  with assms show ?thesis
    by (simp add: heights_between_def unat_Suc_u64 [OF less_imp_not_max [OF assms(2)]] del: upt_Suc)
qed

lemma sorted_lists_same_set:
  "sorted_wrt (<) xs \<Longrightarrow> sorted_wrt (<) ys \<Longrightarrow> set xs = set ys \<Longrightarrow> xs = (ys :: 'a::linorder list)"
  by (simp add: strict_sorted_equal)

end
