(* ===== verification/Sq_Range.thy ===== *)
theory Sq_Range
  imports Sq_Prelude
begin

text \<open>
  Fetch planning, \<open>crates/core/src/fetch/range.rs\<close> and \<open>backpressure.rs\<close>: spans of heights,
  the bypass plan, the next batch and the safe head; admission control. The lemmas
  characterise \<open>next_batch\<close> completely: when it yields a batch, where the batch starts and
  where it stops, and that the bounded skip loop never gives up early.
\<close>

section \<open>Spans\<close>

record block_range =
  br_start :: u64
  br_end :: u64

definition range_new :: "u64 \<Rightarrow> u64 \<Rightarrow> block_range option" where
  "range_new start end = (if start \<le> end then Some \<lparr>br_start = start, br_end = end\<rparr> else None)"

definition range_len :: "block_range \<Rightarrow> u64" where
  "range_len r = saturating_add (saturating_sub (br_end r) (br_start r)) 1"

definition range_is_empty :: "block_range \<Rightarrow> bool" where
  "range_is_empty r = False"

definition range_contains :: "block_range \<Rightarrow> u64 \<Rightarrow> bool" where
  "range_contains r height = (br_start r \<le> height \<and> height \<le> br_end r)"

definition range_heights :: "block_range \<Rightarrow> u64 list" where
  "range_heights r = heights_between (br_start r) (br_end r)"

section \<open>The bypass plan\<close>

record range_plan =
  plan_spans :: "block_range list"

definition plan_new :: range_plan where
  "plan_new = \<lparr>plan_spans = []\<rparr>"

definition plan_bypass :: "range_plan \<Rightarrow> u64 \<Rightarrow> u64 \<Rightarrow> range_plan" where
  "plan_bypass p start end =
     (case range_new start end of
        Some r \<Rightarrow> p\<lparr>plan_spans := plan_spans p @ [r]\<rparr>
      | None \<Rightarrow> p)"

definition is_bypassed :: "range_plan \<Rightarrow> u64 \<Rightarrow> bool" where
  "is_bypassed p height = list_ex (\<lambda>r. range_contains r height) (plan_spans p)"

text \<open>
  The loop of \<open>advance_past_bypass\<close>: its first argument counts the passes of
  \<open>for _ in 0..=self.bypass.len()\<close>.
\<close>

fun advance_passes :: "nat \<Rightarrow> block_range list \<Rightarrow> u64 \<Rightarrow> u64 \<Rightarrow> u64 option" where
  "advance_passes 0 spans height ceiling = None"
| "advance_passes (Suc n) spans height ceiling =
     (case List.find (\<lambda>r. range_contains r height) spans of
        Some r \<Rightarrow> (case checked_add (br_end r) 1 of
                    Some next \<Rightarrow> advance_passes n spans next ceiling
                  | None \<Rightarrow> None)
      | None \<Rightarrow> if height \<le> ceiling then Some height else None)"

definition advance_past_bypass :: "range_plan \<Rightarrow> u64 \<Rightarrow> u64 \<Rightarrow> u64 option" where
  "advance_past_bypass p height ceiling =
     advance_passes (Suc (length (plan_spans p))) (plan_spans p) height ceiling"

text \<open>\<open>Iterator::min\<close>.\<close>

definition iter_min :: "'a::linorder list \<Rightarrow> 'a option" where
  "iter_min xs = (case xs of [] \<Rightarrow> None | y # ys \<Rightarrow> Some (fold min ys y))"

definition next_batch ::
    "range_plan \<Rightarrow> u64 \<Rightarrow> u64 \<Rightarrow> u32 \<Rightarrow> u64 option \<Rightarrow> block_range option" where
  "next_batch p next_height safe_head batch_size end_height =
     (let ceiling = (case end_height of Some end \<Rightarrow> min safe_head end | None \<Rightarrow> safe_head)
      in if batch_size = 0 \<or> ceiling < next_height then None
         else case advance_past_bypass p next_height ceiling of
                None \<Rightarrow> None
              | Some start \<Rightarrow>
                  let span_end = min (saturating_add start (ucast batch_size - 1)) ceiling;
                      end = (case iter_min (map (\<lambda>r. br_start r - 1)
                                (filter (\<lambda>r. start < br_start r \<and> br_start r \<le> span_end)
                                   (plan_spans p))) of
                               Some e \<Rightarrow> e
                             | None \<Rightarrow> span_end)
                  in range_new start end)"

definition heights_in :: "range_plan \<Rightarrow> block_range \<Rightarrow> u64 list" where
  "heights_in p r = filter (\<lambda>h. \<not> is_bypassed p h) (range_heights r)"

definition safe_head :: "u64 \<Rightarrow> u64 \<Rightarrow> bool \<Rightarrow> u64 \<Rightarrow> u64" where
  "safe_head latest finalized unfinalized confirmations =
     (if unfinalized then latest else min finalized latest)"

section \<open>Backpressure\<close>

record backpressure =
  max_in_flight :: u32
  queue_capacity :: u32

definition backpressure_new :: "u32 \<Rightarrow> u32 \<Rightarrow> backpressure" where
  "backpressure_new mif cap = \<lparr>max_in_flight = max mif 1, queue_capacity = max cap 1\<rparr>"

definition available :: "backpressure \<Rightarrow> u32 \<Rightarrow> u32 \<Rightarrow> u32" where
  "available bp in_flight queued =
     (let by_flight = saturating_sub (max_in_flight bp) in_flight;
          by_queue = saturating_sub (queue_capacity bp) (saturating_add queued in_flight)
      in min by_flight by_queue)"

definition should_pause :: "backpressure \<Rightarrow> u32 \<Rightarrow> u32 \<Rightarrow> bool" where
  "should_pause bp in_flight queued = (available bp in_flight queued = 0)"

definition clamp_batch :: "backpressure \<Rightarrow> u32 \<Rightarrow> u32 \<Rightarrow> u32 \<Rightarrow> u32" where
  "clamp_batch bp desired in_flight queued = min desired (available bp in_flight queued)"

section \<open>Lemmas: spans and the skip loop\<close>

lemma range_new_Some [simp]: "range_new a b = Some r \<longleftrightarrow> a \<le> b \<and> r = \<lparr>br_start = a, br_end = b\<rparr>"
  by (auto simp: range_new_def)

lemma range_new_None [simp]: "range_new a b = None \<longleftrightarrow> b < a"
  by (auto simp: range_new_def)

lemma set_range_heights [simp]: "set (range_heights r) = {br_start r..br_end r}"
  by (simp add: range_heights_def)

lemma is_bypassed_iff: "is_bypassed p h \<longleftrightarrow> (\<exists>r \<in> set (plan_spans p). range_contains r h)"
  by (simp add: is_bypassed_def list_ex_iff)

lemma not_bypassed_plan_new [simp]: "\<not> is_bypassed plan_new h"
  by (simp add: is_bypassed_def plan_new_def)

lemma bypassed_plan_bypass: "is_bypassed (plan_bypass p a b) h \<longleftrightarrow> is_bypassed p h \<or> a \<le> h \<and> h \<le> b"
  by (auto simp: plan_bypass_def is_bypassed_def range_contains_def split: option.splits)

lemma set_heights_in: "set (heights_in p r) = {h. br_start r \<le> h \<and> h \<le> br_end r \<and> \<not> is_bypassed p h}"
  by (auto simp: heights_in_def)

lemma sorted_heights_in: "sorted_wrt (<) (heights_in p r)"
  by (simp add: heights_in_def range_heights_def sorted_wrt_filter)

lemma iter_min_None [simp]: "iter_min xs = None \<longleftrightarrow> xs = []"
  by (simp add: iter_min_def split: list.splits)

lemma fold_min: "fold min ys y = Min (insert y (set ys))"
  by (metis Min.set_eq_fold list.set(2))

lemma iter_min_Some: "iter_min xs = Some m \<longleftrightarrow> xs \<noteq> [] \<and> m = Min (set xs)"
  by (cases xs) (auto simp: iter_min_def fold_min)

definition live_spans :: "block_range list \<Rightarrow> u64 \<Rightarrow> nat" where
  "live_spans spans h = length (filter (\<lambda>r. h \<le> br_end r) spans)"

lemma length_filter_less:
  "x \<in> set xs \<Longrightarrow> Q x \<Longrightarrow> \<not> P x \<Longrightarrow> (\<And>y. P y \<Longrightarrow> Q y) \<Longrightarrow>
     length (filter P xs) < length (filter Q xs)"
proof (induction xs)
  case (Cons y ys)
  have "length (filter P zs) \<le> length (filter Q zs)" for zs
    using Cons.prems(4) by (induction zs) auto
  with Cons show ?case by (auto simp: le_imp_less_Suc less_Suc_eq_le)
qed simp

text \<open>Each pass leaves at least one span behind, as the comment on the loop says.\<close>

lemma live_spans_decrease:
  assumes "List.find (\<lambda>r. range_contains r h) spans = Some r" "checked_add (br_end r) 1 = Some next"
  shows "live_spans spans next < live_spans spans h" "h < next" "next = br_end r + 1"
proof -
  have r: "r \<in> set spans" "range_contains r h"
    using assms(1) by (auto simp: find_Some_iff)
  have n: "next = br_end r + 1" "br_end r \<noteq> u64_max"
    using assms(2) checked_add_one_None [of "br_end r"] by (auto simp: int_simps)
  then show next_eq: "next = br_end r + 1" by simp
  have lt: "br_end r < next" using n by (simp add: less_add_one)
  with r show "h < next" by (auto simp: range_contains_def)
  then show "live_spans spans next < live_spans spans h"
    unfolding live_spans_def using r lt
    by (intro length_filter_less [of r]) (auto simp: range_contains_def)
qed

lemma contains_up_to_end:
  "r \<in> set spans \<Longrightarrow> range_contains r h \<Longrightarrow> h \<le> x \<Longrightarrow> x \<le> br_end r \<Longrightarrow>
     list_ex (\<lambda>r. range_contains r x) spans"
  by (auto simp: list_ex_iff range_contains_def intro!: bexI [of _ r])

lemma advance_passes_sound:
  "advance_passes n spans height ceiling = Some h \<Longrightarrow>
     height \<le> h \<and> h \<le> ceiling \<and> \<not> list_ex (\<lambda>r. range_contains r h) spans \<and>
     (\<forall>x. height \<le> x \<and> x < h \<longrightarrow> list_ex (\<lambda>r. range_contains r x) spans)"
proof (induction n arbitrary: height)
  case (Suc n)
  show ?case
  proof (cases "List.find (\<lambda>r. range_contains r height) spans")
    case None
    with Suc.prems show ?thesis
      by (auto simp: find_None_iff list_ex_iff split: if_splits)
  next
    case (Some r)
    then have r: "r \<in> set spans" "range_contains r height" by (auto simp: find_Some_iff)
    from Some Suc.prems obtain nx where nx: "checked_add (br_end r) 1 = Some nx"
      "advance_passes n spans nx ceiling = Some h" by (auto split: option.splits)
    note d = live_spans_decrease [OF Some nx(1)]
    have "list_ex (\<lambda>r. range_contains r x) spans" if "height \<le> x" "x < nx" for x
    proof -
      have "x \<le> br_end r"
        using that(2) d(3) nx(1) by (metis checked_add_one_None less_add_one_iff option.distinct(1))
      with that r show ?thesis by (blast intro: contains_up_to_end)
    qed
    with Suc.IH [OF nx(2)] d(2) show ?thesis
      by (meson le_less_trans less_imp_le not_less order.trans)
  qed
qed simp

lemma advance_passes_complete:
  "live_spans spans height < n \<Longrightarrow> advance_passes n spans height ceiling = None \<Longrightarrow>
     height \<le> x \<Longrightarrow> x \<le> ceiling \<Longrightarrow> list_ex (\<lambda>r. range_contains r x) spans"
proof (induction n arbitrary: height)
  case (Suc n)
  show ?case
  proof (cases "List.find (\<lambda>r. range_contains r height) spans")
    case None
    with Suc.prems show ?thesis by (auto split: if_splits)
  next
    case (Some r)
    then have r: "r \<in> set spans" "range_contains r height" by (auto simp: find_Some_iff)
    show ?thesis
    proof (cases "x \<le> br_end r")
      case True
      with r Suc.prems show ?thesis by (blast intro: contains_up_to_end)
    next
      case False
      then obtain nx where nx: "checked_add (br_end r) 1 = Some nx"
        using checked_add_one_None [of "br_end r"] less_imp_not_max [of "br_end r" x]
        by (cases "checked_add (br_end r) 1") auto
      note d = live_spans_decrease [OF Some nx]
      have "nx \<le> x" using False d(3) by (simp add: less_eq_add_one)
      with Suc.IH [of nx] Suc.prems Some nx d(1) show ?thesis by simp
    qed
  qed
qed simp

lemma live_spans_bound: "live_spans spans h < Suc (length spans)"
  by (simp add: live_spans_def le_imp_less_Suc)

lemma advance_past_bypass_Some:
  "advance_past_bypass p height ceiling = Some h \<Longrightarrow>
     height \<le> h \<and> h \<le> ceiling \<and> \<not> is_bypassed p h \<and> {height..<h} \<subseteq> {x. is_bypassed p x}"
  using advance_passes_sound unfolding advance_past_bypass_def is_bypassed_def by fastforce

lemma advance_past_bypass_None:
  "advance_past_bypass p height ceiling = None \<longleftrightarrow> {height..ceiling} \<subseteq> {x. is_bypassed p x}"
proof
  assume "advance_past_bypass p height ceiling = None"
  then show "{height..ceiling} \<subseteq> {x. is_bypassed p x}"
    using advance_passes_complete [OF live_spans_bound]
    unfolding advance_past_bypass_def is_bypassed_def by fastforce
next
  assume all: "{height..ceiling} \<subseteq> {x. is_bypassed p x}"
  show "advance_past_bypass p height ceiling = None"
  proof (cases "advance_past_bypass p height ceiling")
    case (Some h)
    with all advance_past_bypass_Some [OF Some] show ?thesis by auto
  qed
qed

section \<open>Lemmas: the next batch\<close>

definition batch_ceiling :: "u64 \<Rightarrow> u64 option \<Rightarrow> u64" where
  "batch_ceiling head end_height = (case end_height of Some e \<Rightarrow> min head e | None \<Rightarrow> head)"

definition batch_span_end :: "u64 \<Rightarrow> u32 \<Rightarrow> u64 \<Rightarrow> u64" where
  "batch_span_end start batch_size ceiling = min (saturating_add start (ucast batch_size - 1)) ceiling"

definition batch_end :: "range_plan \<Rightarrow> u64 \<Rightarrow> u64 \<Rightarrow> u64" where
  "batch_end p start span_end =
     (case iter_min (map (\<lambda>r. br_start r - 1)
         (filter (\<lambda>r. start < br_start r \<and> br_start r \<le> span_end) (plan_spans p))) of
        Some e \<Rightarrow> e | None \<Rightarrow> span_end)"

lemma next_batch_alt:
  "next_batch p next_height head batch_size end_height =
     (let c = batch_ceiling head end_height
      in if batch_size = 0 \<or> c < next_height then None
         else case advance_past_bypass p next_height c of
                None \<Rightarrow> None
              | Some start \<Rightarrow> range_new start (batch_end p start (batch_span_end start batch_size c)))"
  by (simp add: next_batch_def batch_ceiling_def batch_span_end_def batch_end_def Let_def
      split: option.splits)

lemma batch_end_cases:
  obtains (cut) r where "r \<in> set (plan_spans p)" "start < br_start r" "br_start r \<le> span_end"
      "batch_end p start span_end = br_start r - 1"
      "\<forall>q \<in> set (plan_spans p). start < br_start q \<and> br_start q \<le> span_end \<longrightarrow>
         batch_end p start span_end < br_start q"
    | (whole) "batch_end p start span_end = span_end"
      "\<forall>q \<in> set (plan_spans p). \<not> (start < br_start q \<and> br_start q \<le> span_end)"
proof (cases "filter (\<lambda>r. start < br_start r \<and> br_start r \<le> span_end) (plan_spans p)")
  case Nil
  then have "batch_end p start span_end = span_end" by (simp add: batch_end_def iter_min_def)
  moreover have "\<forall>q \<in> set (plan_spans p). \<not> (start < br_start q \<and> br_start q \<le> span_end)"
    using Nil by (simp add: filter_empty_conv)
  ultimately show thesis by (rule whole)
next
  case (Cons y ys)
  let ?fs = "filter (\<lambda>r. start < br_start r \<and> br_start r \<le> span_end) (plan_spans p)"
  let ?m = "Min (set (map (\<lambda>r. br_start r - 1) ?fs))"
  have e: "batch_end p start span_end = ?m"
    using Cons by (simp add: batch_end_def iter_min_def fold_min)
  have "?m \<in> set (map (\<lambda>r. br_start r - 1) ?fs)"
    using Cons by (intro Min_in) auto
  then obtain r where r: "r \<in> set ?fs" "?m = br_start r - 1" by auto
  have "batch_end p start span_end < br_start q"
    if "q \<in> set (plan_spans p)" "start < br_start q" "br_start q \<le> span_end" for q
  proof -
    have "?m \<le> br_start q - 1" using that by (intro Min_le) auto
    with e that(2) show ?thesis by (simp add: le_pred_iff)
  qed
  with e r show thesis by (intro cut [of r]) auto
qed

lemma batch_end_bounds:
  assumes "start \<le> span_end"
  shows "start \<le> batch_end p start span_end" "batch_end p start span_end \<le> span_end"
proof -
  show "start \<le> batch_end p start span_end"
    by (cases rule: batch_end_cases [of p start span_end]) (simp_all add: le_pred_iff assms)
  show "batch_end p start span_end \<le> span_end"
    using assms
    by (cases rule: batch_end_cases [of p start span_end])
      (auto simp: word_le_nat_alt word_less_nat_alt unat_pred)
qed

text \<open>Nothing after an open start is bypassed before the end of the batch.\<close>

lemma batch_end_open:
  assumes "\<not> is_bypassed p start" "start \<le> x" "x \<le> batch_end p start span_end" "start \<le> span_end"
  shows "\<not> is_bypassed p x"
proof
  assume "is_bypassed p x"
  then obtain q where q: "q \<in> set (plan_spans p)" "br_start q \<le> x" "x \<le> br_end q"
    by (auto simp: is_bypassed_iff range_contains_def)
  have "start < br_start q"
    using assms(1,2) q by (force simp: is_bypassed_iff range_contains_def)
  moreover have "br_start q \<le> span_end"
    using q(2) assms(3) batch_end_bounds(2) [OF assms(4), of p] by simp
  ultimately have "batch_end p start span_end < br_start q"
    using q(1) by (cases rule: batch_end_cases [of p start span_end]) auto
  with q assms(3) show False by simp
qed

lemma ucast_u32_pos: "(b :: u32) \<noteq> 0 \<Longrightarrow> unat (ucast b - 1 :: u64) = unat b - 1"
proof -
  assume "b \<noteq> 0"
  then have "unat b \<noteq> 0" by (simp add: unat_eq_0)
  moreover have "unat b < 2 ^ 32" using unsigned_less [of b] by simp
  then have "unat (ucast b :: u64) = unat b" by (simp add: unsigned_ucast_eq take_bit_nat_eq_self)
  ultimately show ?thesis by (simp add: unat_sub word_le_nat_alt)
qed

lemma batch_span_end_bounds:
  assumes "start \<le> c" "b \<noteq> 0"
  shows "start \<le> batch_span_end start b c" "batch_span_end start b c \<le> c"
    "unat (batch_span_end start b c) = min (unat start + (unat b - 1)) (unat c)"
proof -
  show u: "unat (batch_span_end start b c) = min (unat start + (unat b - 1)) (unat c)"
    using unat_u64_bound [of c] assms(2)
    by (simp add: batch_span_end_def min_def word_le_nat_alt int_simps ucast_u32_pos split: if_splits)
  then show "start \<le> batch_span_end start b c" using assms(1) by (simp add: word_le_nat_alt)
  show "batch_span_end start b c \<le> c" using u by (simp add: word_le_nat_alt)
qed

lemma next_batch_Some:
  assumes "next_batch p n head b e = Some r"
  shows "n \<le> br_start r" "br_start r \<le> br_end r" "br_end r \<le> batch_ceiling head e"
    "{n..<br_start r} \<subseteq> {x. is_bypassed p x}" "{br_start r..br_end r} \<inter> {x. is_bypassed p x} = {}"
    "unat (br_end r) - unat (br_start r) < unat b" "b \<noteq> 0"
proof -
  let ?c = "batch_ceiling head e"
  obtain start where s: "b \<noteq> 0" "advance_past_bypass p n ?c = Some start"
    "r = \<lparr>br_start = start, br_end = batch_end p start (batch_span_end start b ?c)\<rparr>"
    using assms by (auto simp: next_batch_alt Let_def split: if_splits option.splits)
  note a = advance_past_bypass_Some [OF s(2)]
  note sp = batch_span_end_bounds [OF _ s(1), of start ?c]
  note be = batch_end_bounds [OF sp(1), of p]
  show "b \<noteq> 0" by (fact s(1))
  show "n \<le> br_start r" "{n..<br_start r} \<subseteq> {x. is_bypassed p x}" using a s(3) by auto
  show "br_start r \<le> br_end r" "br_end r \<le> ?c"
    using a be s(3) order.trans [OF be(2) sp(2)] by auto
  show "{br_start r..br_end r} \<inter> {x. is_bypassed p x} = {}"
    using batch_end_open a s(3) sp(1) by fastforce
  have "unat (batch_end p start (batch_span_end start b ?c)) \<le> unat start + (unat b - 1)"
    using a be(2) sp(3) by (simp add: word_le_nat_alt)
  moreover have "0 < unat b" using s(1) by (simp add: unat_gt_0)
  ultimately show "unat (br_end r) - unat (br_start r) < unat b"
    using s(3) by simp
qed

lemma next_batch_None:
  "next_batch p n head b e = None \<longleftrightarrow> b = 0 \<or> {n..batch_ceiling head e} \<subseteq> {x. is_bypassed p x}"
proof (cases "b = 0 \<or> batch_ceiling head e < n")
  case False
  let ?c = "batch_ceiling head e"
  have "next_batch p n head b e = None \<longleftrightarrow> advance_past_bypass p n ?c = None"
  proof (cases "advance_past_bypass p n ?c")
    case (Some start)
    have "start \<le> batch_end p start (batch_span_end start b ?c)"
      using advance_past_bypass_Some [OF Some] False
      by (intro batch_end_bounds batch_span_end_bounds) auto
    with False Some show ?thesis by (simp add: next_batch_alt)
  qed (use False in \<open>simp add: next_batch_alt\<close>)
  with False show ?thesis by (simp add: advance_past_bypass_None)
qed (auto simp: next_batch_alt)

lemma next_batch_heights:
  "next_batch p n head b e = Some r \<Longrightarrow> heights_in p r = range_heights r"
  using next_batch_Some(5) by (fastforce simp: heights_in_def intro!: filter_True)

lemma next_batch_length:
  assumes "next_batch p n head b e = Some r"
  shows "length (heights_in p r) \<le> unat b"
  using next_batch_Some(2,6) [OF assms]
  by (simp add: next_batch_heights [OF assms] range_heights_def word_le_nat_alt Suc_diff_le)

section \<open>Properties\<close>

text \<open>C18: what \<open>next_batch\<close> plans. A batch lies between the next height and the ceiling
  (the safe head, or the end height when that is lower), skips nothing but bypassed heights,
  contains no bypassed height, lists every one of its heights exactly once and holds at most
  \<open>batch_size\<close> of them. No batch is planned only for a zero batch size, or when every
  height up to the ceiling is bypassed (in particular when there is none).\<close>

theorem next_batch_correct:
  "case next_batch p n head b e of
     Some r \<Rightarrow> n \<le> br_start r \<and> br_start r \<le> br_end r \<and> br_end r \<le> batch_ceiling head e \<and>
       {n..<br_start r} \<subseteq> {x. is_bypassed p x} \<and>
       {br_start r..br_end r} \<inter> {x. is_bypassed p x} = {} \<and>
       heights_in p r = range_heights r \<and> 0 < length (range_heights r) \<and>
       length (range_heights r) \<le> unat b
   | None \<Rightarrow> b = 0 \<or> {n..batch_ceiling head e} \<subseteq> {x. is_bypassed p x}"
proof (cases "next_batch p n head b e")
  case (Some r)
  note s = next_batch_Some [OF Some]
  have "0 < length (range_heights r)"
    using s(2) by (simp add: range_heights_def word_le_nat_alt)
  then show ?thesis
    using Some s next_batch_heights [OF Some] next_batch_length [OF Some] by simp
next
  case None
  with next_batch_None [of p n head b e] show ?thesis by auto
qed

text \<open>a batch is cut short only for a reason: it ends at the ceiling, it is full, or a
  span of the bypass plan starts at the very next height.\<close>

theorem next_batch_maximal:
  "case next_batch p n head b e of
     Some r \<Rightarrow> br_end r = batch_ceiling head e \<or> length (range_heights r) = unat b \<or>
       br_end r + 1 \<in> br_start ` set (plan_spans p)
   | None \<Rightarrow> True"
proof (cases "next_batch p n head b e")
  case (Some r)
  let ?c = "batch_ceiling head e"
  obtain start where s: "b \<noteq> 0" "advance_past_bypass p n ?c = Some start" "br_start r = start"
    "br_end r = batch_end p start (batch_span_end start b ?c)"
    using Some by (auto simp: next_batch_alt Let_def split: if_splits option.splits)
  have c: "start \<le> ?c" using advance_past_bypass_Some [OF s(2)] by simp
  note sp = batch_span_end_bounds [OF c s(1)]
  have "br_end r = ?c \<or> length (range_heights r) = unat b \<or> br_end r + 1 \<in> br_start ` set (plan_spans p)"
  proof (cases rule: batch_end_cases [of p start "batch_span_end start b ?c"])
    case (cut q)
    with s(4) show ?thesis by simp
  next
    case whole
    have "0 < unat b" using s(1) by (simp add: unat_gt_0)
    with whole s sp(3) c show ?thesis
      by (auto simp: range_heights_def word_unat_eq_iff word_le_nat_alt min_def split: if_splits)
  qed
  with Some show ?thesis by simp
qed simp

text \<open>admission control. What is requested never takes the requests in flight over their
  limit, nor the blocks held or on their way over the queue capacity, even where the sum of
  the two counters saturates; and limits built by \<open>Backpressure::new\<close> never stop an idle
  fetcher.\<close>

theorem clamp_batch_respects_limits:
  "unat in_flight + unat (clamp_batch bp desired in_flight queued)
     \<le> max (unat in_flight) (unat (max_in_flight bp)) \<and>
   unat in_flight + unat queued + unat (clamp_batch bp desired in_flight queued)
     \<le> max (unat in_flight + unat queued) (unat (queue_capacity bp)) \<and>
   clamp_batch bp desired in_flight queued \<le> desired \<and>
   (clamp_batch (backpressure_new m c) desired 0 0 = 0 \<longleftrightarrow> desired = 0)"
proof -
  have u: "unat (clamp_batch bp desired in_flight queued) =
      min (unat desired) (min (unat (max_in_flight bp) - unat in_flight)
        (unat (queue_capacity bp) - min (2 ^ 32 - 1) (unat queued + unat in_flight)))"
    by (simp add: clamp_batch_def available_def Let_def min_def word_le_nat_alt int_simps)
  have "unat (queue_capacity bp) < 2 ^ 32" using unsigned_less [of "queue_capacity bp"] by simp
  moreover have "clamp_batch (backpressure_new m c) desired 0 0 = 0 \<longleftrightarrow> desired = 0"
    by (auto simp: clamp_batch_def available_def backpressure_new_def Let_def min_def max_def
        word_le_nat_alt word_unat_eq_iff int_simps)
  ultimately show ?thesis
    using u by (auto simp: word_le_nat_alt min_def max_def)
qed

end
