(* ===== verification/Sq_Strings.thy ===== *)
theory Sq_Strings
  imports Sq_Prelude
begin

text \<open>
  Rust's string operations used by the code, on strings as lists of UTF-8 bytes: prefixes,
  ASCII case folding, decimal and hexadecimal integers. \<open>u64::from_str\<close> and
  \<open>u64::from_str_radix\<close> accept one leading plus sign, then at least one digit, and fail on
  overflow; \<open>{:x}\<close> and \<open>to_string\<close> print without sign or leading zeros.
\<close>

definition strip_prefix :: "string \<Rightarrow> string \<Rightarrow> string option" where
  "strip_prefix p s = (if take (length p) s = p then Some (drop (length p) s) else None)"

lemma strip_prefix_Some [simp]: "strip_prefix p s = Some t \<longleftrightarrow> s = p @ t"
  by (auto simp: strip_prefix_def split: if_splits) (metis append_take_drop_id)

lemma strip_prefix_append [simp]: "strip_prefix p (p @ t) = Some t"
  by simp

definition ends_with :: "string \<Rightarrow> string \<Rightarrow> bool" where
  "ends_with s p = (length p \<le> length s \<and> drop (length s - length p) s = p)"

definition is_ascii_uppercase :: "char \<Rightarrow> bool" where
  "is_ascii_uppercase c = (65 \<le> (of_char c :: nat) \<and> (of_char c :: nat) \<le> 90)"

definition is_ascii_lowercase :: "char \<Rightarrow> bool" where
  "is_ascii_lowercase c = (97 \<le> (of_char c :: nat) \<and> (of_char c :: nat) \<le> 122)"

definition is_ascii_digit :: "char \<Rightarrow> bool" where
  "is_ascii_digit c = (48 \<le> (of_char c :: nat) \<and> (of_char c :: nat) \<le> 57)"

definition is_ascii_alphanumeric :: "char \<Rightarrow> bool" where
  "is_ascii_alphanumeric c = (is_ascii_uppercase c \<or> is_ascii_lowercase c \<or> is_ascii_digit c)"

definition to_ascii_lowercase :: "char \<Rightarrow> char" where
  "to_ascii_lowercase c = (if is_ascii_uppercase c then char_of ((of_char c :: nat) + 32) else c)"

definition eq_ignore_ascii_case :: "string \<Rightarrow> string \<Rightarrow> bool" where
  "eq_ignore_ascii_case a b = (map to_ascii_lowercase a = map to_ascii_lowercase b)"

lemma eq_ignore_ascii_case_length: "eq_ignore_ascii_case a b \<Longrightarrow> length a = length b"
  unfolding eq_ignore_ascii_case_def by (metis length_map)

section \<open>Reading integers\<close>

text \<open>\<open>char::to_digit\<close> for a radix of at most 36.\<close>

definition to_digit :: "nat \<Rightarrow> char \<Rightarrow> nat option" where
  "to_digit radix c =
     (let n = of_char c :: nat;
          d = (if 48 \<le> n \<and> n \<le> 57 then Some (n - 48)
               else if 97 \<le> n \<and> n \<le> 122 then Some (n - 87)
               else if 65 \<le> n \<and> n \<le> 90 then Some (n - 55)
               else None)
      in case d of None \<Rightarrow> None | Some v \<Rightarrow> if v < radix then Some v else None)"

fun digits_value :: "nat \<Rightarrow> nat \<Rightarrow> string \<Rightarrow> nat option" where
  "digits_value radix acc [] = Some acc"
| "digits_value radix acc (c # cs) =
     (case to_digit radix c of
        None \<Rightarrow> None
      | Some d \<Rightarrow> digits_value radix (acc * radix + d) cs)"

definition from_str_radix :: "nat \<Rightarrow> string \<Rightarrow> u64 option" where
  "from_str_radix radix s =
     (let digits = (case s of [] \<Rightarrow> [] | c # cs \<Rightarrow> if c = CHR ''+'' then cs else s)
      in if digits = [] then None
         else case digits_value radix 0 digits of
                None \<Rightarrow> None
              | Some n \<Rightarrow> if n < 2 ^ 64 then Some (of_nat n) else None)"

definition parse_u64 :: "string \<Rightarrow> u64 option" where
  "parse_u64 s = from_str_radix 10 s"

section \<open>Printing integers\<close>

definition from_digit :: "nat \<Rightarrow> char" where
  "from_digit d = (if d < 10 then char_of (48 + d) else char_of (87 + d))"

function show_radix :: "nat \<Rightarrow> nat \<Rightarrow> string" where
  "show_radix r n = (if r < 2 \<or> n < r then [from_digit n]
                     else show_radix r (n div r) @ [from_digit (n mod r)])"
  by pat_completeness auto
termination
  by (relation "measure snd") auto

declare show_radix.simps [simp del]

definition show_u64 :: "u64 \<Rightarrow> string" where
  "show_u64 n = show_radix 10 (unat n)"

definition show_hex :: "u64 \<Rightarrow> string" where
  "show_hex n = show_radix 16 (unat n)"

section \<open>Printing, then reading\<close>

lemma of_char_from_digit:
  "d < 16 \<Longrightarrow> (of_char (from_digit d) :: nat) = (if d < 10 then 48 + d else 87 + d)"
  by (simp add: from_digit_def)

lemma to_digit_from_digit: "d < r \<Longrightarrow> r \<le> 16 \<Longrightarrow> to_digit r (from_digit d) = Some d"
  by (simp add: to_digit_def of_char_from_digit Let_def)

lemma digits_value_append:
  "digits_value r acc (xs @ ys) =
     (case digits_value r acc xs of None \<Rightarrow> None | Some n \<Rightarrow> digits_value r n ys)"
  by (induction xs arbitrary: acc) (auto split: option.splits)

lemma digits_value_show:
  "2 \<le> r \<Longrightarrow> r \<le> 16 \<Longrightarrow> digits_value r 0 (show_radix r n) = Some n"
proof (induction r n rule: show_radix.induct)
  case (1 r n)
  show ?case
  proof (cases "n < r")
    case True
    with 1 show ?thesis by (simp add: show_radix.simps [of r n] to_digit_from_digit)
  next
    case False
    with 1 have "digits_value r 0 (show_radix r (n div r)) = Some (n div r)" by simp
    with False 1(2,3) show ?thesis
      by (simp add: show_radix.simps [of r n] digits_value_append to_digit_from_digit)
  qed
qed

lemma show_radix_nonempty [simp]: "show_radix r n \<noteq> []"
  by (subst show_radix.simps) simp

lemma from_digit_eq_iff:
  "d < 16 \<Longrightarrow> from_digit d = c \<longleftrightarrow> (of_char c :: nat) = (if d < 10 then 48 + d else 87 + d)"
  by (metis of_char_eq_iff of_char_from_digit)

lemma from_digit_zero_iff: "d < 16 \<Longrightarrow> from_digit d = CHR ''0'' \<longleftrightarrow> d = 0"
  by (auto simp: from_digit_eq_iff)

lemma from_digit_not_plus: "d < 16 \<Longrightarrow> from_digit d \<noteq> CHR ''+''"
  by (auto simp: from_digit_eq_iff)

lemma hd_show_radix:
  "2 \<le> r \<Longrightarrow> r \<le> 16 \<Longrightarrow> \<exists>d. hd (show_radix r n) = from_digit d \<and> d < r \<and> (d = 0 \<longrightarrow> n = 0)"
proof (induction r n rule: show_radix.induct)
  case (1 r n)
  show ?case
  proof (cases "n < r")
    case True
    with 1 show ?thesis by (subst show_radix.simps) auto
  next
    case False
    with 1 obtain d where "hd (show_radix r (n div r)) = from_digit d" "d < r"
      "d = 0 \<longrightarrow> n div r = 0" by auto
    moreover have "n div r \<noteq> 0" using False 1(2) by (simp add: div_eq_0_iff)
    ultimately show ?thesis using False 1(2)
      by (subst show_radix.simps) (auto simp: hd_append)
  qed
qed

lemma hd_show_radix_not_plus:
  assumes "2 \<le> r" "r \<le> 16"
  shows "hd (show_radix r n) \<noteq> CHR ''+''"
proof -
  obtain d where "hd (show_radix r n) = from_digit d" "d < r"
    using hd_show_radix [OF assms] by blast
  with assms show ?thesis by (simp add: from_digit_not_plus)
qed

lemma hd_show_radix_zero:
  assumes "2 \<le> r" "r \<le> 16" "n \<noteq> 0"
  shows "hd (show_radix r n) \<noteq> CHR ''0''"
proof -
  obtain d where "hd (show_radix r n) = from_digit d" "d < r" "d = 0 \<longrightarrow> n = 0"
    using hd_show_radix [OF assms(1,2)] by blast
  with assms show ?thesis by (simp add: from_digit_zero_iff)
qed

lemma from_str_radix_show:
  assumes "2 \<le> r" "r \<le> 16"
  shows "from_str_radix r (show_radix r (unat n)) = Some n"
proof -
  obtain c cs where cs: "show_radix r (unat n) = c # cs"
    using show_radix_nonempty by (cases "show_radix r (unat n)") auto
  moreover have "c \<noteq> CHR ''+''"
    using hd_show_radix_not_plus [OF assms, of "unat n"] cs by simp
  moreover have "digits_value r 0 (c # cs) = Some (unat n)"
    using digits_value_show [OF assms, of "unat n"] cs by simp
  ultimately show ?thesis
    by (simp add: from_str_radix_def unat_u64_bound [simplified] del: digits_value.simps)
qed

lemma parse_show_u64 [simp]: "parse_u64 (show_u64 n) = Some n"
  by (simp add: parse_u64_def show_u64_def from_str_radix_show)

lemma show_u64_nonempty [simp]: "show_u64 n \<noteq> []"
  by (simp add: show_u64_def)

lemma show_u64_inject [simp]: "show_u64 a = show_u64 b \<longleftrightarrow> a = b"
  by (metis option.inject parse_show_u64)

section \<open>SQL text\<close>

definition dquote :: char where
  "dquote = CHR 0x22"

definition quoted :: "string \<Rightarrow> string" where
  "quoted s = [dquote] @ s @ [dquote]"

fun join :: "string \<Rightarrow> string list \<Rightarrow> string" where
  "join sep [] = []"
| "join sep [x] = x"
| "join sep (x # y # xs) = x @ sep @ join sep (y # xs)"

definition newline :: string where
  "newline = [CHR 0x0A]"

end
