(* ===== verification/Sq_ChainApi.thy ===== *)
theory Sq_ChainApi
  imports Sq_Strings
begin

text \<open>
  The chain boundary, \<open>crates/chain-api\<close>: block identity (\<open>block.rs\<close>), the errors of the
  boundary and their retry class (\<open>error.rs\<close>), handler kinds and filters (\<open>filter.rs\<close>) and
  the default batch fetch of the adapter trait (\<open>adapter.rs\<close>). A timestamp is the integer
  its \<open>DateTime\<close> denotes; JSON values are those of \<open>serde_json\<close>, a number being its text
  and an object the list of its entries.
\<close>

section \<open>JSON values\<close>

datatype json =
    JNull
  | JBool bool
  | JNumber string
  | JString string
  | JArray "json list"
  | JObject "(string \<times> json) list"

definition json_index :: "json \<Rightarrow> string \<Rightarrow> json" where
  "json_index v k =
     (case v of JObject kvs \<Rightarrow> (case map_of kvs k of Some w \<Rightarrow> w | None \<Rightarrow> JNull) | _ \<Rightarrow> JNull)"

definition json_get :: "json \<Rightarrow> string \<Rightarrow> json option" where
  "json_get v k = (case v of JObject kvs \<Rightarrow> map_of kvs k | _ \<Rightarrow> None)"

definition json_as_str :: "json \<Rightarrow> string option" where
  "json_as_str v = (case v of JString s \<Rightarrow> Some s | _ \<Rightarrow> None)"

definition json_as_array :: "json \<Rightarrow> json list option" where
  "json_as_array v = (case v of JArray xs \<Rightarrow> Some xs | _ \<Rightarrow> None)"

definition json_as_bool :: "json \<Rightarrow> bool option" where
  "json_as_bool v = (case v of JBool b \<Rightarrow> Some b | _ \<Rightarrow> None)"

definition json_is_object :: "json \<Rightarrow> bool" where
  "json_is_object v = (case v of JObject _ \<Rightarrow> True | _ \<Rightarrow> False)"

lemmas json_defs = json_index_def json_get_def json_as_str_def json_as_array_def
  json_as_bool_def json_is_object_def

section \<open>Block identity\<close>

record block_ptr =
  bp_height :: u64
  bp_hash :: string

definition block_ptr_new :: "u64 \<Rightarrow> string \<Rightarrow> block_ptr" where
  "block_ptr_new h s = \<lparr>bp_height = h, bp_hash = s\<rparr>"

lemma block_ptr_new_simps [simp]:
  "bp_height (block_ptr_new h s) = h" "bp_hash (block_ptr_new h s) = s"
  by (simp_all add: block_ptr_new_def)

definition block_ptr_display :: "block_ptr \<Rightarrow> string" where
  "block_ptr_display p = ''#'' @ show_u64 (bp_height p) @ '' ('' @ bp_hash p @ '')''"

record header =
  hd_height :: u64
  hd_hash :: string
  hd_parent_hash :: "string option"
  hd_timestamp :: "int option"

definition header_ptr :: "header \<Rightarrow> block_ptr" where
  "header_ptr h = block_ptr_new (hd_height h) (hd_hash h)"

definition is_child_of :: "header \<Rightarrow> header \<Rightarrow> bool" where
  "is_child_of self parent =
     (Some (hd_height self) = checked_add (hd_height parent) 1 \<and>
      hd_parent_hash self = Some (hd_hash parent))"

datatype finality_state = Unfinalized | Final

record 'b generic_block =
  gb_header :: header
  gb_inner :: 'b

definition generic_block_new :: "header \<Rightarrow> 'b \<Rightarrow> 'b generic_block" where
  "generic_block_new h b = \<lparr>gb_header = h, gb_inner = b\<rparr>"

section \<open>Errors\<close>

datatype chain_error =
    Transport string
  | RateLimited "u64 option"
  | BlockUnavailable u64
  | ChainIdMismatch string string
  | ChainDecode string
  | Rpc int
  | ChainOther string

definition is_retryable :: "chain_error \<Rightarrow> bool" where
  "is_retryable e = (case e of Transport _ \<Rightarrow> True | RateLimited _ \<Rightarrow> True | _ \<Rightarrow> False)"

lemma is_retryable_simps [simp]:
  "is_retryable (Transport s)" "is_retryable (RateLimited r)"
  "\<not> is_retryable (BlockUnavailable h)" "\<not> is_retryable (ChainIdMismatch s t)"
  "\<not> is_retryable (ChainDecode s)" "\<not> is_retryable (Rpc c)" "\<not> is_retryable (ChainOther s)"
  by (simp_all add: is_retryable_def)

section \<open>Filters\<close>

datatype handler_kind = KindBlock | KindTransaction | KindEvent

fun handler_kind_as_str :: "handler_kind \<Rightarrow> string" where
  "handler_kind_as_str KindBlock = ''block''"
| "handler_kind_as_str KindTransaction = ''transaction''"
| "handler_kind_as_str KindEvent = ''event''"

record block_filter =
  bf_modulo :: "u64 option"
  bf_timestamp :: "string option"

text \<open>\<open>u64::is_multiple_of\<close>: only zero is a multiple of zero.\<close>

definition is_multiple_of :: "u64 \<Rightarrow> u64 \<Rightarrow> bool" where
  "is_multiple_of n m = (if m = 0 then n = 0 else n mod m = 0)"

definition matches_height :: "block_filter \<Rightarrow> u64 \<Rightarrow> bool" where
  "matches_height f height =
     (case bf_modulo f of
        None \<Rightarrow> True
      | Some m \<Rightarrow> if m = 0 then True else is_multiple_of height m)"

record chain_filter =
  fl_handler :: handler_kind
  fl_block :: block_filter
  fl_params :: json

definition filter_new :: "handler_kind \<Rightarrow> chain_filter" where
  "filter_new k = \<lparr>fl_handler = k, fl_block = \<lparr>bf_modulo = None, bf_timestamp = None\<rparr>,
     fl_params = JNull\<rparr>"

definition filter_with_params :: "chain_filter \<Rightarrow> json \<Rightarrow> chain_filter" where
  "filter_with_params f p = f\<lparr>fl_params := p\<rparr>"

definition filter_with_block :: "chain_filter \<Rightarrow> block_filter \<Rightarrow> chain_filter" where
  "filter_with_block f b = f\<lparr>fl_block := b\<rparr>"

text \<open>\<open>de\<close> is the deserializer of the adapter's own filter type.\<close>

definition parse_params :: "(json \<Rightarrow> string + 'a) \<Rightarrow> chain_filter \<Rightarrow> chain_error + 'a" where
  "parse_params de f = map_err (\<lambda>e. ChainDecode (''invalid filter params: '' @ e)) (de (fl_params f))"

section \<open>Fetching a range\<close>

text \<open>The default of \<open>ChainAdapter::fetch_blocks\<close>: one fetch after another, stopping at the
  first failure.\<close>

definition fetch_blocks :: "(u64 \<Rightarrow> chain_error + 'b) \<Rightarrow> u64 list \<Rightarrow> chain_error + 'b list" where
  "fetch_blocks fetch_block heights = collect fetch_block heights"

section \<open>Linked headers\<close>

text \<open>A list of headers in which each is the child of the one before.\<close>

fun linked :: "header list \<Rightarrow> bool" where
  "linked (a # b # hs) = (is_child_of b a \<and> linked (b # hs))"
| "linked _ = True"

lemma is_child_of_iff:
  "is_child_of c p \<longleftrightarrow>
     hd_height p \<noteq> u64_max \<and> hd_height c = hd_height p + 1 \<and> hd_parent_hash c = Some (hd_hash p)"
  using checked_add_one_None [of "hd_height p"]
  by (auto simp: is_child_of_def checked_add_def split: if_splits)

lemma is_child_of_height: "is_child_of c p \<Longrightarrow> unat (hd_height c) = Suc (unat (hd_height p))"
  by (simp add: is_child_of_iff unat_Suc_u64)

lemma not_child_of_self [simp]: "\<not> is_child_of h h"
  using is_child_of_height [of h h] by auto

lemma linked_Cons: "linked (h # hs) \<longleftrightarrow> (hs = [] \<or> is_child_of (hd hs) h \<and> linked hs)"
  by (cases hs) simp_all

lemma linked_append:
  "xs \<noteq> [] \<Longrightarrow> ys \<noteq> [] \<Longrightarrow> linked (xs @ ys) \<longleftrightarrow> linked xs \<and> is_child_of (hd ys) (last xs) \<and> linked ys"
  by (induction xs) (auto simp: linked_Cons)

lemma linked_snoc: "linked (xs @ [h]) \<longleftrightarrow> linked xs \<and> (xs = [] \<or> is_child_of h (last xs))"
  by (cases "xs = []") (auto simp: linked_append)

lemma linked_heights:
  "linked hs \<Longrightarrow> i < length hs \<Longrightarrow> unat (hd_height (hs ! i)) = unat (hd_height (hs ! 0)) + i"
proof (induction hs arbitrary: i rule: linked.induct)
  case (1 a b hs)
  show ?case
  proof (cases i)
    case (Suc j)
    with 1 have "unat (hd_height ((b # hs) ! j)) = unat (hd_height b) + j" by force
    with 1 Suc show ?thesis by (simp add: is_child_of_height)
  qed simp
qed auto

lemma linked_parents:
  "linked hs \<Longrightarrow> Suc i < length hs \<Longrightarrow> hd_parent_hash (hs ! Suc i) = Some (hd_hash (hs ! i))"
proof (induction hs arbitrary: i rule: linked.induct)
  case (1 a b hs)
  then show ?case by (cases i) (auto simp: is_child_of_iff)
qed auto

lemma linked_map_heights:
  assumes "linked hs" "hs \<noteq> []"
  shows "map hd_height hs = heights_between (hd_height (hd hs)) (hd_height (last hs))"
proof (rule nth_equalityI)
  have h: "unat (hd_height (hs ! i)) = unat (hd_height (hd hs)) + i" if "i < length hs" for i
    using linked_heights [OF assms(1) that] assms(2) by (simp add: hd_conv_nth)
  have l: "unat (hd_height (last hs)) = unat (hd_height (hd hs)) + (length hs - 1)"
    using h [of "length hs - 1"] assms(2) by (simp add: last_conv_nth)
  then show len: "length (map hd_height hs) = length (heights_between (hd_height (hd hs)) (hd_height (last hs)))"
    using assms(2) by simp
  fix i assume "i < length (map hd_height hs)"
  then show "map hd_height hs ! i = heights_between (hd_height (hd hs)) (hd_height (last hs)) ! i"
    using h [of i] l len by (simp add: word_unat_eq_iff unat_heights_between_nth)
qed

end
