(* ===== verification/Sq_Errors.thy ===== *)
theory Sq_Errors
  imports Sq_ChainApi
begin

text \<open>
  The error types of the store, the engine and the dispatcher: \<open>crates/store/src/error.rs\<close>,
  \<open>crates/core/src/error.rs\<close>, \<open>crates/dispatcher/src/error.rs\<close>. A message of the database
  driver is its text.
\<close>

datatype store_error =
    Postgres string
  | Pool string
  | InvalidIdentifier string
  | Schema string
  | UnsupportedType string
  | UnknownEntity string
  | StoreDecode string
  | MetadataConflict string

datatype core_error =
    CoreChain chain_error
  | CoreStore store_error
  | NoDataSources u64
  | ReorgBeyondHistory u64
  | HandlerFailed string u64 string
  | Project string
  | CoreOther string

datatype dispatch_error =
    DispatchCore core_error
  | DispatchStore store_error
  | BlockFailed u64 string
  | ShuttingDown

text \<open>What a call of a function with an \<open>unimplemented!\<close> body comes to.\<close>

datatype 'a outcome = Returns 'a | Panics string

end
