(* ===== verification/Sq_Scheduler.thy ===== *)
theory Sq_Scheduler
  imports Sq_Range Sq_Errors
begin

text \<open>
  The fetch scheduler, \<open>crates/core/src/fetch/scheduler.rs\<close>. The chain adapter and the
  cancellation token are the environment: one record of answers per turn of the loop, each
  arbitrary. The blocks of a batch are fetched concurrently and yielded in height order, so
  that a turn is described by one answer per height, whatever the order of completion. The
  sink is a function on its own state. The list of turns bounds the loop; \<open>None\<close> is a loop
  that is still waiting when the turns are used up.

  The proofs rest on the heights the scheduler still owes (\<open>owed\<close>): every operation either
  leaves that list alone or removes its head after the sink accepted that very height.
\<close>

section \<open>State\<close>

record scheduler_config =
  start_height :: u64
  end_height :: "u64 option"
  batch_size :: u32
  index_unfinalized :: bool
  finality_confirmations :: u64
  sc_backpressure :: backpressure

record fetch_scheduler =
  fs_config :: scheduler_config
  fs_plan :: range_plan
  fs_next_height :: u64
  fs_exhausted :: bool
  fs_pending :: "u64 list"

definition scheduler_new :: "scheduler_config \<Rightarrow> range_plan \<Rightarrow> fetch_scheduler" where
  "scheduler_new config plan =
     \<lparr>fs_config = config, fs_plan = plan, fs_next_height = start_height config,
      fs_exhausted = False, fs_pending = []\<rparr>"

definition resume_from :: "u64 \<Rightarrow> fetch_scheduler \<Rightarrow> fetch_scheduler" where
  "resume_from last_indexed s =
     s\<lparr>fs_exhausted := (last_indexed = u64_max),
       fs_next_height := max (saturating_add last_indexed 1) (start_height (fs_config s)),
       fs_pending := []\<rparr>"

section \<open>Planning and acknowledging\<close>

text \<open>The two adapter calls are answers of the environment; the first error wins.\<close>

definition scheduler_safe_head ::
    "chain_error + u64 \<Rightarrow> chain_error + u64 \<Rightarrow> fetch_scheduler \<Rightarrow> core_error + u64" where
  "scheduler_safe_head latest finalized s =
     rbind (map_err CoreChain latest) (\<lambda>l.
     rbind (map_err CoreChain finalized) (\<lambda>f.
       Inr (safe_head l f (index_unfinalized (fs_config s))
              (finality_confirmations (fs_config s)))))"

definition is_complete :: "fetch_scheduler \<Rightarrow> bool" where
  "is_complete s =
     (fs_exhausted s \<or>
      (fs_pending s = [] \<and>
       (case end_height (fs_config s) of
          None \<Rightarrow> False
        | Some end \<Rightarrow>
            next_batch (fs_plan s) (fs_next_height s) end (batch_size (fs_config s)) (Some end) = None)))"

definition fetch_budget :: "u32 \<Rightarrow> u32 \<Rightarrow> fetch_scheduler \<Rightarrow> u32" where
  "fetch_budget in_flight queued s =
     clamp_batch (sc_backpressure (fs_config s)) (batch_size (fs_config s)) in_flight queued"

definition next_heights ::
    "chain_error + u64 \<Rightarrow> chain_error + u64 \<Rightarrow> u32 \<Rightarrow> u32 \<Rightarrow> fetch_scheduler \<Rightarrow>
     (core_error + u64 list) \<times> fetch_scheduler" where
  "next_heights latest finalized in_flight queued s =
     (let budget = fetch_budget in_flight queued s
      in if is_complete s then (Inr [], s)
         else if budget = 0 then (Inr [], s)
         else if fs_pending s \<noteq> [] then (Inr (take (unat budget) (fs_pending s)), s)
         else case scheduler_safe_head latest finalized s of
                Inl e \<Rightarrow> (Inl e, s)
              | Inr head \<Rightarrow>
                  (case next_batch (fs_plan s) (fs_next_height s) head budget
                          (end_height (fs_config s)) of
                     None \<Rightarrow> (Inr [], s)
                   | Some r \<Rightarrow>
                       (let heights = heights_in (fs_plan s) r
                        in (Inr heights, s\<lparr>fs_pending := heights\<rparr>))))"

definition acknowledge :: "u64 \<Rightarrow> fetch_scheduler \<Rightarrow> (core_error + unit) \<times> fetch_scheduler" where
  "acknowledge height s =
     (case fs_pending s of
        [] \<Rightarrow> (Inl (CoreOther ''out-of-order scheduler acknowledgement''), s)
      | front # rest \<Rightarrow>
          if front \<noteq> height
          then (Inl (CoreOther ''out-of-order scheduler acknowledgement''), s)
          else (Inr (), s\<lparr>fs_pending := rest,
                          fs_exhausted := (height = u64_max),
                          fs_next_height := saturating_add height 1\<rparr>))"

section \<open>Fetching a batch\<close>

datatype fetch_cancel = NotCancelled | CancelledBeforePlanning | CancelledAfterPlanning

text \<open>
  One turn of the loop as the environment decides it: the adapter's answers, whether the
  cancellation token fires while the batch is being fetched (before or after
  \<open>next_heights\<close> stored the plan), before the block at an index of the batch is handed
  over, or during the pause after an empty batch.
\<close>

record 'b turn =
  tn_latest :: "chain_error + u64"
  tn_finalized :: "chain_error + u64"
  tn_fetch :: "u64 \<Rightarrow> chain_error + 'b generic_block"
  tn_cancel_fetch :: fetch_cancel
  tn_cancel_block :: "nat \<Rightarrow> bool"
  tn_cancel_sleep :: bool

definition fetch_checked ::
    "(u64 \<Rightarrow> chain_error + 'b generic_block) \<Rightarrow> u64 \<Rightarrow> core_error + 'b generic_block" where
  "fetch_checked fetch_block height =
     rbind (map_err CoreChain (fetch_block height)) (\<lambda>block.
       if hd_height (gb_header block) \<noteq> height
       then Inl (CoreOther ''adapter returned the wrong block height'')
       else Inr block)"

definition windows_linked :: "'b generic_block list \<Rightarrow> bool" where
  "windows_linked blocks =
     list_all (\<lambda>(a, b). is_child_of (gb_header b) (gb_header a)) (zip blocks (tl blocks))"

definition fetch_next ::
    "'b turn \<Rightarrow> fetch_scheduler \<Rightarrow> (core_error + 'b generic_block list) \<times> fetch_scheduler" where
  "fetch_next t s =
     (case next_heights (tn_latest t) (tn_finalized t) 0 0 s of
        (Inl e, s') \<Rightarrow> (Inl e, s')
      | (Inr heights, s') \<Rightarrow>
          (case collect (fetch_checked (tn_fetch t)) heights of
             Inl e \<Rightarrow> (Inl e, s')
           | Inr blocks \<Rightarrow>
               if windows_linked blocks then (Inr blocks, s')
               else (Inl (CoreOther ''fetched batch contains inconsistent parent hashes''), s')))"

section \<open>The loop\<close>

type_synonym ('b, 'k) sink = "'b generic_block \<Rightarrow> 'k \<Rightarrow> (core_error + unit) \<times> 'k"

text \<open>
  The inner loop over the blocks of a batch. The first component is \<open>None\<close> when the batch
  was handed over completely, and the value \<open>run\<close> returns otherwise.
\<close>

fun deliver ::
    "('b, 'k) sink \<Rightarrow> (nat \<Rightarrow> bool) \<Rightarrow> nat \<Rightarrow> 'b generic_block list \<Rightarrow> fetch_scheduler \<Rightarrow> 'k \<Rightarrow>
     (core_error + unit) option \<times> fetch_scheduler \<times> 'k" where
  "deliver accept cancelled i [] s k = (None, s, k)"
| "deliver accept cancelled i (block # blocks) s k =
     (if cancelled i then (Some (Inr ()), s, k)
      else case accept block k of
             (Inl e, k') \<Rightarrow> (Some (Inl e), s, k')
           | (Inr _, k') \<Rightarrow>
               (case acknowledge (hd_height (gb_header block)) s of
                  (Inl e, s') \<Rightarrow> (Some (Inl e), s', k')
                | (Inr _, s') \<Rightarrow> deliver accept cancelled (Suc i) blocks s' k'))"

fun run_loop ::
    "('b, 'k) sink \<Rightarrow> 'b turn list \<Rightarrow> fetch_scheduler \<Rightarrow> 'k \<Rightarrow>
     (core_error + unit) option \<times> fetch_scheduler \<times> 'k" where
  "run_loop accept [] s k = (if is_complete s then (Some (Inr ()), s, k) else (None, s, k))"
| "run_loop accept (t # ts) s k =
     (if is_complete s then (Some (Inr ()), s, k)
      else case tn_cancel_fetch t of
        CancelledBeforePlanning \<Rightarrow> (Some (Inr ()), s, k)
      | CancelledAfterPlanning \<Rightarrow>
          (Some (Inr ()), snd (next_heights (tn_latest t) (tn_finalized t) 0 0 s), k)
      | NotCancelled \<Rightarrow>
          (case fetch_next t s of
             (Inl e, s') \<Rightarrow> (Some (Inl e), s', k)
           | (Inr blocks, s') \<Rightarrow>
               if blocks = []
               then if tn_cancel_sleep t then (Some (Inr ()), s', k) else run_loop accept ts s' k
               else (case deliver accept (tn_cancel_block t) 0 blocks s' k of
                       (Some r, s'', k') \<Rightarrow> (Some r, s'', k')
                     | (None, s'', k') \<Rightarrow> run_loop accept ts s'' k')))"

definition run ::
    "('b, 'k) sink \<Rightarrow> 'b turn list \<Rightarrow> fetch_scheduler \<Rightarrow> 'k \<Rightarrow>
     (core_error + unit) option \<times> fetch_scheduler \<times> 'k" where
  "run accept ts s k =
     (if batch_size (fs_config s) = 0
      then (Some (Inl (CoreOther ''scheduler batch size must be positive'')), s, k)
      else run_loop accept ts s k)"

section \<open>What the scheduler owes\<close>

text \<open>
  The abstract view: the list of heights that remain to be delivered, in order. A bounded
  run owes the open heights up to its end, an unbounded one those up to the largest
  height. The invariant: the plan in hand is the front of that list.
\<close>

definition run_limit :: "fetch_scheduler \<Rightarrow> u64" where
  "run_limit s = (case end_height (fs_config s) of Some e \<Rightarrow> e | None \<Rightarrow> u64_max)"

definition open_between :: "range_plan \<Rightarrow> u64 \<Rightarrow> u64 \<Rightarrow> u64 list" where
  "open_between p a b = filter (\<lambda>h. \<not> is_bypassed p h) (heights_between a b)"

definition owed :: "fetch_scheduler \<Rightarrow> u64 list" where
  "owed s = (if fs_exhausted s then [] else open_between (fs_plan s) (fs_next_height s) (run_limit s))"

definition sched_ok :: "fetch_scheduler \<Rightarrow> bool" where
  "sched_ok s = prefix (fs_pending s) (owed s)"

definition same_run :: "fetch_scheduler \<Rightarrow> fetch_scheduler \<Rightarrow> bool" where
  "same_run s s' = (fs_config s' = fs_config s \<and> fs_plan s' = fs_plan s)"

lemma same_run_refl [simp]: "same_run s s"
  by (simp add: same_run_def)

lemma same_run_trans: "same_run s t \<Longrightarrow> same_run t u \<Longrightarrow> same_run s u"
  by (simp add: same_run_def)

lemma set_open_between: "set (open_between p a b) = {h. a \<le> h \<and> h \<le> b \<and> \<not> is_bypassed p h}"
  by (auto simp: open_between_def)

lemma sorted_open_between [simp]: "sorted_wrt (<) (open_between p a b)"
  by (simp add: open_between_def sorted_wrt_filter)

lemma open_between_skip:
  "n \<le> a \<Longrightarrow> {n..<a} \<subseteq> {x. is_bypassed p x} \<Longrightarrow> open_between p n b = open_between p a b"
  by (rule sorted_lists_same_set) (auto simp: set_open_between not_less [symmetric])

lemma open_between_prefix:
  assumes "a \<le> c" "c \<le> b"
  shows "prefix (open_between p a c) (open_between p a b)"
proof (cases "c = b")
  case False
  with assms have "heights_between a b = heights_between a c @ heights_between (c + 1) b"
    by (intro heights_between_split) auto
  then show ?thesis by (simp add: open_between_def)
qed simp

lemma open_between_Cons:
  assumes "open_between p n b = h # hs"
  shows "hs = (if h = u64_max then [] else open_between p (h + 1) b)"
proof -
  have set: "set (h # hs) = {x. n \<le> x \<and> x \<le> b \<and> \<not> is_bypassed p x}"
    by (metis assms set_open_between)
  have "sorted_wrt (<) (h # hs)" by (metis assms sorted_open_between)
  then have hs: "sorted_wrt (<) hs" "\<forall>x \<in> set hs. h < x" by auto
  have "n \<le> h" using set by auto
  have eq: "set hs = {x. h < x \<and> x \<le> b \<and> \<not> is_bypassed p x}"
  proof (intro equalityI subsetI)
    fix x assume "x \<in> set hs"
    with hs(2) set show "x \<in> {x. h < x \<and> x \<le> b \<and> \<not> is_bypassed p x}" by auto
  next
    fix x assume x: "x \<in> {x. h < x \<and> x \<le> b \<and> \<not> is_bypassed p x}"
    with \<open>n \<le> h\<close> have "x \<in> set (h # hs)" unfolding set by auto
    with x show "x \<in> set hs" by auto
  qed
  show ?thesis
  proof (cases "h = u64_max")
    case True
    then have "set hs = {}" using eq by auto
    with True show ?thesis by simp
  next
    case False
    then have "set hs = set (open_between p (h + 1) b)"
      by (auto simp: eq set_open_between add_one_le_iff)
    with hs(1) have "hs = open_between p (h + 1) b"
      by (intro sorted_lists_same_set) simp_all
    with False show ?thesis by simp
  qed
qed

lemma open_between_rest:
  "open_between p n b = xs @ h # hs \<Longrightarrow> hs = (if h = u64_max then [] else open_between p (h + 1) b)"
proof (induction xs arbitrary: n)
  case (Cons x xs)
  with open_between_Cons [of p n b x "xs @ h # hs"] show ?case by (auto split: if_splits)
qed (simp add: open_between_Cons)

lemma next_batch_prefix:
  assumes "next_batch p n head b e = Some r" "batch_ceiling head e \<le> limit"
  shows "heights_in p r = open_between p (br_start r) (br_end r)"
    "prefix (heights_in p r) (open_between p n limit)" "heights_in p r \<noteq> []"
proof -
  note s = next_batch_Some [OF assms(1)]
  show eq: "heights_in p r = open_between p (br_start r) (br_end r)"
    by (simp add: heights_in_def open_between_def range_heights_def)
  have "open_between p n limit = open_between p (br_start r) limit"
    using s(1,4) by (rule open_between_skip)
  then show "prefix (heights_in p r) (open_between p n limit)"
    using s(2,3) assms(2) by (simp add: eq open_between_prefix)
  have "br_start r \<in> set (heights_in p r)"
    using s(2,5) by (auto simp: set_heights_in)
  then show "heights_in p r \<noteq> []" by auto
qed

lemma ceiling_le_limit: "batch_ceiling head (end_height (fs_config s)) \<le> run_limit s"
  by (simp add: batch_ceiling_def run_limit_def split: option.splits)

section \<open>Every operation against the abstract view\<close>

lemma sched_ok_new [simp]: "sched_ok (scheduler_new config plan)"
  by (simp add: sched_ok_def scheduler_new_def)

lemma sched_ok_resume [simp]: "sched_ok (resume_from h s)"
  by (simp add: sched_ok_def resume_from_def)

lemma same_run_resume [simp]: "same_run s (resume_from h s)"
  by (simp add: same_run_def resume_from_def)

lemma acknowledge_ok:
  assumes "sched_ok s" "acknowledge h s = (Inr u, s')"
  shows "owed s = h # owed s'" "sched_ok s'" "same_run s s'" "fs_pending s = h # fs_pending s'"
proof -
  obtain rest where p: "fs_pending s = h # rest"
    "s' = s\<lparr>fs_pending := rest, fs_exhausted := (h = u64_max), fs_next_height := saturating_add h 1\<rparr>"
    using assms(2) by (auto simp: acknowledge_def split: list.splits if_splits)
  then show "same_run s s'" "fs_pending s = h # fs_pending s'" by (simp_all add: same_run_def)
  obtain more where o: "owed s = h # more" "prefix rest more"
    using assms(1) p(1) by (cases "owed s") (auto simp: sched_ok_def)
  then have "open_between (fs_plan s) (fs_next_height s) (run_limit s) = h # more"
    by (auto simp: owed_def split: if_splits)
  then have "owed s' = more"
    using open_between_Cons p(2) by (fastforce simp: owed_def run_limit_def saturating_add_one)
  with o p(2) show "owed s = h # owed s'" "sched_ok s'" by (simp_all add: sched_ok_def)
qed

lemma acknowledge_error:
  "acknowledge h s = (Inl e, s') \<longleftrightarrow>
     s' = s \<and> e = CoreOther ''out-of-order scheduler acknowledgement'' \<and>
     (fs_pending s = [] \<or> hd (fs_pending s) \<noteq> h)"
  by (auto simp: acknowledge_def split: list.splits)

lemma next_heights_ok:
  assumes "sched_ok s" "next_heights latest finalized f q s = (Inr hs, s')"
  shows "owed s' = owed s" "sched_ok s'" "same_run s s'" "prefix hs (fs_pending s')"
    "length hs \<le> unat (fetch_budget f q s)"
proof -
  consider (idle) "hs = []" "s' = s"
    | (retry) "hs = take (unat (fetch_budget f q s)) (fs_pending s)" "s' = s"
    | (fresh) head r where "fs_pending s = []" "\<not> fs_exhausted s"
        "next_batch (fs_plan s) (fs_next_height s) head (fetch_budget f q s) (end_height (fs_config s)) = Some r"
        "hs = heights_in (fs_plan s) r" "s' = s\<lparr>fs_pending := hs\<rparr>"
    using assms(2) unfolding next_heights_def Let_def
    by (fastforce simp: is_complete_def split: if_split_asm sum.split_asm option.split_asm)
  then have "owed s' = owed s \<and> sched_ok s' \<and> same_run s s' \<and> prefix hs (fs_pending s') \<and>
    length hs \<le> unat (fetch_budget f q s)"
  proof cases
    case retry
    with assms(1) show ?thesis by (simp add: take_is_prefix)
  next
    case fresh
    then have "prefix hs (owed s)"
      using next_batch_prefix(2) [OF fresh(3) ceiling_le_limit] by (simp add: owed_def)
    moreover have "owed s' = owed s" using fresh(5) by (simp add: owed_def run_limit_def)
    moreover have "length (heights_in (fs_plan s) r) \<le> unat (fetch_budget f q s)"
      using next_batch_length [OF fresh(3)] .
    ultimately show ?thesis using fresh(4,5) by (simp add: sched_ok_def same_run_def)
  qed (simp_all add: assms(1))
  then show "owed s' = owed s" "sched_ok s'" "same_run s s'" "prefix hs (fs_pending s')"
    "length hs \<le> unat (fetch_budget f q s)" by simp_all
qed

lemma next_heights_error: "next_heights latest finalized f q s = (Inl e, s') \<Longrightarrow> s' = s"
  by (auto simp: next_heights_def Let_def split: if_splits sum.splits option.splits)

lemma next_heights_state:
  assumes "sched_ok s"
  shows "owed (snd (next_heights l fin f q s)) = owed s" "sched_ok (snd (next_heights l fin f q s))"
    "same_run s (snd (next_heights l fin f q s))"
proof -
  obtain r s' where n: "next_heights l fin f q s = (r, s')" by (cases "next_heights l fin f q s")
  have "owed s' = owed s \<and> sched_ok s' \<and> same_run s s'"
  proof (cases r)
    case (Inl e)
    with n next_heights_error [of l fin f q s e s'] assms show ?thesis by simp
  next
    case (Inr hs)
    with n next_heights_ok [OF assms] show ?thesis by simp
  qed
  with n show "owed (snd (next_heights l fin f q s)) = owed s"
    "sched_ok (snd (next_heights l fin f q s))" "same_run s (snd (next_heights l fin f q s))"
    by simp_all
qed

lemma is_complete_owed:
  assumes "sched_ok s" "batch_size (fs_config s) \<noteq> 0"
  shows "is_complete s \<longleftrightarrow> fs_exhausted s \<or> (end_height (fs_config s) \<noteq> None \<and> owed s = [])"
proof (cases "fs_exhausted s")
  case False
  have "next_batch (fs_plan s) (fs_next_height s) e (batch_size (fs_config s)) (Some e) = None \<longleftrightarrow>
      open_between (fs_plan s) (fs_next_height s) e = []" for e
    using assms(2) by (auto simp: next_batch_None batch_ceiling_def open_between_def filter_empty_conv)
  with False assms(1) show ?thesis
    by (auto simp: is_complete_def owed_def run_limit_def sched_ok_def split: option.splits)
qed (simp add: is_complete_def)

end
