(* ===== verification/Sq_SchedulerRun.thy ===== *)
theory Sq_SchedulerRun
  imports Sq_Scheduler
begin

text \<open>
  What a run delivers. The sink is an interface: an accepted block becomes the last entry of
  the sink's journal, a refused one changes nothing or, in a lossy sink, was recorded and its answer lost. Inside
  the interface the run is followed once; the properties are its instances for a recording
  wrapper around an arbitrary sink, and in the ingest theory for the database.
\<close>

section \<open>The inner loop and one batch\<close>

lemma fetch_checked_height:
  "fetch_checked f h = Inr b \<longleftrightarrow> f h = Inr b \<and> hd_height (gb_header b) = h"
  by (auto simp: fetch_checked_def rbind_eq_Inr)

lemma collect_fetch_checked:
  assumes "collect (fetch_checked f) hs = Inr blocks"
  shows "map (\<lambda>b. hd_height (gb_header b)) blocks = hs" "list_all2 (\<lambda>h b. f h = Inr b) hs blocks"
  using assms
  by (auto simp: collect_Inr_iff list_all2_conv_all_nth fetch_checked_height intro!: nth_equalityI)

lemma windows_linked_iff: "windows_linked blocks \<longleftrightarrow> linked (map gb_header blocks)"
  unfolding windows_linked_def
proof (induction blocks)
  case (Cons b blocks)
  then show ?case by (cases blocks) auto
qed simp

lemma fetch_next_ok:
  assumes "sched_ok s" "fetch_next t s = (Inr blocks, s')"
  shows "owed s' = owed s" "sched_ok s'" "same_run s s'"
    "prefix (map (\<lambda>b. hd_height (gb_header b)) blocks) (fs_pending s')"
    "length blocks \<le> unat (fetch_budget 0 0 s)" "linked (map gb_header blocks)"
proof -
  obtain hs where n: "next_heights (tn_latest t) (tn_finalized t) 0 0 s = (Inr hs, s')"
    "collect (fetch_checked (tn_fetch t)) hs = Inr blocks" "windows_linked blocks"
    using assms(2) by (auto simp: fetch_next_def split: prod.splits sum.splits if_splits)
  note nh = next_heights_ok [OF assms(1) n(1)] and cf = collect_fetch_checked [OF n(2)]
  show "owed s' = owed s" "sched_ok s'" "same_run s s'"
    "prefix (map (\<lambda>b. hd_height (gb_header b)) blocks) (fs_pending s')"
    using nh cf by simp_all
  show "length blocks \<le> unat (fetch_budget 0 0 s)"
    using nh(5) cf(1) by (metis length_map)
  show "linked (map gb_header blocks)" using n(3) by (simp add: windows_linked_iff)
qed

lemma fetch_next_state:
  assumes "sched_ok s" "fetch_next t s = (r, s')"
  shows "owed s' = owed s" "sched_ok s'" "same_run s s'"
proof -
  have "s' = snd (next_heights (tn_latest t) (tn_finalized t) 0 0 s)"
    using assms(2) by (auto simp: fetch_next_def split: prod.splits sum.splits if_splits)
  with next_heights_state [OF assms(1)] show "owed s' = owed s" "sched_ok s'" "same_run s s'"
    by simp_all
qed

section \<open>The sink interface\<close>

locale block_sink =
  fixes accept :: "'b generic_block \<Rightarrow> 'k \<Rightarrow> (core_error + unit) \<times> 'k"
    and journal :: "'k \<Rightarrow> header list"
    and sink_ok :: "'k \<Rightarrow> bool"
    and lossy :: bool
  assumes accept_Inr: "sink_ok k \<Longrightarrow> accept b k = (Inr u, k') \<Longrightarrow>
      sink_ok k' \<and> journal k' \<noteq> [] \<and> last (journal k') = gb_header b \<and>
      (journal k' = journal k @ [gb_header b] \<or> journal k' = journal k)"
    and accept_Inl: "sink_ok k \<Longrightarrow> accept b k = (Inl e, k') \<Longrightarrow>
      sink_ok k' \<and> (journal k' = journal k \<or> lossy \<and> journal k' = journal k @ [gb_header b])"
begin

definition ahead :: "fetch_scheduler \<Rightarrow> 'k \<Rightarrow> bool" where
  "ahead s k = (\<forall>h \<in> set (owed s). \<forall>x \<in> set (journal k). hd_height x < h)"

text \<open>What a stretch of the loop may have done to the journal.\<close>

definition delivered ::
    "(core_error + unit) option \<Rightarrow> fetch_scheduler \<Rightarrow> 'k \<Rightarrow> fetch_scheduler \<Rightarrow> 'k \<Rightarrow> bool" where
  "delivered r s k s' k' =
     (\<exists>done lost. journal k' = journal k @ done @ lost \<and> owed s = map hd_height done @ owed s' \<and>
        prefix (map hd_height lost) (owed s') \<and> length lost \<le> 1 \<and>
        ((\<forall>e. r \<noteq> Some (Inl e)) \<or> \<not> lossy \<longrightarrow> lost = []))"

lemma delivered_none: "owed s' = owed s \<Longrightarrow> delivered r s k s' k"
  unfolding delivered_def by (rule exI [of _ "[]"], rule exI [of _ "[]"]) simp

lemma delivered_lost:
  assumes "journal k' = journal k \<or> lossy \<and> journal k' = journal k @ [h]" "owed s = hd_height h # os"
  shows "delivered (Some (Inl e)) s k s k'"
proof -
  obtain lost where "journal k' = journal k @ lost" "lost = [] \<or> lossy \<and> lost = [h]"
    using assms(1) by auto
  with assms(2) show ?thesis
    unfolding delivered_def by (intro exI [of _ "[]"] exI [of _ lost]) auto
qed

lemma delivered_trans:
  assumes "delivered None s k s1 k1" "delivered r s1 k1 s2 k2"
  shows "delivered r s k s2 k2"
proof -
  obtain d1 where d1: "journal k1 = journal k @ d1" "owed s = map hd_height d1 @ owed s1"
    using assms(1) by (auto simp: delivered_def)
  obtain d2 l where "journal k2 = journal k1 @ d2 @ l" "owed s1 = map hd_height d2 @ owed s2"
    "prefix (map hd_height l) (owed s2)" "length l \<le> 1" "(\<forall>e. r \<noteq> Some (Inl e)) \<or> \<not> lossy \<longrightarrow> l = []"
    using assms(2) by (auto simp: delivered_def)
  with d1 show ?thesis
    unfolding delivered_def by (intro exI [of _ "d1 @ d2"] exI [of _ l]) simp
qed

lemma owed_sorted: "sorted_wrt (<) (owed s)"
  by (simp add: owed_def)

lemma ahead_delivered:
  assumes "ahead s k" "delivered None s k s' k'"
  shows "ahead s' k'"
proof -
  obtain d where d: "journal k' = journal k @ d" "owed s = map hd_height d @ owed s'"
    using assms(2) by (auto simp: delivered_def)
  have "\<forall>x \<in> set d. \<forall>h \<in> set (owed s'). hd_height x < h"
    using owed_sorted [of s] unfolding d(2) by (simp add: sorted_wrt_append)
  with assms(1) d show ?thesis by (auto simp: ahead_def)
qed

lemma accept_step:
  assumes "sink_ok k" "ahead s k" "owed s = hd_height (gb_header b) # os"
    "accept b k = (Inr u, k')"
  shows "sink_ok k'" "journal k' = journal k @ [gb_header b]"
proof -
  note a = accept_Inr [OF assms(1,4)]
  have "gb_header b \<notin> set (journal k)" using assms(2,3) by (auto simp: ahead_def)
  with a show "sink_ok k'" "journal k' = journal k @ [gb_header b]"
    by (auto dest: last_in_set)
qed

lemma deliver_spec:
  assumes "sched_ok s" "sink_ok k" "ahead s k"
    "prefix (map (\<lambda>b. hd_height (gb_header b)) blocks) (fs_pending s)"
    "deliver accept c i blocks s k = (r, s', k')"
  shows "sched_ok s' \<and> same_run s s' \<and> sink_ok k' \<and> delivered r s k s' k' \<and>
    (r = None \<longrightarrow> length (owed s') + length blocks = length (owed s)) \<and>
    (\<forall>e. r = Some (Inl e) \<longrightarrow> (\<exists>b k1. fst (accept b k1) = Inl e))"
  using assms
proof (induction blocks arbitrary: i s k)
  case Nil
  then show ?case by (auto simp: delivered_none)
next
  case (Cons b blocks)
  let ?h = "hd_height (gb_header b)"
  obtain rest where p: "fs_pending s = ?h # rest" "prefix (map (\<lambda>b. hd_height (gb_header b)) blocks) rest"
    using Cons.prems(4) by (cases "fs_pending s") auto
  obtain os where o: "owed s = ?h # os"
    using Cons.prems(1) p(1) by (cases "owed s") (auto simp: sched_ok_def)
  show ?case
  proof (cases "c i")
    case True
    with Cons.prems show ?thesis by (auto simp: delivered_none)
  next
    case nc: False
    obtain a k1 where a: "accept b k = (a, k1)" by (cases "accept b k")
    show ?thesis
    proof (cases a)
      case (Inl e)
      with a nc Cons.prems(5) have r: "r = Some (Inl e)" "s' = s" "k' = k1" by auto
      have k1: "sink_ok k1" "journal k1 = journal k \<or> lossy \<and> journal k1 = journal k @ [gb_header b]"
        using accept_Inl [OF Cons.prems(2)] a Inl by auto
      have "delivered r s k s' k'"
        using delivered_lost [OF k1(2) o] r by auto
      moreover have "fst (accept b k) = Inl e" using a Inl by simp
      ultimately show ?thesis using r k1 Cons.prems(1) by auto
    next
      case (Inr u)
      obtain s1 where s1: "acknowledge ?h s = (Inr (), s1)" "fs_pending s1 = rest"
        using p(1) by (auto simp: acknowledge_def)
      note ack = acknowledge_ok [OF Cons.prems(1) s1(1)]
      note acc = accept_step [OF Cons.prems(2,3) o, of u k1]
      have k1: "sink_ok k1" "journal k1 = journal k @ [gb_header b]" using acc a Inr by simp_all
      have d: "delivered None s k s1 k1"
        unfolding delivered_def using ack(1) k1(2)
        by (intro exI [of _ "[gb_header b]"] exI [of _ "[]"]) simp
      have "deliver accept c (Suc i) blocks s1 k1 = (r, s', k')"
        using Cons.prems(5) nc a Inr s1(1) by simp
      from Cons.IH [OF ack(2) k1(1) ahead_delivered [OF Cons.prems(3) d] _ this]
      show ?thesis
        using p(2) s1(2) ack(1) delivered_trans [OF d] same_run_trans [OF ack(3)] by auto
    qed
  qed
qed

text \<open>One batch: fetched, then handed over.\<close>

lemma batch_spec:
  assumes "sched_ok s" "sink_ok k" "ahead s k" "fetch_next t s = (Inr blocks, s1)"
    "deliver accept c i blocks s1 k = (r, s2, k2)"
  shows "sched_ok s2" "same_run s s2" "sink_ok k2" "delivered r s k s2 k2"
    "r = None \<Longrightarrow> ahead s2 k2" "r = Some (Inl e) \<Longrightarrow> \<exists>b k1. fst (accept b k1) = Inl e"
    "r = None \<Longrightarrow> length (owed s2) + length blocks = length (owed s)"
proof -
  note fs = fetch_next_ok [OF assms(1,4)]
  have a1: "ahead s1 k" using assms(3) fs(1) by (simp add: ahead_def)
  have d1: "delivered None s k s1 k" by (rule delivered_none) (fact fs(1))
  note ds = deliver_spec [OF fs(2) assms(2) a1 fs(4) assms(5)]
  show "sched_ok s2" "sink_ok k2" "r = Some (Inl e) \<Longrightarrow> \<exists>b k1. fst (accept b k1) = Inl e"
    "r = None \<Longrightarrow> length (owed s2) + length blocks = length (owed s)"
    using ds fs(1) by auto
  show "same_run s s2" using ds same_run_trans [OF fs(3)] by blast
  show d: "delivered r s k s2 k2" using ds delivered_trans [OF d1] by blast
  show "r = None \<Longrightarrow> ahead s2 k2" using ahead_delivered [OF assms(3)] d by simp
qed

text \<open>The whole loop. An error it returns was made by the sink or by fetching, never by an
  acknowledgement out of order.\<close>

definition env_error :: "'b turn list \<Rightarrow> core_error \<Rightarrow> bool" where
  "env_error ts e =
     ((\<exists>b k. fst (accept b k) = Inl e) \<or> (\<exists>t \<in> set ts. \<exists>s. fst (fetch_next t s) = Inl e))"

lemma run_loop_unfold:
  assumes "\<not> is_complete s" "tn_cancel_fetch t = NotCancelled" "fetch_next t s = (Inr blocks, s1)"
    "deliver accept (tn_cancel_block t) 0 blocks s1 k = (q, s2, k2)"
  shows "run_loop accept (t # ts) s k =
    (if blocks = [] \<and> tn_cancel_sleep t then (Some (Inr ()), s2, k2)
     else case q of Some r \<Rightarrow> (Some r, s2, k2) | None \<Rightarrow> run_loop accept ts s2 k2)"
  using assms by (cases "blocks = []") (auto split: option.splits)

lemma run_loop_spec:
  assumes "sched_ok s" "sink_ok k" "ahead s k" "run_loop accept ts s k = (r, s', k')"
  shows "sched_ok s' \<and> same_run s s' \<and> sink_ok k' \<and> delivered r s k s' k' \<and>
    (\<forall>e. r = Some (Inl e) \<longrightarrow> env_error ts e)"
  using assms
proof (induction ts arbitrary: s k)
  case Nil
  then show ?case by (auto simp: delivered_none split: if_splits)
next
  case (Cons t ts)
  have mono: "env_error ts e \<Longrightarrow> env_error (t # ts) e" for e by (auto simp: env_error_def)
  show ?case
  proof (cases "is_complete s \<or> tn_cancel_fetch t \<noteq> NotCancelled")
    case True
    with Cons.prems next_heights_state [OF Cons.prems(1), of "tn_latest t" "tn_finalized t" 0 0]
    show ?thesis
      by (cases "tn_cancel_fetch t") (auto simp: delivered_none split: if_splits)
  next
    case False
    then have nc: "\<not> is_complete s" "tn_cancel_fetch t = NotCancelled" by simp_all
    obtain q s1 where q: "fetch_next t s = (q, s1)" by (cases "fetch_next t s")
    show ?thesis
    proof (cases q)
      case (Inl e)
      then have "r = Some (Inl e)" "s' = s1" "k' = k" "fst (fetch_next t s) = Inl e"
        using Cons.prems(4) nc q by auto
      with fetch_next_state [OF Cons.prems(1) q] Cons.prems(2) show ?thesis
        by (auto simp: delivered_none env_error_def)
    next
      case (Inr blocks)
      obtain r2 s2 k2 where dv: "deliver accept (tn_cancel_block t) 0 blocks s1 k = (r2, s2, k2)"
        by (cases "deliver accept (tn_cancel_block t) 0 blocks s1 k")
      note eq = run_loop_unfold [OF nc q [unfolded Inr] dv, of ts]
      note bs = batch_spec [OF Cons.prems(1,2,3) q [unfolded Inr] dv]
      have ends: "blocks = [] \<Longrightarrow> r2 = None" using dv by auto
      show ?thesis
      proof (cases "r2 = None \<and> \<not> (blocks = [] \<and> tn_cancel_sleep t)")
        case True
        with eq Cons.prems(4) have "run_loop accept ts s2 k2 = (r, s', k')" by auto
        with Cons.IH [OF bs(1,3) bs(5)] True show ?thesis
          using delivered_trans [OF _, of s k s2 k2] bs(2,4) same_run_trans mono by blast
      next
        case False
        with eq Cons.prems(4) ends bs show ?thesis
          by (auto simp: env_error_def delivered_def split: if_splits option.splits)
      qed
    qed
  qed
qed

lemma run_spec:
  assumes "sched_ok s" "sink_ok k" "ahead s k" "run accept ts s k = (r, s', k')"
  shows "sched_ok s'" "same_run s s'" "sink_ok k'" "delivered r s k s' k'"
    "batch_size (fs_config s) \<noteq> 0 \<Longrightarrow> r = Some (Inl e) \<Longrightarrow> env_error ts e"
proof -
  have "sched_ok s' \<and> same_run s s' \<and> sink_ok k' \<and> delivered r s k s' k' \<and>
      (batch_size (fs_config s) \<noteq> 0 \<longrightarrow> r = Some (Inl e) \<longrightarrow> env_error ts e)"
  proof (cases "batch_size (fs_config s) = 0")
    case False
    with assms(4) have "run_loop accept ts s k = (r, s', k')" by (simp add: run_def)
    from run_loop_spec [OF assms(1-3) this] show ?thesis by blast
  qed (use assms in \<open>auto simp: run_def delivered_none\<close>)
  then show "sched_ok s'" "same_run s s'" "sink_ok k'" "delivered r s k s' k'"
    "batch_size (fs_config s) \<noteq> 0 \<Longrightarrow> r = Some (Inl e) \<Longrightarrow> env_error ts e" by blast+
qed

end

section \<open>A recording sink\<close>

text \<open>An arbitrary sink, with a log of the headers it accepted.\<close>

definition recording ::
    "('b generic_block \<Rightarrow> 'k \<Rightarrow> (core_error + unit) \<times> 'k) \<Rightarrow>
     'b generic_block \<Rightarrow> header list \<times> 'k \<Rightarrow> (core_error + unit) \<times> header list \<times> 'k" where
  "recording accept b lk =
     (case accept b (snd lk) of
        (Inl e, k') \<Rightarrow> (Inl e, fst lk, k')
      | (Inr u, k') \<Rightarrow> (Inr u, fst lk @ [gb_header b], k'))"

interpretation rec: block_sink "recording accept" fst "\<lambda>_. True" False
  by unfold_locales (auto simp: recording_def split: prod.splits sum.splits)


lemma recording_run:
  assumes "sched_ok s" "run (recording accept) ts s ([], k) = (r, s', log, k')"
  shows "owed s = map hd_height log @ owed s'" "sched_ok s'" "same_run s s'"
proof -
  have a: "rec.ahead s ([], k)" by (simp add: rec.ahead_def)
  show "owed s = map hd_height log @ owed s'"
    using rec.run_spec(4) [OF assms(1) TrueI _ assms(2)] by (auto simp: rec.delivered_def rec.ahead_def)
  show "sched_ok s'" "same_run s s'"
    using rec.run_spec(1,2) [OF assms(1) TrueI _ assms(2)] by (auto simp: rec.ahead_def)
qed

section \<open>Completion and liveness\<close>

definition uncancelled :: "'b turn \<Rightarrow> bool" where
  "uncancelled t =
     (tn_cancel_fetch t = NotCancelled \<and> \<not> tn_cancel_sleep t \<and> (\<forall>i. \<not> tn_cancel_block t i))"

lemma deliver_uncancelled:
  "(\<forall>i. \<not> c i) \<Longrightarrow> deliver accept c i blocks s k \<noteq> (Some (Inr ()), s', k')"
  by (induction blocks arbitrary: i s k) (auto split: prod.splits sum.splits)

lemma run_loop_complete:
  "list_all uncancelled ts \<Longrightarrow> run_loop accept ts s k = (Some (Inr ()), s', k') \<Longrightarrow> is_complete s'"
  by (induction ts arbitrary: s k)
    (auto simp: uncancelled_def deliver_uncancelled
      split: if_splits prod.splits sum.splits option.splits)

text \<open>A chain of blocks from \<open>a\<close> to \<open>e\<close>, each the child of the one before, and a turn in which it
  is served.\<close>

definition hash_chain :: "u64 \<Rightarrow> u64 \<Rightarrow> (u64 \<Rightarrow> 'b generic_block) \<Rightarrow> bool" where
  "hash_chain a e f =
     ((\<forall>h \<in> {a..e}. hd_height (gb_header (f h)) = h) \<and>
      (\<forall>h \<in> {a..<e}. hd_parent_hash (gb_header (f (h + 1))) = Some (hd_hash (gb_header (f h)))))"

definition healthy_turn :: "(u64 \<Rightarrow> 'b generic_block) \<Rightarrow> u64 \<Rightarrow> u64 \<Rightarrow> 'b turn \<Rightarrow> bool" where
  "healthy_turn f a e t =
     (uncancelled t \<and> (\<forall>h \<in> {a..e}. tn_fetch t h = Inr (f h)) \<and>
      (case (tn_latest t, tn_finalized t) of
         (Inr l, Inr fin) \<Rightarrow> e \<le> l \<and> e \<le> fin | _ \<Rightarrow> False))"

lemma hash_chain_linked:
  assumes "hash_chain a e f" "a \<le> x" "y \<le> e"
  shows "linked (map (\<lambda>h. gb_header (f h)) (heights_between x y))"
proof -
  have "linked (map (\<lambda>n. gb_header (f (of_nat n))) [unat x..<Suc n])" if "n \<le> unat y" for n
    using that
  proof (induction n)
    case (Suc n)
    show ?case
    proof (cases "unat x \<le> n")
      case True
      have n: "unat (of_nat n :: u64) = n" "unat (of_nat (Suc n) :: u64) = Suc n"
        using Suc.prems unat_u64_bound [of y] by (simp_all add: unat_of_nat_u64 del: of_nat_Suc)
      then have "of_nat n \<in> {a..<e}"
        using Suc.prems True assms(2,3) by (auto simp: word_le_nat_alt word_less_nat_alt)
      then have lt: "a \<le> of_nat n" "of_nat n < e" by simp_all
      then have "of_nat n \<noteq> u64_max" by auto
      moreover from this have "a \<le> of_nat n + 1" "of_nat n + 1 \<le> e"
        using lt less_add_one [of "of_nat n"] by (simp_all add: add_one_le_iff)
      ultimately have "of_nat n \<noteq> u64_max" "hd_height (gb_header (f (of_nat n))) = of_nat n"
        "hd_height (gb_header (f (of_nat n + 1))) = of_nat n + 1"
        "hd_parent_hash (gb_header (f (of_nat n + 1))) = Some (hd_hash (gb_header (f (of_nat n))))"
        using assms(1) lt by (simp_all add: hash_chain_def)
      then have "is_child_of (gb_header (f (of_nat n + 1))) (gb_header (f (of_nat n)))"
        by (simp add: is_child_of_iff)
      moreover have "map (\<lambda>n. gb_header (f (of_nat n))) [unat x..<Suc (Suc n)] =
          map (\<lambda>n. gb_header (f (of_nat n))) [unat x..<Suc n] @ [gb_header (f (of_nat n + 1))]"
        "last (map (\<lambda>n. gb_header (f (of_nat n))) [unat x..<Suc n]) = gb_header (f (of_nat n))"
        using True by (simp_all add: add.commute)
      ultimately show ?thesis using Suc by (simp only: linked_snoc) simp
    next
      case False
      then have "[unat x..<Suc (Suc n)] = (if unat x = Suc n then [Suc n] else [])" by simp
      then show ?thesis by (cases "unat x = Suc n") (simp_all del: upt_Suc)
    qed
  qed (cases "unat x = 0"; simp)
  from this [of "unat y"] show ?thesis by (simp add: heights_between_def comp_def del: upt_Suc)
qed

text \<open>A healthy turn of an unfinished run with nothing planned fetches a whole batch.\<close>

lemma healthy_plan:
  assumes "sched_ok s" "fs_pending s = []" "end_height (fs_config s) = Some e"
    "batch_size (fs_config s) \<noteq> 0" "fetch_budget 0 0 s \<noteq> 0" "\<not> is_complete s" "healthy_turn f a e t"
  obtains r where "next_batch (fs_plan s) (fs_next_height s) (batch_ceiling e (Some e)) (fetch_budget 0 0 s) (Some e) = Some r"
    "next_heights (tn_latest t) (tn_finalized t) 0 0 s =
       (Inr (range_heights r), s\<lparr>fs_pending := range_heights r\<rparr>)"
    "br_start r \<le> br_end r"
proof -
  obtain head where h: "scheduler_safe_head (tn_latest t) (tn_finalized t) s = Inr head" "e \<le> head"
    using assms(7) by (auto simp: healthy_turn_def scheduler_safe_head_def safe_head_def split: sum.splits)
  then have c: "next_batch (fs_plan s) (fs_next_height s) head b (Some e) =
      next_batch (fs_plan s) (fs_next_height s) (batch_ceiling e (Some e)) b (Some e)" for b
    by (simp add: next_batch_alt batch_ceiling_def min_def)
  have "next_batch (fs_plan s) (fs_next_height s) head (fetch_budget 0 0 s) (Some e) \<noteq> None"
    using assms(2-6) h(2) by (auto simp: is_complete_def next_batch_None batch_ceiling_def min_def)
  then obtain r where r: "next_batch (fs_plan s) (fs_next_height s) head (fetch_budget 0 0 s) (Some e) = Some r"
    by auto
  show thesis
    using r h(1) assms(2,3,5,6) next_batch_Some(2) [OF r]
    by (intro that [of r]) (simp_all add: c next_heights_def next_batch_heights [OF r] Let_def)
qed

lemma healthy_fetch:
  assumes "healthy_turn f a e t" "hash_chain a e f" "set (range_heights r) \<subseteq> {a..e}" "br_start r \<le> br_end r"
    "next_heights (tn_latest t) (tn_finalized t) 0 0 s = (Inr (range_heights r), s1)"
  shows "fetch_next t s = (Inr (map f (range_heights r)), s1)"
proof -
  have "fetch_checked (tn_fetch t) h = Inr (f h)" if "h \<in> set (range_heights r)" for h
  proof -
    have "h \<in> {a..e}" using assms(3) that by blast
    with assms(1,2) show ?thesis by (simp add: fetch_checked_height healthy_turn_def hash_chain_def)
  qed
  then have "collect (fetch_checked (tn_fetch t)) (range_heights r) = Inr (map f (range_heights r))"
    by (intro collect_all_Inr) auto
  moreover have "br_start r \<in> set (range_heights r)" "br_end r \<in> set (range_heights r)"
    using assms(4) by (simp_all add: range_heights_def set_heights_between)
  then have "windows_linked (map f (range_heights r))"
    using hash_chain_linked [OF assms(2), of "br_start r" "br_end r"] assms(3)
    by (auto simp: windows_linked_iff range_heights_def comp_def)
  ultimately show ?thesis using assms(5) by (simp add: fetch_next_def)
qed

text \<open>\<open>ready hs k\<close>: the sink, in the state \<open>k\<close>, takes the blocks at the heights \<open>hs\<close> one after the other.\<close>

definition takes :: "('b generic_block \<Rightarrow> 'k \<Rightarrow> (core_error + unit) \<times> 'k) \<Rightarrow> (u64 \<Rightarrow> 'b generic_block) \<Rightarrow>
    (u64 list \<Rightarrow> 'k \<Rightarrow> bool) \<Rightarrow> bool" where
  "takes accept f ready =
     (\<forall>h hs k. ready (h # hs) k \<longrightarrow> (\<exists>k'. accept (f h) k = (Inr (), k') \<and> ready hs k'))"

context block_sink
begin

lemma deliver_total:
  assumes "takes accept f ready" "\<forall>i. \<not> c i" "sched_ok s" "ready (owed s) k" "fs_pending s = hs"
    "\<forall>h \<in> set hs. hd_height (gb_header (f h)) = h"
  shows "\<exists>s' k'. deliver accept c i (map f hs) s k = (None, s', k') \<and> fs_pending s' = [] \<and> ready (owed s') k'"
  using assms(3-6)
proof (induction hs arbitrary: i s k)
  case (Cons h hs)
  obtain s1 where s1: "acknowledge h s = (Inr (), s1)" "fs_pending s1 = hs"
    using Cons.prems(3) by (simp add: acknowledge_def)
  note ack = acknowledge_ok [OF Cons.prems(1) s1(1)]
  obtain k1 where k1: "accept (f h) k = (Inr (), k1)" "ready (owed s1) k1"
    using assms(1) Cons.prems(2) ack(1) unfolding takes_def by metis
  from Cons.IH [OF ack(2) k1(2) s1(2), of "Suc i"] Cons.prems(4) s1 k1(1) assms(2) show ?case by auto
qed auto

text \<open>A healthy turn ends with nothing planned and fewer heights owed.\<close>

lemma healthy_progress:
  assumes "sched_ok s" "fs_pending s = []" "end_height (fs_config s) = Some e"
    "batch_size (fs_config s) \<noteq> 0" "fetch_budget 0 0 s \<noteq> 0" "\<not> is_complete s" "healthy_turn f a e t"
    "hash_chain a e f" "takes accept f ready" "sink_ok k" "ahead s k" "ready (owed s) k" "set (owed s) \<subseteq> {a..e}"
  obtains s2 k2 where "\<And>ts. run_loop accept (t # ts) s k = run_loop accept ts s2 k2"
    "sched_ok s2" "same_run s s2" "fs_pending s2 = []" "length (owed s2) < length (owed s)"
    "sink_ok k2" "ahead s2 k2" "ready (owed s2) k2" "set (owed s2) \<subseteq> {a..e}"
proof -
  obtain r where r: "br_start r \<le> br_end r" "next_heights (tn_latest t) (tn_finalized t) 0 0 s =
       (Inr (range_heights r), s\<lparr>fs_pending := range_heights r\<rparr>)"
    using healthy_plan [OF assms(1-7)] by metis
  let ?s1 = "s\<lparr>fs_pending := range_heights r\<rparr>"
  note n = next_heights_ok [OF assms(1) r(2)]
  then have "prefix (range_heights r) (owed s)" by (simp add: sched_ok_def)
  then have sub: "set (range_heights r) \<subseteq> {a..e}" using assms(13) set_mono_prefix by blast
  note f = healthy_fetch [OF assms(7,8) sub r]
  have uc: "tn_cancel_fetch t = NotCancelled" "\<forall>i. \<not> tn_cancel_block t i" "\<not> tn_cancel_sleep t"
    using assms(7) by (simp_all add: healthy_turn_def uncancelled_def)
  have hs: "\<forall>h \<in> set (range_heights r). hd_height (gb_header (f h)) = h"
    using assms(8) sub unfolding hash_chain_def by blast
  have "ready (owed ?s1) k" "fs_pending ?s1 = range_heights r" using n(1) assms(12) by simp_all
  from deliver_total [OF assms(9) uc(2) n(2) this hs] obtain s2 k2 where
    d: "deliver accept (tn_cancel_block t) 0 (map f (range_heights r)) ?s1 k = (None, s2, k2)"
      "fs_pending s2 = []" "ready (owed s2) k2" by blast
  note bs = batch_spec [OF assms(1,10,11) f d(1)]
  have ne: "range_heights r \<noteq> []"
    using r(1) by (auto simp: range_heights_def heights_between_def word_le_nat_alt)
  then have "length (owed s2) < length (owed s)" using bs(7) by (cases "range_heights r") auto
  moreover have "run_loop accept (t # ts) s k = run_loop accept ts s2 k2" for ts
    by (subst run_loop_unfold [OF assms(6) uc(1) f d(1)]) (simp add: ne)
  moreover have "set (owed s2) \<subseteq> {a..e}" using bs(4) assms(13) by (auto simp: delivered_def)
  ultimately show thesis using that bs d(2,3) by blast
qed

lemma healthy_run:
  assumes "sched_ok s" "fs_pending s = []" "end_height (fs_config s) = Some e"
    "batch_size (fs_config s) \<noteq> 0" "fetch_budget 0 0 s \<noteq> 0" "list_all (healthy_turn f a e) ts"
    "hash_chain a e f" "takes accept f ready" "sink_ok k" "ahead s k" "ready (owed s) k" "set (owed s) \<subseteq> {a..e}"
    "length (owed s) \<le> length ts"
  shows "\<exists>s' k'. run_loop accept ts s k = (Some (Inr ()), s', k') \<and> owed s' = [] \<and> ready [] k'"
  using assms
proof (induction ts arbitrary: s k)
  case Nil
  then show ?case by (simp add: is_complete_owed)
next
  case (Cons t ts)
  show ?case
  proof (cases "is_complete s")
    case True
    with is_complete_owed [OF Cons.prems(1,4)] Cons.prems(3) have "owed s = []" by (auto simp: owed_def)
    with True Cons.prems(11) show ?thesis by auto
  next
    case False
    have "healthy_turn f a e t" using Cons.prems(6) by simp
    from healthy_progress [OF Cons.prems(1-5) False this Cons.prems(7-12)]
    obtain s2 k2 where p: "run_loop accept (t # ts) s k = run_loop accept ts s2 k2"
      "sched_ok s2" "same_run s s2" "fs_pending s2 = []" "length (owed s2) < length (owed s)"
      "sink_ok k2" "ahead s2 k2" "ready (owed s2) k2" "set (owed s2) \<subseteq> {a..e}" by metis
    with Cons.IH [of s2 k2] Cons.prems show ?thesis
      by (simp add: same_run_def fetch_budget_def)
  qed
qed

end

section \<open>Properties\<close>

text \<open>C4: every height owed is delivered in order and at most once. Whatever the adapter, the
  sink and the cancellation do, the headers the sink accepted during a run are exactly the
  front of the list of heights the scheduler owed, and what it owes afterwards is the rest:
  no height is skipped, repeated, reordered or lost by a failure or a cancellation.\<close>

theorem run_delivers_owed:
  "sched_ok s \<Longrightarrow>
   (case run (recording accept) ts s ([], k) of
      (r, s', log, k') \<Rightarrow> map hd_height log @ owed s' = owed s \<and> sched_ok s' \<and> same_run s s')"
  using recording_run by (fastforce split: prod.splits)

text \<open>a run that returns without an error and was never cancelled is finished: every open
  height from the position up to the end height went to the sink.\<close>

theorem run_finished:
  assumes "sched_ok s" "list_all uncancelled ts" "batch_size (fs_config s) \<noteq> 0"
    "fs_exhausted s = False" "run (recording accept) ts s ([], k) = (Some (Inr ()), s', log, k')"
  shows "is_complete s' \<and> owed s' = [] \<and>
    map hd_height log = open_between (fs_plan s) (fs_next_height s) (run_limit s)"
proof -
  note rr = recording_run [OF assms(1,5)]
  have c: "is_complete s'"
    using assms(2,3,5) by (auto simp: run_def intro: run_loop_complete)
  with rr(2,3) assms(3) have "owed s' = []"
    by (auto simp: is_complete_owed same_run_def owed_def)
  with c rr(1) assms(4) show ?thesis by (simp add: owed_def)
qed

text \<open>liveness. Against an adapter that serves a hash-linked chain whose safe head has
  reached the end height and a sink that accepts, a bounded run with a positive batch size
  and limits that admit a batch returns \<open>Ok\<close> within as many turns as heights are owed, and
  every one of them has been delivered.\<close>

theorem healthy_run_returns:
  assumes "end_height c = Some e" "batch_size c \<noteq> 0"
    "clamp_batch (sc_backpressure c) (batch_size c) 0 0 \<noteq> 0" "hash_chain (start_height c) e f"
    "list_all (healthy_turn f (start_height c) e) ts" "\<forall>b k. \<exists>k'. accept b k = (Inr (), k')"
    "length (open_between p (start_height c) e) \<le> length ts"
  shows "case run (recording accept) ts (scheduler_new c p) ([], k) of
    (r, s', log, k') \<Rightarrow> r = Some (Inr ()) \<and> map hd_height log = open_between p (start_height c) e"
proof -
  let ?s = "scheduler_new c p"
  have o: "owed ?s = open_between p (start_height c) e"
    using assms(1) by (simp add: owed_def scheduler_new_def run_limit_def)
  have tot: "takes (recording accept) f (\<lambda>_ _. True)"
    unfolding takes_def
  proof (intro allI impI)
    fix h hs and lk :: "header list \<times> 'b"
    obtain k' where "accept (f h) (snd lk) = (Inr (), k')" using assms(6) by blast
    then show "\<exists>lk'. recording accept (f h) lk = (Inr (), lk') \<and> True" by (simp add: recording_def)
  qed
  have "set (owed ?s) \<subseteq> {start_height c..e}" by (auto simp: o set_open_between)
  then obtain s' log k' where r: "run (recording accept) ts ?s ([], k) = (Some (Inr ()), s', log, k')"
    "owed s' = []"
    using rec.healthy_run [OF sched_ok_new [of c p] _ _ _ _ assms(5,4) tot, where k = "([], k)"] assms o
    by (auto simp: run_def scheduler_new_def fetch_budget_def rec.ahead_def)
  with recording_run(1) [OF sched_ok_new r(1)] o show ?thesis by simp
qed

text \<open>restarting after a crash. A scheduler resumed at the last height the sink accepted
  owes exactly what the interrupted one still owed.\<close>

theorem resume_after_run:
  "sched_ok s \<and> start_height (fs_config s) \<le> fs_next_height s \<Longrightarrow>
   (case run (recording accept) ts s ([], k) of
      (r, s', log, k') \<Rightarrow>
        if log = [] then owed s' = owed s
        else owed (resume_from (hd_height (last log)) s') = owed s')"
proof -
  assume s: "sched_ok s \<and> start_height (fs_config s) \<le> fs_next_height s"
  obtain r s' log k' where run: "run (recording accept) ts s ([], k) = (r, s', log, k')"
    by (cases "run (recording accept) ts s ([], k)") auto
  note rr = recording_run [OF conjunct1 [OF s] run]
  have "owed (resume_from (hd_height (last log)) s') = owed s'" if "log \<noteq> []"
  proof -
    let ?h = "hd_height (last log)"
    have "map hd_height log = map hd_height (butlast log) @ [?h]"
      using that by (metis append_butlast_last_id list.simps(8,9) map_append)
    with rr(1) have o: "open_between (fs_plan s) (fs_next_height s) (run_limit s) =
        map hd_height (butlast log) @ ?h # owed s'"
      by (auto simp: owed_def split: if_splits)
    then have "?h \<in> set (open_between (fs_plan s) (fs_next_height s) (run_limit s))" by simp
    then have "fs_next_height s \<le> ?h" by (simp add: set_open_between)
    with s have "start_height (fs_config s) \<le> saturating_add ?h 1"
      by (cases "?h = u64_max") (auto simp: saturating_add_one dest: less_add_one)
    with open_between_rest [OF o] rr(3) show ?thesis
      by (auto simp: owed_def resume_from_def same_run_def run_limit_def saturating_add_one max_def)
  qed
  then show ?thesis using rr(1) run by auto
qed

section \<open>Witnesses\<close>

text \<open>Four heights with one bypassed, fetched two at a time.\<close>

definition demo_config :: scheduler_config where
  "demo_config = \<lparr>start_height = 5, end_height = Some 8, batch_size = 2, index_unfinalized = False,
     finality_confirmations = 0, sc_backpressure = backpressure_new 4 4\<rparr>"

definition demo_plan :: range_plan where
  "demo_plan = plan_bypass plan_new 7 7"

definition demo_block :: "u64 \<Rightarrow> unit generic_block" where
  "demo_block h = generic_block_new \<lparr>hd_height = h, hd_hash = show_u64 h,
     hd_parent_hash = Some (show_u64 (h - 1)), hd_timestamp = None\<rparr> ()"

definition demo_turn :: "unit turn" where
  "demo_turn = \<lparr>tn_latest = Inr 20, tn_finalized = Inr 9, tn_fetch = (\<lambda>h. Inr (demo_block h)),
     tn_cancel_fetch = NotCancelled, tn_cancel_block = (\<lambda>_. False), tn_cancel_sleep = False\<rparr>"

definition demo_accept :: "unit generic_block \<Rightarrow> u64 list \<Rightarrow> (core_error + unit) \<times> u64 list" where
  "demo_accept b seen = (Inr (), hd_height (gb_header b) # seen)"

definition demo_scheduler :: fetch_scheduler where
  "demo_scheduler = scheduler_new demo_config demo_plan"

lemma demo_ok [simp]: "sched_ok demo_scheduler"
  by (simp add: demo_scheduler_def)

lemma demo_run:
  "case run (recording demo_accept) [demo_turn, demo_turn] demo_scheduler ([], []) of
     (r, s', log, seen) \<Rightarrow> r = Some (Inr ()) \<and> map hd_height log = [5, 6, 8] \<and> seen = [8, 6, 5]"
  by code_simp

lemma run_delivers_owed_witness:
  "case run (recording demo_accept) [demo_turn] demo_scheduler ([], []) of
     (r, s', log, seen) \<Rightarrow> map hd_height log @ owed s' = owed demo_scheduler \<and> sched_ok s'"
  using run_delivers_owed [OF demo_ok, of demo_accept "[demo_turn]" "[]"]
  by (auto split: prod.splits)

lemma run_finished_witness:
  "\<exists>s' log seen. run (recording demo_accept) [demo_turn, demo_turn] demo_scheduler ([], []) =
       (Some (Inr ()), s', log, seen) \<and>
     is_complete s' \<and> owed s' = [] \<and> map hd_height log = open_between demo_plan 5 8"
proof -
  obtain s' log seen where r: "run (recording demo_accept) [demo_turn, demo_turn] demo_scheduler ([], []) =
       (Some (Inr ()), s', log, seen)"
    using demo_run by (auto split: prod.splits)
  have "list_all uncancelled [demo_turn, demo_turn]"
    by (simp add: uncancelled_def demo_turn_def)
  moreover have "batch_size (fs_config demo_scheduler) \<noteq> 0" "fs_exhausted demo_scheduler = False"
    by (simp_all add: demo_scheduler_def scheduler_new_def demo_config_def)
  ultimately have "is_complete s' \<and> owed s' = [] \<and> map hd_height log = open_between demo_plan 5 8"
    using run_finished [OF demo_ok _ _ _ r]
    by (simp add: demo_scheduler_def scheduler_new_def demo_config_def run_limit_def)
  with r show ?thesis by blast
qed

lemma demo_chain: "hash_chain a e demo_block"
  by (simp add: hash_chain_def demo_block_def generic_block_new_def)

lemma healthy_run_returns_witness:
  "case run (recording demo_accept) [demo_turn, demo_turn, demo_turn] (scheduler_new demo_config demo_plan) ([], []) of
     (r, s', log, seen) \<Rightarrow> r = Some (Inr ()) \<and> map hd_height log = open_between demo_plan 5 8"
proof -
  have "clamp_batch (sc_backpressure demo_config) (batch_size demo_config) 0 0 \<noteq> 0" by code_simp
  moreover have "list_all (healthy_turn demo_block 5 8) [demo_turn, demo_turn, demo_turn]"
    by (simp add: healthy_turn_def uncancelled_def demo_turn_def word_le_nat_alt)
  moreover have "length (open_between demo_plan 5 8) \<le> length [demo_turn, demo_turn, demo_turn]"
    by code_simp
  ultimately show ?thesis
    using healthy_run_returns [of demo_config 8 demo_block "[demo_turn, demo_turn, demo_turn]" demo_accept demo_plan "[]"]
    by (simp add: demo_config_def demo_chain demo_accept_def)
qed

lemma resume_after_run_witness:
  "case run (recording demo_accept) [demo_turn] demo_scheduler ([], []) of
     (r, s', log, seen) \<Rightarrow> map hd_height log = [5, 6] \<and>
       owed (resume_from (hd_height (last log)) s') = owed s' \<and> owed s' = [8]"
proof -
  have r: "case run (recording demo_accept) [demo_turn] demo_scheduler ([], []) of
     (r, s', log, seen) \<Rightarrow> map hd_height log = [5, 6] \<and> owed s' = [8]"
    by code_simp
  have "start_height (fs_config demo_scheduler) \<le> fs_next_height demo_scheduler"
    by (simp add: demo_scheduler_def scheduler_new_def)
  with r resume_after_run [of demo_scheduler demo_accept "[demo_turn]" "[]"] show ?thesis
    by (auto split: prod.splits if_splits)
qed

end
