(* ===== verification/Sq_BTreeMap.thy ===== *)
theory Sq_BTreeMap
  imports Sq_Prelude
begin

text \<open>
  \<open>BTreeMap\<close>: the standard library's ordered map, as the list of its entries in ascending key
  order. The locale \<open>ordered_map\<close> states what the clients (the commit buffer, the height
  map) rely on; the sorted association list interprets it.
\<close>

lemma alist_by_keys:
  "distinct (map fst t) \<Longrightarrow> map (\<lambda>k. (k, the (map_of t k))) (map fst t) = t"
proof (induction t)
  case (Cons x t)
  then have "\<And>y. y \<in> set t \<Longrightarrow> fst y \<noteq> fst x" by (auto simp: image_iff)
  then have "map (\<lambda>k. (k, the (map_of (x # t) k))) (map fst t) =
      map (\<lambda>k. (k, the (map_of t k))) (map fst t)"
    by (cases x) auto
  with Cons show ?case by (cases x) simp
qed simp

section \<open>The interface\<close>

locale ordered_map =
  fixes empty :: 'm
    and ins :: "'k::linorder \<Rightarrow> 'v \<Rightarrow> 'm \<Rightarrow> 'm"
    and rem :: "'k \<Rightarrow> 'm \<Rightarrow> 'm"
    and look :: "'m \<Rightarrow> 'k \<Rightarrow> 'v option"
    and entries :: "'m \<Rightarrow> ('k \<times> 'v) list"
    and invar :: "'m \<Rightarrow> bool"
  assumes invar_empty: "invar empty"
    and invar_ins: "invar m \<Longrightarrow> invar (ins k v m)"
    and invar_rem: "invar m \<Longrightarrow> invar (rem k m)"
    and look_empty: "look empty = Map.empty"
    and look_ins: "invar m \<Longrightarrow> look (ins k v m) = (look m)(k \<mapsto> v)"
    and look_rem: "invar m \<Longrightarrow> look (rem k m) = (look m)(k := None)"
    and entries_sorted: "invar m \<Longrightarrow> sorted_wrt (<) (map fst (entries m))"
    and entries_look: "invar m \<Longrightarrow> map_of (entries m) = look m"
begin

lemma keys_dom: "invar m \<Longrightarrow> set (map fst (entries m)) = dom (look m)"
  by (metis entries_look dom_map_of_conv_image_fst list.set_map)

lemma entries_distinct: "invar m \<Longrightarrow> distinct (map fst (entries m))"
  by (rule strict_sorted_iff [THEN iffD1, THEN conjunct2]) (rule entries_sorted)

lemma entry_iff: "invar m \<Longrightarrow> (k, v) \<in> set (entries m) \<longleftrightarrow> look m k = Some v"
  by (metis entries_distinct entries_look map_of_eq_Some_iff)

lemma entries_cong:
  assumes "invar m" "invar n" "look m = look n"
  shows "entries m = entries n"
proof -
  have "map fst (entries m) = map fst (entries n)"
    using assms by (intro sorted_lists_same_set) (simp_all add: entries_sorted keys_dom del: set_map)
  moreover have "distinct (map fst (entries m))" "map_of (entries m) = map_of (entries n)"
    using assms by (simp_all add: entries_distinct entries_look)
  ultimately show ?thesis
    by (metis alist_by_keys)
qed

lemma ins_commute:
  "invar m \<Longrightarrow> k \<noteq> l \<Longrightarrow> entries (ins k v (ins l w m)) = entries (ins l w (ins k v m))"
  by (rule entries_cong) (simp_all add: invar_ins look_ins fun_upd_twist)

lemma rem_ins_commute:
  "invar m \<Longrightarrow> k \<noteq> l \<Longrightarrow> entries (rem k (ins l w m)) = entries (ins l w (rem k m))"
  by (rule entries_cong) (simp_all add: invar_ins invar_rem look_ins look_rem fun_upd_twist)

lemma length_entries: "invar m \<Longrightarrow> length (entries m) = card (dom (look m))"
  by (metis distinct_card entries_distinct keys_dom length_map)

lemma length_rem_less: "invar m \<Longrightarrow> look m k = Some v \<Longrightarrow> length (entries (rem k m)) < length (entries m)"
  by (simp add: length_entries invar_rem look_rem dom_fun_upd)
    (metis card_Diff1_less domI finite_set keys_dom)

lemma entries_empty: "entries empty = []"
  using entries_look [OF invar_empty] by (simp add: look_empty)

end

section \<open>The sorted association list\<close>

type_synonym ('k, 'v) btree = "('k \<times> 'v) list"

fun bt_insert :: "'k::linorder \<Rightarrow> 'v \<Rightarrow> ('k, 'v) btree \<Rightarrow> ('k, 'v) btree" where
  "bt_insert k v [] = [(k, v)]"
| "bt_insert k v ((l, w) # t) =
     (if k < l then (k, v) # (l, w) # t
      else if k = l then (k, v) # t
      else (l, w) # bt_insert k v t)"

fun bt_remove :: "'k \<Rightarrow> ('k, 'v) btree \<Rightarrow> ('k, 'v) btree" where
  "bt_remove k [] = []"
| "bt_remove k ((l, w) # t) = (if k = l then t else (l, w) # bt_remove k t)"

abbreviation bt_get :: "('k, 'v) btree \<Rightarrow> 'k \<Rightarrow> 'v option" where
  "bt_get t \<equiv> map_of t"

abbreviation bt_keys :: "('k, 'v) btree \<Rightarrow> 'k list" where
  "bt_keys t \<equiv> map fst t"

definition bt_ok :: "('k::linorder, 'v) btree \<Rightarrow> bool" where
  "bt_ok t = sorted_wrt (<) (bt_keys t)"

lemma bt_ok_simps [simp]:
  "bt_ok []"
  "bt_ok ((k, v) # t) \<longleftrightarrow> (\<forall>l \<in> set (bt_keys t). k < l) \<and> bt_ok t"
  by (auto simp: bt_ok_def)

lemma keys_bt_insert: "set (bt_keys (bt_insert k v t)) = insert k (set (bt_keys t))"
  by (induction k v t rule: bt_insert.induct) auto

lemma keys_bt_remove_subset: "set (bt_keys (bt_remove k t)) \<subseteq> set (bt_keys t)"
  by (induction k t rule: bt_remove.induct) auto

lemma bt_ok_insert [simp]: "bt_ok t \<Longrightarrow> bt_ok (bt_insert k v t)"
proof (induction k v t rule: bt_insert.induct)
  case (2 k v l w t)
  then show ?case
    using keys_bt_insert [of k v t] by (auto simp del: set_map)
qed simp

lemma bt_ok_remove [simp]: "bt_ok t \<Longrightarrow> bt_ok (bt_remove k t)"
proof (induction k t rule: bt_remove.induct)
  case (2 k l w t)
  then show ?case
    using keys_bt_remove_subset [of k t] by (auto simp del: set_map)
qed simp

lemma bt_get_insert [simp]: "bt_get (bt_insert k v t) = (bt_get t)(k \<mapsto> v)"
  by (induction k v t rule: bt_insert.induct) auto

lemma bt_get_remove [simp]: "bt_ok t \<Longrightarrow> bt_get (bt_remove k t) = (bt_get t)(k := None)"
proof (induction k t rule: bt_remove.induct)
  case (2 k l w t)
  then show ?case
    by (cases "k = l") (auto simp: fun_eq_iff map_of_eq_None_iff)
qed simp

lemma bt_ok_last: "bt_ok t \<Longrightarrow> r \<in> set t \<Longrightarrow> fst r \<le> fst (last t)"
proof (induction t)
  case (Cons x t)
  have "t \<noteq> [] \<Longrightarrow> last t \<in> set t" by simp
  with Cons show ?case by (cases "t = []") (auto simp: bt_ok_def intro: less_imp_le)
qed simp

lemma bt_insert_last:
  "(\<forall>x \<in> set (bt_keys b). x < k) \<Longrightarrow> bt_insert k v b = b @ [(k, v)]"
  by (induction k v b rule: bt_insert.induct) (auto simp: not_less_iff_gr_or_eq)

interpretation bt: ordered_map "[]" bt_insert bt_remove bt_get "\<lambda>t. t" bt_ok
  by unfold_locales (simp_all add: bt_ok_def [symmetric])

end
