(* ===== verification/Sq_Database.thy ===== *)
theory Sq_Database
  imports Sq_BTreeMap Sq_Errors
begin

text \<open>
  The database of one schema and the transaction boundary, \<open>crates/store/src/postgres.rs\<close>.
  The tables are those the code names; a statement is the function on the tables that its SQL
  text describes. Every call of the driver consumes one entry of a fault schedule, which is
  arbitrary: a call may fail (a lost connection, a missing table, a serialization error), and a
  commit or an autocommitted statement may take effect and lose its answer. A schedule that has
  run out means no more faults.
\<close>

section \<open>Tables\<close>

text \<open>\<open>bigint\<close> keys are integers; the finality state is the text in its column.\<close>

record block_row =
  row_hash :: string
  row_parent_hash :: "string option"
  row_finality_state :: string

record journal_row =
  jr_hash :: string
  jr_parent_hash :: "string option"
  jr_timestamp :: "int option"

record tables =
  tb_metadata :: "string \<Rightarrow> string option"
  tb_blocks :: "(int, block_row) btree"
  tb_journal :: "(int, journal_row) btree"

definition empty_tables :: tables where
  "empty_tables = \<lparr>tb_metadata = Map.empty, tb_blocks = [], tb_journal = []\<rparr>"

datatype fault = Fine | Fails store_error | LostAnswer store_error

record 't database =
  db_tables :: 't
  db_faults :: "fault list"

type_synonym db = "tables database"

type_synonym ('t, 'a) db_action = "'t database \<Rightarrow> (store_error + 'a) \<times> 't database"

type_synonym 'a action = "(tables, 'a) db_action"

section \<open>Actions\<close>

definition dreturn :: "'a \<Rightarrow> ('t, 'a) db_action" where
  "dreturn a d = (Inr a, d)"

definition dfail :: "store_error \<Rightarrow> ('t, 'a) db_action" where
  "dfail e d = (Inl e, d)"

definition dlift :: "store_error + 'a \<Rightarrow> ('t, 'a) db_action" where
  "dlift r d = (r, d)"

definition dbind :: "('t, 'a) db_action \<Rightarrow> ('a \<Rightarrow> ('t, 'b) db_action) \<Rightarrow> ('t, 'b) db_action" where
  "dbind m f d = (case m d of (Inl e, d') \<Rightarrow> (Inl e, d') | (Inr a, d') \<Rightarrow> f a d')"

definition next_fault :: "'t database \<Rightarrow> fault" where
  "next_fault d = (case db_faults d of [] \<Rightarrow> Fine | f # _ \<Rightarrow> f)"

definition drop_fault :: "'t database \<Rightarrow> 't database" where
  "drop_fault d = d\<lparr>db_faults := tl (db_faults d)\<rparr>"

text \<open>A call that changes no table: taking a client from the pool, opening a transaction.\<close>

definition db_call :: "('t, unit) db_action" where
  "db_call d = (case next_fault d of Fine \<Rightarrow> (Inr (), drop_fault d)
     | Fails e \<Rightarrow> (Inl e, drop_fault d) | LostAnswer e \<Rightarrow> (Inl e, drop_fault d))"

text \<open>A statement inside a transaction.\<close>

definition tx_stmt :: "('t \<Rightarrow> 'a \<times> 't) \<Rightarrow> ('t, 'a) db_action" where
  "tx_stmt f = dbind db_call (\<lambda>_ d.
     (Inr (fst (f (db_tables d))), d\<lparr>db_tables := snd (f (db_tables d))\<rparr>))"

text \<open>\<open>Database::execute\<close>, \<open>batch_execute\<close> and \<open>query\<close>: one autocommitted statement.\<close>

definition db_execute :: "('t \<Rightarrow> 'a \<times> 't) \<Rightarrow> ('t, 'a) db_action" where
  "db_execute f = dbind db_call (\<lambda>_ d.
     (case next_fault d of
        Fine \<Rightarrow> (Inr (fst (f (db_tables d))), (drop_fault d)\<lparr>db_tables := snd (f (db_tables d))\<rparr>)
      | Fails e \<Rightarrow> (Inl e, drop_fault d)
      | LostAnswer e \<Rightarrow> (Inl e, (drop_fault d)\<lparr>db_tables := snd (f (db_tables d))\<rparr>)))"

definition db_query :: "('t \<Rightarrow> 'a) \<Rightarrow> ('t, 'a) db_action" where
  "db_query f = dbind db_call (\<lambda>_. tx_stmt (\<lambda>t. (f t, t)))"

definition db_ping :: "('t, unit) db_action" where
  "db_ping = db_query (\<lambda>_. ())"

definition ensure_schema :: "('t, unit) db_action" where
  "ensure_schema = db_query (\<lambda>_. ())"

text \<open>
  A transaction. \<open>in_tx True\<close> is \<open>Database::transaction\<close>, which rolls back explicitly;
  \<open>in_tx False\<close> is a transaction whose handle is dropped on an error.
\<close>

definition in_tx :: "bool \<Rightarrow> ('t, 'a) db_action \<Rightarrow> ('t, 'a) db_action" where
  "in_tx explicit body = dbind db_call (\<lambda>_. dbind db_call (\<lambda>_ d.
     (case body d of
        (Inr v, d') \<Rightarrow>
          (case next_fault d' of
             Fine \<Rightarrow> (Inr v, drop_fault d')
           | Fails e \<Rightarrow> (Inl e, (drop_fault d')\<lparr>db_tables := db_tables d\<rparr>)
           | LostAnswer e \<Rightarrow> (Inl e, drop_fault d'))
      | (Inl e, d') \<Rightarrow>
          (Inl e, (if explicit then drop_fault d' else d')\<lparr>db_tables := db_tables d\<rparr>))))"

definition db_transaction :: "('t, 'a) db_action \<Rightarrow> ('t, 'a) db_action" where
  "db_transaction body = in_tx True body"

section \<open>Identifiers\<close>

definition validate_ident :: "string \<Rightarrow> store_error + unit" where
  "validate_ident ident =
     (if ident \<noteq> [] \<and> length ident \<le> 63 \<and>
         list_all (\<lambda>c. is_ascii_alphanumeric c \<or> c = CHR ''_'') ident \<and>
         \<not> is_ascii_digit (hd ident)
      then Inr () else Inl (InvalidIdentifier ident))"

text \<open>\<open>DROP SCHEMA\<close>: of the schema itself, called \<open>own\<close>, no table is left (\<open>none\<close>); another
  schema is none of this state.\<close>

definition drop_schema :: "string \<Rightarrow> 't \<Rightarrow> string \<Rightarrow> ('t, unit) db_action" where
  "drop_schema own none schema =
     dbind (dlift (validate_ident schema)) (\<lambda>_. db_execute (\<lambda>t. ((), if schema = own then none else t)))"

section \<open>Lemmas\<close>

lemma drop_fault_tables [simp]: "db_tables (drop_fault d) = db_tables d"
  by (simp add: drop_fault_def)

lemma dbind_Inr: "dbind m f d = (Inr b, d'') \<longleftrightarrow> (\<exists>a d'. m d = (Inr a, d') \<and> f a d' = (Inr b, d''))"
  by (auto simp: dbind_def split: prod.splits sum.splits)

lemma dbind_Inl: "dbind m f d = (Inl e, d'') \<longleftrightarrow>
  m d = (Inl e, d'') \<or> (\<exists>a d'. m d = (Inr a, d') \<and> f a d' = (Inl e, d''))"
  by (auto simp: dbind_def split: prod.splits sum.splits)

lemma dbind_simps [simp]:
  "dbind (dreturn a) f = f a" "dbind (dfail e) f = dfail e"
  by (simp_all add: fun_eq_iff dbind_def dreturn_def dfail_def)

lemma db_call_Inr: "db_call d = (Inr u, d') \<Longrightarrow> db_tables d' = db_tables d"
  by (auto simp: db_call_def split: fault.splits)

lemma db_call_Inl: "db_call d = (Inl e, d') \<Longrightarrow> db_tables d' = db_tables d"
  by (auto simp: db_call_def split: fault.splits)

lemma tx_stmt_Inr: "tx_stmt f d = (Inr a, d') \<Longrightarrow> f (db_tables d) = (a, db_tables d')"
  by (auto simp: tx_stmt_def dbind_Inr split: prod.splits dest!: db_call_Inr)

lemma tx_stmt_tables: "tx_stmt f d = (Inr a, d') \<Longrightarrow> db_tables d' = snd (f (db_tables d))"
  using tx_stmt_Inr by (metis snd_conv)

lemma tx_stmt_Inl: "tx_stmt f d = (Inl e, d') \<Longrightarrow> db_tables d' = db_tables d"
  by (auto simp: tx_stmt_def dbind_Inl split: prod.splits dest!: db_call_Inl)

lemma db_query_Inr: "db_query f d = (Inr a, d') \<Longrightarrow> a = f (db_tables d) \<and> db_tables d' = db_tables d"
  by (auto simp: db_query_def dbind_Inr dest!: db_call_Inr tx_stmt_Inr)

lemma db_query_tables: "db_query f d = (r, d') \<Longrightarrow> db_tables d' = db_tables d"
  by (cases r) (auto simp: db_query_def dbind_Inr dbind_Inl dest!: db_call_Inr db_call_Inl tx_stmt_Inr tx_stmt_Inl)

lemma db_execute_Inr:
  assumes "db_execute f d = (Inr a, d')"
  shows "f (db_tables d) = (a, db_tables d')"
proof -
  obtain d0 where "db_call d = (Inr (), d0)" using assms by (auto simp: db_execute_def dbind_Inr)
  with assms db_call_Inr [OF this] show ?thesis
    by (cases "next_fault d0") (auto simp: db_execute_def dbind_def)
qed

lemma db_execute_Inl:
  assumes "db_execute f d = (Inl e, d')"
  shows "db_tables d' = db_tables d \<or> db_tables d' = snd (f (db_tables d))"
proof (cases "db_call d")
  case (Pair r d0)
  with assms db_call_Inr [of d _ d0] db_call_Inl [of d _ d0] show ?thesis
    by (cases r; cases "next_fault d0") (auto simp: db_execute_def dbind_def)
qed

text \<open>All or nothing: a transaction leaves the tables of its body, run to the end on what the
  database held, or those it found; and \<open>Ok\<close> is only answered after the commit.\<close>

lemma in_tx_Inr:
  assumes "in_tx explicit body d = (Inr v, d')"
  obtains d1 d2 where "db_tables d1 = db_tables d" "body d1 = (Inr v, d2)" "db_tables d' = db_tables d2"
proof -
  obtain d0 d1 where "db_call d = (Inr (), d0)" "db_call d0 = (Inr (), d1)" and
    r: "(case body d1 of (Inr v, d') \<Rightarrow> (case next_fault d' of
             Fine \<Rightarrow> (Inr v, drop_fault d')
           | Fails e \<Rightarrow> (Inl e, (drop_fault d')\<lparr>db_tables := db_tables d1\<rparr>)
           | LostAnswer e \<Rightarrow> (Inl e, drop_fault d'))
      | (Inl e, d') \<Rightarrow> (Inl e, (if explicit then drop_fault d' else d')\<lparr>db_tables := db_tables d1\<rparr>)) = (Inr v, d')"
    using assms by (auto simp: in_tx_def dbind_Inr)
  then have "db_tables d1 = db_tables d" by (auto dest!: db_call_Inr)
  with r that [of d1] show thesis
    by (auto split: prod.splits sum.splits fault.splits)
qed

lemma in_tx_Inl:
  assumes "in_tx explicit body d = (Inl e, d')"
  shows "db_tables d' = db_tables d \<or>
    (\<exists>d1 d2 v. db_tables d1 = db_tables d \<and> body d1 = (Inr v, d2) \<and> db_tables d' = db_tables d2)"
proof (cases "db_call d")
  case (Pair r0 d0)
  show ?thesis
  proof (cases r0)
    case (Inl e0)
    with assms Pair have "d' = d0" by (simp add: in_tx_def dbind_def)
    with Pair Inl show ?thesis by (auto dest: db_call_Inl)
  next
    case (Inr u)
    obtain r1 d1 where c: "db_call d0 = (r1, d1)" by force
    have t: "db_tables d0 = db_tables d" using Pair Inr by (auto dest: db_call_Inr)
    show ?thesis
    proof (cases r1)
      case (Inl e1)
      with assms Pair Inr c have "d' = d1" by (simp add: in_tx_def dbind_def)
      with c Inl t show ?thesis by (auto dest: db_call_Inl)
    next
      case i1: (Inr u1)
      have t1: "db_tables d1 = db_tables d" using c i1 t by (auto dest: db_call_Inr)
      obtain rb d2 where b: "body d1 = (rb, d2)" by force
      show ?thesis
        using assms Pair Inr c i1 b t1
        by (cases rb; cases "next_fault d2") (auto simp: in_tx_def dbind_def split: if_splits)
    qed
  qed
qed

lemma drop_no_fault [simp]: "db_faults d = [] \<Longrightarrow> drop_fault d = d"
  by (cases d) (simp add: drop_fault_def)

lemma no_faults [simp]:
  "db_faults d = [] \<Longrightarrow> db_call d = (Inr (), d)"
  "db_faults d = [] \<Longrightarrow> tx_stmt f d = (Inr (fst (f (db_tables d))), d\<lparr>db_tables := snd (f (db_tables d))\<rparr>)"
  "db_faults d = [] \<Longrightarrow> db_query g d = (Inr (g (db_tables d)), d)"
  by (simp_all add: db_call_def next_fault_def tx_stmt_def db_query_def dbind_def)

section \<open>What an action may do\<close>

text \<open>A reflexive and transitive relation between the database before and after is kept by an
  action when all its parts keep it, whatever the faults.\<close>

locale database_relation =
  fixes rel :: "'t database \<Rightarrow> 't database \<Rightarrow> bool"
  assumes rel_refl: "rel d d"
    and rel_trans: "rel d1 d2 \<Longrightarrow> rel d2 d3 \<Longrightarrow> rel d1 d3"
begin

definition keeps :: "('t, 'a) db_action \<Rightarrow> bool" where
  "keeps m = (\<forall>d r d'. m d = (r, d') \<longrightarrow> rel d d')"

lemma keepsD: "keeps m \<Longrightarrow> m d = (r, d') \<Longrightarrow> rel d d'"
  by (simp add: keeps_def)

lemma keeps_bind:
  assumes "keeps m" "\<And>a. keeps (f a)"
  shows "keeps (dbind m f)"
  unfolding keeps_def
proof (intro allI impI)
  fix d r d'
  assume run: "dbind m f d = (r, d')"
  obtain q d1 where m: "m d = (q, d1)" by force
  show "rel d d'"
  proof (cases q)
    case (Inl e)
    then show ?thesis using run m keepsD [OF assms(1) m] by (simp add: dbind_def)
  next
    case (Inr a)
    then have "f a d1 = (r, d')" using run m by (simp add: dbind_def)
    then show ?thesis using rel_trans [OF keepsD [OF assms(1) m]] keepsD [OF assms(2)] by blast
  qed
qed

lemma keeps_lift: "keeps (dlift x)"
  by (simp add: keeps_def dlift_def rel_refl)

lemma keeps_return: "keeps (dreturn a)" "keeps (dfail e)"
  by (simp_all add: keeps_def dreturn_def dfail_def rel_refl)

lemma keeps_lift_bind: "(\<And>a. x = Inr a \<Longrightarrow> keeps (f a)) \<Longrightarrow> keeps (dbind (dlift x) f)"
  by (cases x) (auto simp: keeps_def dbind_def dlift_def rel_refl)

end

text \<open>A relation between the tables only.\<close>

locale table_relation =
  fixes trel :: "'t \<Rightarrow> 't \<Rightarrow> bool"
  assumes trel_refl: "trel t t"
    and trel_trans: "trel t u \<Longrightarrow> trel u v \<Longrightarrow> trel t v"

sublocale table_relation \<subseteq> database_relation "\<lambda>d d'. trel (db_tables d) (db_tables d')"
  by unfold_locales (auto intro: trel_refl trel_trans)

context table_relation
begin

lemma keeps_query: "keeps (db_query f)"
  unfolding keeps_def using db_query_tables trel_refl by metis

lemma keeps_execute:
  assumes "\<And>t. trel t (snd (f t))"
  shows "keeps (db_execute f)"
  unfolding keeps_def
proof (intro allI impI)
  fix d r d'
  assume run: "db_execute f d = (r, d')"
  have "db_tables d' = db_tables d \<or> db_tables d' = snd (f (db_tables d))"
  proof (cases r)
    case (Inr a)
    with db_execute_Inr [of f d a d'] run show ?thesis by simp
  qed (use db_execute_Inl run in blast)
  then show "trel (db_tables d) (db_tables d')" using assms trel_refl by metis
qed

end

interpretation reads: table_relation "(=)"
  by unfold_locales simp_all

text \<open>A schedule that has run out stays so.\<close>

interpretation quiet: database_relation "\<lambda>d d'. db_faults d = [] \<longrightarrow> db_faults d' = []"
  by unfold_locales simp_all

lemma quiet_steps:
  "quiet.keeps db_call" "quiet.keeps (tx_stmt g)" "quiet.keeps (db_execute g)" "quiet.keeps (db_query f)"
  by (auto simp: quiet.keeps_def db_execute_def dbind_def next_fault_def)

lemma quiet_in_tx:
  assumes "quiet.keeps body"
  shows "quiet.keeps (in_tx explicit body)"
  unfolding quiet.keeps_def
proof (intro allI impI)
  fix d r d'
  assume run: "in_tx explicit body d = (r, d')" and d: "db_faults d = []"
  obtain q d1 where b: "body d = (q, d1)" by force
  have "db_faults d1 = []" using quiet.keepsD [OF assms b] d by simp
  then show "db_faults d' = []"
    using run d b by (cases q) (auto simp: in_tx_def dbind_def next_fault_def)
qed

lemmas quiet_intros =
  quiet.keeps_bind quiet.keeps_lift quiet.keeps_return quiet_steps quiet_in_tx

end
