(* ===== verification/Sq_Metadata.thy ===== *)
theory Sq_Metadata
  imports Sq_Database
begin

text \<open>
  The metadata table, \<open>crates/store/src/metadata.rs\<close>: a key/value table, its typed access, and
  the identity check that runs in one exclusively locked transaction. The lemmas follow the
  check to its three outcomes.
\<close>

section \<open>The store\<close>

definition schema_version :: string where
  "schema_version = ''1''"

datatype metadata_key =
    ProjectId | SchemaVersion | ManifestHash | ChainId | IndexedHeight | IndexedBlockHash
  | FinalizedHeight | UpdatedAt | MappingAbiVersion

fun key_name :: "metadata_key \<Rightarrow> string" where
  "key_name ProjectId = ''project_id''"
| "key_name SchemaVersion = ''schema_version''"
| "key_name ManifestHash = ''manifest_hash''"
| "key_name ChainId = ''chain_id''"
| "key_name IndexedHeight = ''indexed_height''"
| "key_name IndexedBlockHash = ''indexed_block_hash''"
| "key_name FinalizedHeight = ''finalized_height''"
| "key_name UpdatedAt = ''updated_at''"
| "key_name MappingAbiVersion = ''mapping_abi_version''"

record metadata_store =
  ms_schema :: string

definition metadata_new :: "string \<Rightarrow> store_error + metadata_store" where
  "metadata_new schema = rbind (validate_ident schema) (\<lambda>_. Inr \<lparr>ms_schema = schema\<rparr>)"

definition metadata_table :: string where
  "metadata_table = ''_superquery_metadata''"

definition metadata_create_table_sql :: "metadata_store \<Rightarrow> string" where
  "metadata_create_table_sql ms =
     ''CREATE TABLE IF NOT EXISTS '' @ quoted (ms_schema ms) @ ''.'' @ quoted metadata_table @ '' ('' @ newline @
     ''  key text PRIMARY KEY,'' @ newline @
     ''  value text NOT NULL,'' @ newline @
     ''  updated_at timestamptz NOT NULL DEFAULT now()'' @ newline @ '');''"

text \<open>It creates a table that is empty, and one that is there stays as it is.\<close>

definition metadata_ensure_table :: "unit action" where
  "metadata_ensure_table = db_query (\<lambda>_. ())"

definition metadata_get :: "string \<Rightarrow> string option action" where
  "metadata_get key = db_query (\<lambda>t. tb_metadata t key)"

text \<open>\<open>parse_error\<close> is the text of the standard library's integer error.\<close>

definition metadata_get_u64 :: "(string \<Rightarrow> string) \<Rightarrow> string \<Rightarrow> u64 option action" where
  "metadata_get_u64 parse_error key =
     dbind (metadata_get key) (\<lambda>v.
       (case v of
          None \<Rightarrow> dreturn None
        | Some raw \<Rightarrow>
            (case parse_u64 raw of
               Some n \<Rightarrow> dreturn (Some n)
             | None \<Rightarrow> dfail (StoreDecode (parse_error raw)))))"

definition upsert_metadata :: "string \<Rightarrow> string \<Rightarrow> tables \<Rightarrow> unit \<times> tables" where
  "upsert_metadata key value t = ((), t\<lparr>tb_metadata := (tb_metadata t)(key \<mapsto> value)\<rparr>)"

definition metadata_set :: "string \<Rightarrow> string \<Rightarrow> unit action" where
  "metadata_set key value = db_execute (upsert_metadata key value)"

definition metadata_set_tx :: "string \<Rightarrow> string \<Rightarrow> unit action" where
  "metadata_set_tx key value = tx_stmt (upsert_metadata key value)"

section \<open>The identity check\<close>

datatype init_outcome = Initialized | Resumed

text \<open>The loop over the facts: the first conflict ends it, absent ones are collected.\<close>

fun check_facts :: "string \<Rightarrow> (string \<times> string) list \<Rightarrow> (string \<times> string) list action" where
  "check_facts schema [] = dreturn []"
| "check_facts schema ((key, expected) # checks) =
     dbind (tx_stmt (\<lambda>t. (tb_metadata t key, t))) (\<lambda>row.
       (case row of
          Some value \<Rightarrow>
            if value \<noteq> expected
            then dfail (MetadataConflict (''schema '' @ [CHR 0x27] @ schema @ [CHR 0x27] @ '' has incompatible '' @ key))
            else check_facts schema checks
        | None \<Rightarrow> dbind (check_facts schema checks) (\<lambda>missing. dreturn ((key, expected) # missing))))"

fun set_facts :: "(string \<times> string) list \<Rightarrow> unit action" where
  "set_facts [] = dreturn ()"
| "set_facts ((key, value) # missing) = dbind (metadata_set_tx key value) (\<lambda>_. set_facts missing)"

definition verify_body :: "string \<Rightarrow> (string \<times> string) list \<Rightarrow> init_outcome action" where
  "verify_body schema checks =
     dbind (tx_stmt (\<lambda>t. ((), t))) (\<lambda>_.
     dbind (check_facts schema checks) (\<lambda>missing.
     dbind (set_facts missing) (\<lambda>_.
       dreturn (if missing = [] then Resumed else Initialized))))"

definition verify_facts :: "(string \<times> string) list \<Rightarrow> metadata_store \<Rightarrow> init_outcome action" where
  "verify_facts checks ms = in_tx False (verify_body (ms_schema ms) checks)"

definition verify_or_initialize :: "string \<Rightarrow> string \<Rightarrow> metadata_store \<Rightarrow> init_outcome action" where
  "verify_or_initialize project_id chain_id =
     verify_facts [(key_name ProjectId, project_id), (key_name ChainId, chain_id),
       (key_name SchemaVersion, schema_version)]"

definition project_facts :: "string \<Rightarrow> string \<Rightarrow> string \<Rightarrow> string \<Rightarrow> (string \<times> string) list" where
  "project_facts project_id chain_id fingerprint abi_version =
     [(key_name ProjectId, project_id), (key_name ChainId, chain_id),
      (key_name SchemaVersion, schema_version), (key_name ManifestHash, fingerprint),
      (key_name MappingAbiVersion, abi_version)]"

definition verify_project ::
    "string \<Rightarrow> string \<Rightarrow> string \<Rightarrow> string \<Rightarrow> metadata_store \<Rightarrow> init_outcome action" where
  "verify_project project_id chain_id fingerprint abi_version =
     verify_facts (project_facts project_id chain_id fingerprint abi_version)"

section \<open>Lemmas\<close>

text \<open>\<open>agrees m checks\<close>: no fact recorded in the table contradicts the run's.\<close>

definition agrees :: "(string \<Rightarrow> string option) \<Rightarrow> (string \<times> string) list \<Rightarrow> bool" where
  "agrees m checks = list_all (\<lambda>(k, v). m k = None \<or> m k = Some v) checks"

definition absent_facts :: "(string \<Rightarrow> string option) \<Rightarrow> (string \<times> string) list \<Rightarrow> (string \<times> string) list" where
  "absent_facts m checks = filter (\<lambda>(k, _). m k = None) checks"

lemma check_facts_Inr:
  "check_facts schema checks d = (Inr missing, d') \<Longrightarrow>
     db_tables d' = db_tables d \<and> agrees (tb_metadata (db_tables d)) checks \<and>
     missing = absent_facts (tb_metadata (db_tables d)) checks"
proof (induction checks arbitrary: d missing)
  case (Cons c checks)
  obtain k v where c: "c = (k, v)" by force
  obtain row d1 where q: "tx_stmt (\<lambda>t. (tb_metadata t k, t)) d = (Inr row, d1)"
    using Cons.prems c by (auto simp: dbind_Inr)
  then have row: "row = tb_metadata (db_tables d) k" "db_tables d1 = db_tables d"
    using tx_stmt_Inr [OF q] by auto
  show ?case
  proof (cases row)
    case None
    with Cons.prems c q obtain ms where "check_facts schema checks d1 = (Inr ms, d')" "missing = (k, v) # ms"
      by (auto simp: dbind_def dreturn_def split: prod.splits sum.splits)
    with Cons.IH [of d1 ms] row None c show ?thesis by (auto simp: agrees_def absent_facts_def)
  next
    case (Some w)
    with Cons.prems c q have "w = v" "check_facts schema checks d1 = (Inr missing, d')"
      by (auto simp: dbind_def dfail_def split: if_splits)
    moreover have "tb_metadata (db_tables d) k = Some w" using row(1) Some by simp
    ultimately show ?thesis
      using Cons.IH [of d1 missing] row(2) c by (simp add: agrees_def absent_facts_def)
  qed
qed (auto simp: dreturn_def agrees_def absent_facts_def)

lemma set_facts_Inr:
  "set_facts missing d = (Inr u, d') \<Longrightarrow> distinct (map fst missing) \<Longrightarrow>
     db_tables d' = (db_tables d)\<lparr>tb_metadata := tb_metadata (db_tables d) ++ map_of missing\<rparr>"
proof (induction missing arbitrary: d)
  case (Cons c missing)
  obtain k v where c: "c = (k, v)" by force
  obtain d1 where d1: "metadata_set_tx k v d = (Inr (), d1)" "set_facts missing d1 = (Inr u, d')"
    using Cons.prems c by (auto simp: dbind_Inr)
  have "db_tables d1 = (db_tables d)\<lparr>tb_metadata := (tb_metadata (db_tables d))(k \<mapsto> v)\<rparr>"
    using tx_stmt_Inr [OF d1(1) [unfolded metadata_set_tx_def]] by (simp add: upsert_metadata_def)
  moreover have "map_of missing k = None" using Cons.prems(2) c by (simp add: map_of_eq_None_iff)
  ultimately show ?case
    using Cons.IH [OF d1(2)] Cons.prems(2) c
    by (auto simp: fun_eq_iff map_add_def split: option.splits intro!: tables.equality)
qed (simp add: dreturn_def)

lemma verify_body_Inr:
  assumes "verify_body schema checks d = (Inr r, d')" and "distinct (map fst checks)"
  shows "agrees (tb_metadata (db_tables d)) checks"
    "db_tables d' = (db_tables d)\<lparr>tb_metadata := tb_metadata (db_tables d) ++ map_of (absent_facts (tb_metadata (db_tables d)) checks)\<rparr>"
    "r = (if absent_facts (tb_metadata (db_tables d)) checks = [] then Resumed else Initialized)"
proof -
  obtain d1 ms d2 where a: "tx_stmt (\<lambda>t. ((), t)) d = (Inr (), d1)" "check_facts schema checks d1 = (Inr ms, d2)"
    "set_facts ms d2 = (Inr (), d')" "r = (if ms = [] then Resumed else Initialized)"
    using assms(1) by (auto simp: verify_body_def dbind_Inr dreturn_def)
  have t: "db_tables d1 = db_tables d" using tx_stmt_Inr [OF a(1)] by simp
  note c = check_facts_Inr [OF a(2)]
  have "distinct (map fst ms)"
    using c assms(2) by (simp add: absent_facts_def distinct_map inj_on_def distinct_filter)
  with set_facts_Inr [OF a(3)] c t a(4)
  show "agrees (tb_metadata (db_tables d)) checks"
    "db_tables d' = (db_tables d)\<lparr>tb_metadata := tb_metadata (db_tables d) ++ map_of (absent_facts (tb_metadata (db_tables d)) checks)\<rparr>"
    "r = (if absent_facts (tb_metadata (db_tables d)) checks = [] then Resumed else Initialized)" by simp_all
qed

lemma absent_agree:
  assumes "agrees m checks" "distinct (map fst checks)"
  shows "m ++ map_of (absent_facts m checks) = m ++ map_of checks"
proof
  fix k
  have "m k = None \<or> m k = Some v" if "(k, v) \<in> set checks" for v
    using assms(1) that by (auto simp: agrees_def list_all_iff)
  moreover have "map_of (absent_facts m checks) k = (if m k = None then map_of checks k else None)"
    unfolding absent_facts_def by (induction checks) auto
  ultimately show "(m ++ map_of (absent_facts m checks)) k = (m ++ map_of checks) k"
    by (auto simp: map_add_def split: option.splits dest: map_of_SomeD)
qed

lemma verify_facts_tables:
  assumes "distinct (map fst checks)" "verify_facts checks ms d = (r, d')"
  shows "case r of
      Inr out \<Rightarrow> agrees (tb_metadata (db_tables d)) checks \<and>
        db_tables d' = (db_tables d)\<lparr>tb_metadata := tb_metadata (db_tables d) ++ map_of checks\<rparr> \<and>
        out = (if absent_facts (tb_metadata (db_tables d)) checks = [] then Resumed else Initialized)
    | Inl e \<Rightarrow> db_tables d' = db_tables d \<or>
        agrees (tb_metadata (db_tables d)) checks \<and>
        db_tables d' = (db_tables d)\<lparr>tb_metadata := tb_metadata (db_tables d) ++ map_of checks\<rparr>"
proof (cases r)
  case (Inl e)
  from in_tx_Inl [OF assms(2) [unfolded verify_facts_def Inl]] show ?thesis
  proof (elim disjE exE conjE)
    fix d1 d2 v
    assume b: "db_tables d1 = db_tables d" "verify_body (ms_schema ms) checks d1 = (Inr v, d2)"
      "db_tables d' = db_tables d2"
    from verify_body_Inr [OF b(2) assms(1)] absent_agree [OF _ assms(1)] b Inl show ?thesis by simp
  qed (simp add: Inl)
next
  case (Inr out)
  from in_tx_Inr [OF assms(2) [unfolded verify_facts_def Inr]] obtain d1 d2 where b:
    "db_tables d1 = db_tables d" "verify_body (ms_schema ms) checks d1 = (Inr out, d2)"
    "db_tables d' = db_tables d2" .
  from verify_body_Inr [OF b(2) assms(1)] absent_agree [OF _ assms(1)] b Inr show ?thesis by simp
qed

lemma project_facts_distinct [simp]: "distinct (map fst (project_facts p c f a))"
  by (simp add: project_facts_def)

lemma project_facts_inject: "project_facts p c f a = project_facts p' c' f' a' \<longleftrightarrow> p = p' \<and> c = c' \<and> f = f' \<and> a = a'"
  by (auto simp: project_facts_def)

lemma agrees_recorded:
  assumes "agrees (m ++ map_of (project_facts p c f a)) (project_facts p' c' f' a')"
  shows "p = p' \<and> c = c' \<and> f = f' \<and> a = a'"
  using assms by (auto simp: agrees_def project_facts_def map_add_def)

lemma absent_recorded: "absent_facts (m ++ map_of (project_facts p c f a)) (project_facts p c f a) = []"
  by (simp add: absent_facts_def project_facts_def map_add_def)

lemma map_add_again [simp]: "m ++ n ++ n = m ++ n"
  by (auto simp: fun_eq_iff map_add_def split: option.splits)

section \<open>Properties\<close>

text \<open>C29: the identity check is all or nothing under any faults. \<open>Ok\<close> means that no recorded
  fact contradicts the run's and that all five are recorded now. It is \<open>Resumed\<close> exactly when
  all five had been recorded before, and \<open>Initialized\<close> whenever one was missing, in an empty
  schema and in a partially stamped one alike: the comment on \<open>InitOutcome::Initialized\<close>, that
  the schema was empty, does not follow. An error leaves the tables untouched or, when only the
  answer of the commit was lost, as \<open>Ok\<close> would; with a contradicting fact recorded nothing is
  ever written.\<close>

theorem verify_project_outcome:
  "case verify_project project_id chain_id fingerprint abi ms d of
     (r, d') \<Rightarrow>
       (let facts = project_facts project_id chain_id fingerprint abi; old = db_tables d; new = db_tables d';
            stamped = old\<lparr>tb_metadata := tb_metadata old ++ map_of facts\<rparr>
        in case r of
          Inr out \<Rightarrow> agrees (tb_metadata old) facts \<and> new = stamped \<and>
            out = (if absent_facts (tb_metadata old) facts = [] then Resumed else Initialized)
        | Inl e \<Rightarrow> new = old \<or> (agrees (tb_metadata old) facts \<and> new = stamped))"
proof -
  obtain r d' where v: "verify_project project_id chain_id fingerprint abi ms d = (r, d')" by force
  from verify_facts_tables [OF project_facts_distinct v [unfolded verify_project_def]] v
  show ?thesis by (auto simp: Let_def split: sum.splits)
qed

text \<open>C28: a schema belongs to one project. After one run was accepted, another is accepted on
  the same database only with the same project, chain, fingerprint and mapping ABI; it then
  resumes and changes nothing.\<close>

theorem schema_belongs_to_one_project:
  assumes "verify_project p c f a ms d = (Inr out, d1)"
    "db_tables d2 = db_tables d1" "verify_project p' c' f' a' ms' d2 = (Inr out', d3)"
  shows "p' = p \<and> c' = c \<and> f' = f \<and> a' = a \<and> out' = Resumed \<and> db_tables d3 = db_tables d1"
proof -
  let ?m = "tb_metadata (db_tables d)"
  have t1: "tb_metadata (db_tables d1) = ?m ++ map_of (project_facts p c f a)"
    using verify_facts_tables [OF project_facts_distinct assms(1) [unfolded verify_project_def]] by simp
  note v = verify_facts_tables [OF project_facts_distinct assms(3) [unfolded verify_project_def]]
  have same: "p' = p \<and> c' = c \<and> f' = f \<and> a' = a"
    using v t1 assms(2) agrees_recorded by fastforce
  have "out' = Resumed" using v t1 assms(2) same absent_recorded by simp
  moreover have "db_tables d3 = db_tables d1"
    using v t1 assms(2) same by (simp add: tables.equality)
  ultimately show ?thesis using same by simp
qed

section \<open>Witnesses\<close>

definition demo_db :: db where
  "demo_db = \<lparr>db_tables = empty_tables, db_faults = []\<rparr>"

lemma check_facts_no_faults:
  "db_faults d = [] \<Longrightarrow> agrees (tb_metadata (db_tables d)) checks \<Longrightarrow>
     check_facts schema checks d = (Inr (absent_facts (tb_metadata (db_tables d)) checks), d)"
  by (induction checks) (auto simp: dbind_def dreturn_def agrees_def absent_facts_def split: option.splits)

lemma set_facts_no_faults: "db_faults d = [] \<Longrightarrow> \<exists>d'. set_facts fs d = (Inr (), d') \<and> db_faults d' = []"
  by (induction fs arbitrary: d) (auto simp: dbind_def dreturn_def metadata_set_tx_def)

lemma verify_no_faults:
  assumes "db_faults d = []" "agrees (tb_metadata (db_tables d)) (project_facts p c f a)"
  shows "\<exists>out d'. verify_project p c f a ms d = (Inr out, d') \<and> db_faults d' = []"
proof -
  let ?ms = "absent_facts (tb_metadata (db_tables d)) (project_facts p c f a)"
  obtain d' where s: "set_facts ?ms d = (Inr (), d')" "db_faults d' = []"
    using set_facts_no_faults [OF assms(1)] by blast
  have "verify_body (ms_schema ms) (project_facts p c f a) d =
      (Inr (if ?ms = [] then Resumed else Initialized), d')"
    using assms s check_facts_no_faults [OF assms] by (simp add: verify_body_def dbind_def dreturn_def)
  with assms(1) s(2) show ?thesis
    by (simp add: verify_project_def verify_facts_def in_tx_def dbind_def next_fault_def)
qed

text \<open>A schema that is not empty, stamped with the project but without the other four facts, is
  answered \<open>Initialized\<close>.\<close>

lemma partial_stamp_initialized:
  "\<exists>d'. verify_project p c f a ms
     \<lparr>db_tables = empty_tables\<lparr>tb_metadata := [key_name ProjectId \<mapsto> p]\<rparr>, db_faults = []\<rparr> = (Inr Initialized, d')"
proof -
  let ?d = "\<lparr>db_tables = empty_tables\<lparr>tb_metadata := [key_name ProjectId \<mapsto> p]\<rparr>, db_faults = []\<rparr>"
  have "agrees (tb_metadata (db_tables ?d)) (project_facts p c f a)"
    "absent_facts (tb_metadata (db_tables ?d)) (project_facts p c f a) \<noteq> []"
    by (simp_all add: agrees_def absent_facts_def project_facts_def)
  with verify_no_faults [of ?d p c f a ms] verify_facts_tables [OF project_facts_distinct, of p c f a ms ?d]
  show ?thesis by (fastforce simp: verify_project_def)
qed

lemma schema_belongs_to_one_project_witness:
  "\<exists>out d1 d3. verify_project ''transfers'' ''1'' ''f00d'' ''1'' \<lparr>ms_schema = ''app''\<rparr> demo_db = (Inr out, d1) \<and>
     verify_project ''transfers'' ''1'' ''f00d'' ''1'' \<lparr>ms_schema = ''app''\<rparr> d1 = (Inr Resumed, d3) \<and>
     db_tables d3 = db_tables d1"
proof -
  let ?v = "verify_project ''transfers'' ''1'' ''f00d'' ''1'' \<lparr>ms_schema = ''app''\<rparr>"
  obtain out d1 where v1: "?v demo_db = (Inr out, d1)" "db_faults d1 = []"
    using verify_no_faults [of demo_db] by (force simp: demo_db_def empty_tables_def agrees_def list_all_iff)
  have "agrees (tb_metadata (db_tables d1)) (project_facts ''transfers'' ''1'' ''f00d'' ''1'')"
    using verify_facts_tables [OF project_facts_distinct v1(1) [unfolded verify_project_def]]
    by (simp add: agrees_def project_facts_def)
  with v1(2) obtain out' d3 where v3: "?v d1 = (Inr out', d3)" using verify_no_faults by blast
  with schema_belongs_to_one_project [OF v1(1) refl v3] v1(1) show ?thesis by blast
qed

end
