(* ===== verification/Sq_Checkpoint.thy ===== *)
theory Sq_Checkpoint
  imports Sq_Metadata
begin

text \<open>
  Checkpoints and the recent header chain, \<open>crates/store/src/checkpoint.rs\<close>. The functional
  specification of a committed block is one function on the tables, \<open>record_block\<close>; the
  transaction leaves either that or what it found.
\<close>

section \<open>Rows\<close>

record checkpoint =
  cp_indexed :: block_ptr
  cp_finalized_height :: u64

record stored_header =
  sh_height :: u64
  sh_hash :: string
  sh_parent_hash :: "string option"
  sh_finality :: finality_state

definition stored_header_ptr :: "stored_header \<Rightarrow> block_ptr" where
  "stored_header_ptr s = block_ptr_new (sh_height s) (sh_hash s)"

text \<open>\<open>i64::try_from\<close> a \<open>u64\<close> and back.\<close>

definition sql_height :: "u64 \<Rightarrow> store_error + int" where
  "sql_height height =
     (if height \<le> i64_max then Inr (uint height)
      else Inl (StoreDecode (''height '' @ show_u64 height @ '' exceeds PostgreSQL bigint'')))"

definition u64_of_bigint :: "string \<Rightarrow> int \<Rightarrow> store_error + u64" where
  "u64_of_bigint what k = (if k < 0 then Inl (StoreDecode what) else Inr (of_nat (nat k)))"

fun finality_to_str :: "finality_state \<Rightarrow> string" where
  "finality_to_str Final = ''final''"
| "finality_to_str Unfinalized = ''unfinalized''"

definition finality_from_str :: "string \<Rightarrow> finality_state" where
  "finality_from_str raw = (if raw = ''final'' then Final else Unfinalized)"

definition row_to_stored_header :: "int \<times> block_row \<Rightarrow> store_error + stored_header" where
  "row_to_stored_header r =
     rbind (u64_of_bigint ''negative stored block height'' (fst r)) (\<lambda>h.
       Inr \<lparr>sh_height = h, sh_hash = row_hash (snd r), sh_parent_hash = row_parent_hash (snd r),
            sh_finality = finality_from_str (row_finality_state (snd r))\<rparr>)"

section \<open>The store\<close>

record checkpoint_store =
  cs_schema :: string
  cs_metadata :: metadata_store

definition checkpoint_new :: "string \<Rightarrow> store_error + checkpoint_store" where
  "checkpoint_new schema =
     rbind (validate_ident schema) (\<lambda>_. rbind (metadata_new schema) (\<lambda>m.
       Inr \<lparr>cs_schema = schema, cs_metadata = m\<rparr>))"

definition blocks_table :: string where
  "blocks_table = ''_superquery_blocks''"

definition checkpoint_create_table_sql :: "checkpoint_store \<Rightarrow> string" where
  "checkpoint_create_table_sql cs =
     ''CREATE TABLE IF NOT EXISTS '' @ quoted (cs_schema cs) @ ''.'' @ quoted blocks_table @ '' ('' @ newline @
     ''  height bigint PRIMARY KEY,'' @ newline @
     ''  hash text NOT NULL,'' @ newline @
     ''  parent_hash text,'' @ newline @
     ''  finality_state text NOT NULL,'' @ newline @
     ''  indexed_at timestamptz NOT NULL DEFAULT now()'' @ newline @ '');'' @ newline @
     ''CREATE INDEX IF NOT EXISTS '' @ quoted (blocks_table @ ''_hash_idx'') @
     '' ON '' @ quoted (cs_schema cs) @ ''.'' @ quoted blocks_table @ '' (hash);''"

definition checkpoint_ensure_tables :: "unit action" where
  "checkpoint_ensure_tables = dbind metadata_ensure_table (\<lambda>_. db_query (\<lambda>_. ()))"

definition required_value :: "(string \<Rightarrow> string option) \<Rightarrow> string \<Rightarrow> store_error + string" where
  "required_value m key =
     (case m key of
        Some v \<Rightarrow> if v \<noteq> [] then Inr v else Inl (StoreDecode (''incomplete checkpoint: missing '' @ key))
      | None \<Rightarrow> Inl (StoreDecode (''incomplete checkpoint: missing '' @ key)))"

definition number_value :: "(string \<Rightarrow> string option) \<Rightarrow> string \<Rightarrow> store_error + u64" where
  "number_value m key =
     rbind (required_value m key) (\<lambda>v. ok_or (parse_u64 v) (StoreDecode (''invalid checkpoint '' @ key)))"

definition decode_checkpoint :: "(string \<Rightarrow> string option) \<Rightarrow> store_error + checkpoint option" where
  "decode_checkpoint m =
     (if m (key_name IndexedHeight) = None \<and> m (key_name IndexedBlockHash) = None \<and>
         m (key_name FinalizedHeight) = None
      then Inr None
      else rbind (number_value m (key_name IndexedHeight)) (\<lambda>h.
           rbind (required_value m (key_name IndexedBlockHash)) (\<lambda>hash.
           rbind (number_value m (key_name FinalizedHeight)) (\<lambda>f.
             Inr (Some \<lparr>cp_indexed = block_ptr_new h hash, cp_finalized_height = f\<rparr>)))))"

definition checkpoint_load :: "checkpoint option action" where
  "checkpoint_load = dbind (db_query tb_metadata) (\<lambda>m. dlift (decode_checkpoint m))"

definition upsert_block :: "int \<Rightarrow> block_row \<Rightarrow> tables \<Rightarrow> unit \<times> tables" where
  "upsert_block k row t = ((), t\<lparr>tb_blocks := bt_insert k row (tb_blocks t)\<rparr>)"

definition commit_tx :: "header \<Rightarrow> finality_state \<Rightarrow> u64 \<Rightarrow> unit action" where
  "commit_tx header finality finalized_height =
     dbind (dlift (sql_height (hd_height header))) (\<lambda>height.
     dbind (dlift (sql_height finalized_height)) (\<lambda>_.
     dbind (tx_stmt (upsert_block height
        \<lparr>row_hash = hd_hash header, row_parent_hash = hd_parent_hash header,
         row_finality_state = finality_to_str finality\<rparr>)) (\<lambda>_.
     dbind (metadata_set_tx (key_name IndexedHeight) (show_u64 (hd_height header))) (\<lambda>_.
     dbind (metadata_set_tx (key_name IndexedBlockHash) (hd_hash header)) (\<lambda>_.
       metadata_set_tx (key_name FinalizedHeight) (show_u64 finalized_height))))))"

definition checkpoint_header_at :: "u64 \<Rightarrow> stored_header option action" where
  "checkpoint_header_at height =
     dbind (dlift (sql_height height)) (\<lambda>k.
     dbind (db_query (\<lambda>t. filter (\<lambda>r. fst r = k) (tb_blocks t))) (\<lambda>rows.
       (case rows of
          [] \<Rightarrow> dreturn None
        | row # _ \<Rightarrow> dlift (rbind (row_to_stored_header row) (\<lambda>h. Inr (Some h))))))"

definition headers_descending :: "u64 \<Rightarrow> u64 \<Rightarrow> stored_header list action" where
  "headers_descending from to =
     dbind (dlift (sql_height from)) (\<lambda>hi.
     dbind (dlift (sql_height to)) (\<lambda>lo.
     dbind (db_query (\<lambda>t. rev (filter (\<lambda>r. fst r \<le> hi \<and> lo \<le> fst r) (tb_blocks t)))) (\<lambda>rows.
       dlift (collect row_to_stored_header rows))))"

text \<open>A \<open>DELETE\<close>: the rows that stay, and how many went.\<close>

definition delete_blocks :: "(int \<times> block_row \<Rightarrow> bool) \<Rightarrow> tables \<Rightarrow> nat \<times> tables" where
  "delete_blocks gone t =
     (length (filter gone (tb_blocks t)), t\<lparr>tb_blocks := filter (\<lambda>r. \<not> gone r) (tb_blocks t)\<rparr>)"

definition truncate_above_tx :: "u64 \<Rightarrow> nat action" where
  "truncate_above_tx height =
     dbind (dlift (sql_height height)) (\<lambda>k. tx_stmt (delete_blocks (\<lambda>r. k < fst r)))"

definition prune_below :: "u64 \<Rightarrow> nat action" where
  "prune_below height =
     dbind (dlift (sql_height height)) (\<lambda>k.
       db_execute (delete_blocks (\<lambda>r. fst r < k \<and> row_finality_state (snd r) = ''final'')))"

section \<open>Lemmas\<close>

lemma dlift_simps [simp]: "dlift (Inr a) = dreturn a" "dlift (Inl e) = dfail e"
  by (simp_all add: fun_eq_iff dlift_def dreturn_def dfail_def)

lemma sql_height_alt: "sql_height h = (if unat h < 2 ^ 63 then Inr (uint h)
    else Inl (StoreDecode (''height '' @ show_u64 h @ '' exceeds PostgreSQL bigint'')))"
  by (simp add: sql_height_def le_i64_max)

lemma sql_height_Inr: "sql_height h = Inr k \<longleftrightarrow> unat h < 2 ^ 63 \<and> k = uint h"
  by (auto simp: sql_height_alt)

lemma finality_roundtrip [simp]: "finality_from_str (finality_to_str f) = f"
  by (cases f) (simp_all add: finality_from_str_def)

text \<open>The header table is well formed: heights ascend, and none is negative.\<close>

definition blocks_ok :: "tables \<Rightarrow> bool" where
  "blocks_ok t = (bt_ok (tb_blocks t) \<and> list_all (\<lambda>r. 0 \<le> fst r \<and> fst r < 2 ^ 63) (tb_blocks t))"

definition header_of_row :: "int \<times> block_row \<Rightarrow> stored_header" where
  "header_of_row r = \<lparr>sh_height = of_nat (nat (fst r)), sh_hash = row_hash (snd r),
     sh_parent_hash = row_parent_hash (snd r), sh_finality = finality_from_str (row_finality_state (snd r))\<rparr>"

lemma row_to_stored_header_ok: "0 \<le> fst r \<Longrightarrow> row_to_stored_header r = Inr (header_of_row r)"
  by (simp add: row_to_stored_header_def u64_of_bigint_def header_of_row_def)

text \<open>What a committed block does to the tables.\<close>

definition record_block :: "header \<Rightarrow> finality_state \<Rightarrow> u64 \<Rightarrow> tables \<Rightarrow> tables" where
  "record_block h f finalized t = t\<lparr>
     tb_blocks := bt_insert (uint (hd_height h))
       \<lparr>row_hash = hd_hash h, row_parent_hash = hd_parent_hash h, row_finality_state = finality_to_str f\<rparr>
       (tb_blocks t),
     tb_metadata := (tb_metadata t)(key_name IndexedHeight \<mapsto> show_u64 (hd_height h),
       key_name IndexedBlockHash \<mapsto> hd_hash h, key_name FinalizedHeight \<mapsto> show_u64 finalized)\<rparr>"

lemma commit_tx_Inr:
  assumes "commit_tx h f finalized d = (Inr u, d')"
  shows "unat (hd_height h) < 2 ^ 63" "unat finalized < 2 ^ 63"
    "db_tables d' = record_block h f finalized (db_tables d)"
proof -
  show b: "unat (hd_height h) < 2 ^ 63" "unat finalized < 2 ^ 63"
    using assms by (auto simp: commit_tx_def dbind_Inr dlift_def sql_height_Inr)
  let ?row = "\<lparr>row_hash = hd_hash h, row_parent_hash = hd_parent_hash h, row_finality_state = finality_to_str f\<rparr>"
  obtain d1 d2 d3 where s: "tx_stmt (upsert_block (uint (hd_height h)) ?row) d = (Inr (), d1)"
    "tx_stmt (upsert_metadata (key_name IndexedHeight) (show_u64 (hd_height h))) d1 = (Inr (), d2)"
    "tx_stmt (upsert_metadata (key_name IndexedBlockHash) (hd_hash h)) d2 = (Inr (), d3)"
    "tx_stmt (upsert_metadata (key_name FinalizedHeight) (show_u64 finalized)) d3 = (Inr u, d')"
    using assms b by (auto simp: commit_tx_def metadata_set_tx_def dbind_Inr sql_height_alt dreturn_def)
  show "db_tables d' = record_block h f finalized (db_tables d)"
    by (simp add: s [THEN tx_stmt_tables] upsert_block_def upsert_metadata_def record_block_def)
qed

lemma commit_tx_range:
  "commit_tx h f finalized d = (Inl e, d') \<Longrightarrow> 2 ^ 63 \<le> unat (hd_height h) \<or> 2 ^ 63 \<le> unat finalized \<Longrightarrow>
     db_tables d' = db_tables d"
  by (auto simp: commit_tx_def dbind_Inl dlift_def sql_height_alt split: if_splits)

lemma record_block_ok:
  assumes "blocks_ok t" "unat (hd_height h) < 2 ^ 63"
  shows "blocks_ok (record_block h f fin t)"
proof -
  have "uint (hd_height h) < 2 ^ 63"
    using assms(2) by (metis nat_int_comparison(2) of_nat_numeral of_nat_power uint_nat)
  moreover have "set (bt_insert k v b) \<subseteq> insert (k, v) (set b)" for k v and b :: "(int, block_row) btree"
    by (induction k v b rule: bt_insert.induct) auto
  ultimately show ?thesis
    using assms(1) by (fastforce simp: blocks_ok_def record_block_def list_all_iff)
qed

lemma decode_recorded:
  "hd_hash h \<noteq> [] \<Longrightarrow> decode_checkpoint (tb_metadata (record_block h f fin t)) =
     Inr (Some \<lparr>cp_indexed = header_ptr h, cp_finalized_height = fin\<rparr>)"
  by (simp add: decode_checkpoint_def record_block_def number_value_def required_value_def header_ptr_def)

lemma decode_empty_hash:
  "hd_hash h = [] \<Longrightarrow> decode_checkpoint (tb_metadata (record_block h f fin t)) =
     Inl (StoreDecode ''incomplete checkpoint: missing indexed_block_hash'')"
  by (simp add: decode_checkpoint_def record_block_def number_value_def required_value_def)

lemma filter_key:
  "bt_ok b \<Longrightarrow> filter (\<lambda>r. fst r = k) b = (case bt_get b k of None \<Rightarrow> [] | Some v \<Rightarrow> [(k, v)])"
proof (induction b)
  case (Cons x b)
  obtain l w where x: "x = (l, w)" by force
  show ?case
  proof (cases "k = l")
    case True
    have "filter (\<lambda>r. fst r = k) b = []" using Cons.prems x True by (auto simp: filter_empty_conv)
    with x True show ?thesis by simp
  qed (use Cons x in auto)
qed simp

lemma header_at_recorded:
  assumes "blocks_ok t" "unat (hd_height h) < 2 ^ 63" "db_faults d = []" "db_tables d = record_block h f fin t"
  shows "checkpoint_header_at (hd_height h) d =
    (Inr (Some \<lparr>sh_height = hd_height h, sh_hash = hd_hash h, sh_parent_hash = hd_parent_hash h, sh_finality = f\<rparr>), d)"
proof -
  have "filter (\<lambda>r. fst r = uint (hd_height h)) (tb_blocks (record_block h f fin t)) =
      [(uint (hd_height h), \<lparr>row_hash = hd_hash h, row_parent_hash = hd_parent_hash h,
         row_finality_state = finality_to_str f\<rparr>)]"
    using record_block_ok [OF assms(1,2), of f fin] by (simp add: blocks_ok_def filter_key record_block_def)
  with assms show ?thesis
    by (simp add: checkpoint_header_at_def sql_height_alt dbind_def dreturn_def dlift_def
        row_to_stored_header_ok header_of_row_def)
qed

lemma commit_block_outcome:
  assumes "db_transaction (commit_tx h f finalized) d = (Inr u, d')"
  shows "db_tables d' = record_block h f finalized (db_tables d)" "unat (hd_height h) < 2 ^ 63"
    "unat finalized < 2 ^ 63"
proof -
  from assms [unfolded db_transaction_def] obtain d1 d2 where
    "db_tables d1 = db_tables d" "commit_tx h f finalized d1 = (Inr u, d2)" "db_tables d' = db_tables d2"
    by (rule in_tx_Inr)
  with commit_tx_Inr [of h f finalized d1 u d2]
  show "db_tables d' = record_block h f finalized (db_tables d)" "unat (hd_height h) < 2 ^ 63"
    "unat finalized < 2 ^ 63" by simp_all
qed

lemma collect_rows:
  "list_all (\<lambda>r. 0 \<le> fst r) rows \<Longrightarrow> collect row_to_stored_header rows = Inr (map header_of_row rows)"
  by (induction rows) (auto simp: row_to_stored_header_ok)

definition stored_between :: "tables \<Rightarrow> u64 \<Rightarrow> u64 \<Rightarrow> stored_header list" where
  "stored_between t lo hi =
     map header_of_row (rev (filter (\<lambda>r. fst r \<le> uint hi \<and> uint lo \<le> fst r) (tb_blocks t)))"

lemma headers_descending_Inr:
  assumes "blocks_ok (db_tables d)" "headers_descending from to d = (Inr hs, d')"
  shows "hs = stored_between (db_tables d) to from" "db_tables d' = db_tables d"
proof -
  let ?rows = "rev (filter (\<lambda>r. fst r \<le> uint from \<and> uint to \<le> fst r) (tb_blocks (db_tables d)))"
  obtain rows where q: "db_query (\<lambda>t. rev (filter (\<lambda>r. fst r \<le> uint from \<and> uint to \<le> fst r) (tb_blocks t))) d = (Inr rows, d')"
    "collect row_to_stored_header rows = Inr hs"
    using assms(2) by (auto simp: headers_descending_def dbind_Inr dlift_def sql_height_Inr)
  have "rows = ?rows" "db_tables d' = db_tables d" using db_query_Inr [OF q(1)] by simp_all
  moreover have "list_all (\<lambda>r. 0 \<le> fst r) ?rows"
    using assms(1) by (auto simp: blocks_ok_def list_all_iff)
  ultimately show "hs = stored_between (db_tables d) to from" "db_tables d' = db_tables d"
    using q(2) by (simp_all add: collect_rows stored_between_def)
qed

lemma uint_bigint: "0 \<le> k \<Longrightarrow> k < 2 ^ 63 \<Longrightarrow> uint (word_of_int k :: u64) = k"
  by (simp add: unsigned_of_int take_bit_int_eq_self)

lemma headers_descending_tables: "headers_descending from to d = (r, d') \<Longrightarrow> db_tables d' = db_tables d"
  by (cases r) (auto simp: headers_descending_def dbind_Inr dbind_Inl dlift_def dest!: db_query_tables)

lemma row_height:
  "blocks_ok t \<Longrightarrow> r \<in> set (tb_blocks t) \<Longrightarrow> uint (sh_height (header_of_row r)) = fst r"
  by (auto simp: blocks_ok_def list_all_iff header_of_row_def uint_bigint)

lemma stored_between_sorted:
  assumes "blocks_ok t"
  shows "sorted_wrt (\<lambda>a b. sh_height b < sh_height a) (stored_between t lo hi)"
proof -
  have "sorted_wrt (\<lambda>a b. sh_height (header_of_row a) < sh_height (header_of_row b)) (tb_blocks t)"
  proof (rule sorted_wrt_mono_rel [of _ "\<lambda>a b. fst a < fst b"])
    show "sorted_wrt (\<lambda>a b. fst a < fst b) (tb_blocks t)"
      using assms by (simp add: blocks_ok_def bt_ok_def sorted_wrt_map)
    fix a b
    assume "a \<in> set (tb_blocks t)" "b \<in> set (tb_blocks t)" "fst a < fst b"
    with assms show "sh_height (header_of_row a) < sh_height (header_of_row b)"
      by (simp add: word_less_def row_height)
  qed
  then show ?thesis
    by (simp add: stored_between_def sorted_wrt_map sorted_wrt_rev sorted_wrt_filter)
qed

lemma set_stored_between:
  assumes "blocks_ok t"
  shows "s \<in> set (stored_between t lo hi) \<longleftrightarrow>
    s \<in> header_of_row ` set (tb_blocks t) \<and> lo \<le> sh_height s \<and> sh_height s \<le> hi"
proof -
  have "uint (sh_height (header_of_row r)) = fst r" if "r \<in> set (tb_blocks t)" for r
    using assms that by (rule row_height)
  then show ?thesis by (force simp: stored_between_def word_le_def)
qed

section \<open>Properties\<close>

text \<open>C16: recording a block is all or nothing, whatever fails when. \<open>Ok\<close> means the header row and
  the three checkpoint facts are all recorded; an error leaves the tables as they were or, when
  the commit's answer was lost, as \<open>Ok\<close> would. A height beyond \<open>bigint\<close> is never recorded.\<close>

theorem commit_block_atomic:
  "case db_transaction (commit_tx h f finalized) d of
     (Inr u, d') \<Rightarrow> db_tables d' = record_block h f finalized (db_tables d) \<and>
       unat (hd_height h) < 2 ^ 63 \<and> unat finalized < 2 ^ 63
   | (Inl e, d') \<Rightarrow> db_tables d' = db_tables d \<or>
       (db_tables d' = record_block h f finalized (db_tables d) \<and>
        unat (hd_height h) < 2 ^ 63 \<and> unat finalized < 2 ^ 63)"
proof -
  obtain r d' where t: "db_transaction (commit_tx h f finalized) d = (r, d')" by force
  show ?thesis
  proof (cases r)
    case (Inl e)
    from in_tx_Inl [OF t [unfolded db_transaction_def Inl]]
    have "db_tables d' = db_tables d \<or> (db_tables d' = record_block h f finalized (db_tables d) \<and>
        unat (hd_height h) < 2 ^ 63 \<and> unat finalized < 2 ^ 63)"
    proof (elim disjE exE conjE)
      fix d1 d2 v
      assume b: "db_tables d1 = db_tables d" "commit_tx h f finalized d1 = (Inr v, d2)" "db_tables d' = db_tables d2"
      from commit_tx_Inr [OF b(2)] b show ?thesis by simp
    qed simp
    with t Inl show ?thesis by simp
  next
    case (Inr u)
    from commit_block_outcome [OF t [unfolded Inr]] t Inr show ?thesis by simp
  qed
qed

text \<open>C17: what was committed is what a restart reads. After \<open>Ok\<close>, the checkpoint loaded is the
  committed block's pointer with the finalized height, and the stored header at its height is
  the committed header; with an empty hash, which the commit accepts, the checkpoint can no
  longer be read at all.\<close>

theorem checkpoint_roundtrip:
  "db_transaction (commit_tx h f finalized) d = (Inr (), d1) \<Longrightarrow> blocks_ok (db_tables d) \<Longrightarrow>
   d' = d1\<lparr>db_faults := []\<rparr> \<Longrightarrow>
     checkpoint_load d' =
       (if hd_hash h = [] then Inl (StoreDecode ''incomplete checkpoint: missing indexed_block_hash'')
        else Inr (Some \<lparr>cp_indexed = header_ptr h, cp_finalized_height = finalized\<rparr>), d') \<and>
     checkpoint_header_at (hd_height h) d' =
       (Inr (Some \<lparr>sh_height = hd_height h, sh_hash = hd_hash h, sh_parent_hash = hd_parent_hash h,
          sh_finality = f\<rparr>), d')"
proof -
  assume a: "db_transaction (commit_tx h f finalized) d = (Inr (), d1)" "blocks_ok (db_tables d)"
    "d' = d1\<lparr>db_faults := []\<rparr>"
  have t: "db_tables d' = record_block h f finalized (db_tables d)" "unat (hd_height h) < 2 ^ 63"
    using commit_block_outcome [OF a(1)] a(3) by simp_all
  show ?thesis
    using header_at_recorded [OF a(2) t(2) _ t(1)] decode_recorded decode_empty_hash a(3) t(1)
    by (auto simp: checkpoint_load_def dbind_def dlift_def)
qed

section \<open>Witnesses\<close>

lemma checkpoint_roundtrip_witness:
  "\<exists>d1. db_transaction (commit_tx \<lparr>hd_height = 7, hd_hash = ''h7'', hd_parent_hash = None, hd_timestamp = None\<rparr> Final 5)
       demo_db = (Inr (), d1) \<and>
     checkpoint_load (d1\<lparr>db_faults := []\<rparr>) =
       (Inr (Some \<lparr>cp_indexed = \<lparr>bp_height = 7, bp_hash = ''h7''\<rparr>, cp_finalized_height = 5\<rparr>), d1\<lparr>db_faults := []\<rparr>)"
proof -
  let ?h = "\<lparr>hd_height = 7, hd_hash = ''h7'', hd_parent_hash = None, hd_timestamp = None\<rparr>"
  obtain d1 where t: "db_transaction (commit_tx ?h Final 5) demo_db = (Inr (), d1)"
    by (simp add: db_transaction_def in_tx_def commit_tx_def dbind_def dreturn_def sql_height_alt demo_db_def
        metadata_set_tx_def next_fault_def)
  have "blocks_ok (db_tables demo_db)" by (simp add: blocks_ok_def demo_db_def empty_tables_def)
  from checkpoint_roundtrip [OF t this refl] t show ?thesis
    by (simp add: header_ptr_def block_ptr_new_def)
qed

end
