(* ===== verification/Sq_Ingestion.thy ===== *)
theory Sq_Ingestion
  imports Sq_Checkpoint
begin

text \<open>
  The ingestion journal, \<open>crates/store/src/ingestion.rs\<close>: one row per ingested header, appended
  in an exclusively locked transaction. Abstractly it is a list of headers in ascending order;
  the invariant says that they are linked by height and hash.
\<close>

section \<open>The store\<close>

definition journal_decode :: "int \<times> journal_row \<Rightarrow> store_error + header" where
  "journal_decode r =
     rbind (u64_of_bigint ''negative ingestion height'' (fst r)) (\<lambda>h.
       Inr \<lparr>hd_height = h, hd_hash = jr_hash (snd r), hd_parent_hash = jr_parent_hash (snd r),
            hd_timestamp = jr_timestamp (snd r)\<rparr>)"

record ingestion_store =
  is_schema :: string

definition ingestion_new :: "string \<Rightarrow> store_error + ingestion_store" where
  "ingestion_new schema = rbind (validate_ident schema) (\<lambda>_. Inr \<lparr>is_schema = schema\<rparr>)"

definition ingestion_ensure_table :: "unit action" where
  "ingestion_ensure_table = db_query (\<lambda>_. ())"

text \<open>\<open>ORDER BY height DESC LIMIT 1\<close>.\<close>

definition latest_row :: "tables \<Rightarrow> (int \<times> journal_row) option" where
  "latest_row t = (case tb_journal t of [] \<Rightarrow> None | _ # _ \<Rightarrow> Some (last (tb_journal t)))"

definition decode_latest :: "(int \<times> journal_row) option \<Rightarrow> store_error + header option" where
  "decode_latest r =
     (case r of None \<Rightarrow> Inr None | Some row \<Rightarrow> rbind (journal_decode row) (\<lambda>h. Inr (Some h)))"

definition ingestion_load :: "header option action" where
  "ingestion_load = dbind (db_query latest_row) (\<lambda>r. dlift (decode_latest r))"

text \<open>The primary key and the check constraint refuse a row.\<close>

definition insert_journal :: "header \<Rightarrow> int \<Rightarrow> unit action" where
  "insert_journal h k =
     dbind (tx_stmt (\<lambda>t. (bt_get (tb_journal t) k \<noteq> None \<or> k < 0, t))) (\<lambda>refused.
       if refused then dfail (Postgres ''constraint violation'')
       else (\<lambda>d. (Inr (), d\<lparr>db_tables := (db_tables d)\<lparr>tb_journal := bt_insert k
         \<lparr>jr_hash = hd_hash h, jr_parent_hash = hd_parent_hash h, jr_timestamp = hd_timestamp h\<rparr>
         (tb_journal (db_tables d))\<rparr>\<rparr>)))"

definition ingestion_tx :: "header \<Rightarrow> int \<Rightarrow> unit action" where
  "ingestion_tx h height =
     dbind (tx_stmt (\<lambda>t. ((), t))) (\<lambda>_.
     dbind (tx_stmt (\<lambda>t. (latest_row t, t))) (\<lambda>row.
     dbind (dlift (decode_latest row)) (\<lambda>last.
       (case last of
          Some l \<Rightarrow>
            if l = h then dreturn ()
            else if \<not> is_child_of h l
            then dfail (MetadataConflict ''ingestion requires contiguous canonical headers'')
            else insert_journal h height
        | None \<Rightarrow> insert_journal h height))))"

definition ingestion_commit :: "header \<Rightarrow> unit action" where
  "ingestion_commit h =
     dbind (dlift (sql_height (hd_height h))) (\<lambda>height.
       if hd_hash h = [] then dfail (StoreDecode ''empty ingestion hash'')
       else in_tx False (ingestion_tx h height))"

section \<open>The journal as a list of headers\<close>

definition header_of_journal :: "int \<times> journal_row \<Rightarrow> header" where
  "header_of_journal r = \<lparr>hd_height = word_of_int (fst r), hd_hash = jr_hash (snd r),
     hd_parent_hash = jr_parent_hash (snd r), hd_timestamp = jr_timestamp (snd r)\<rparr>"

definition journal :: "tables \<Rightarrow> header list" where
  "journal t = map header_of_journal (tb_journal t)"

definition journal_ok :: "tables \<Rightarrow> bool" where
  "journal_ok t =
     (bt_ok (tb_journal t) \<and> list_all (\<lambda>r. 0 \<le> fst r \<and> fst r < 2 ^ 63) (tb_journal t) \<and>
      linked (journal t) \<and> list_all (\<lambda>h. hd_hash h \<noteq> []) (journal t))"

lemma journal_ok_empty [simp]: "journal_ok empty_tables"
  by (simp add: journal_ok_def journal_def empty_tables_def)

lemma journal_decode_ok: "0 \<le> fst r \<Longrightarrow> journal_decode r = Inr (header_of_journal r)"
  by (simp add: journal_decode_def u64_of_bigint_def header_of_journal_def)

lemma decode_latest_ok:
  assumes "journal_ok t"
  shows "decode_latest (latest_row t) = Inr (if journal t = [] then None else Some (last (journal t)))"
proof (cases "tb_journal t")
  case (Cons r rs)
  have "0 \<le> fst (last (tb_journal t))"
    using assms Cons last_in_set [of "tb_journal t"] by (simp add: journal_ok_def list_all_iff)
  with Cons show ?thesis
    by (simp add: decode_latest_def latest_row_def journal_def journal_decode_ok last_map)
qed (simp add: decode_latest_def latest_row_def journal_def)

lemma journal_height:
  "journal_ok t \<Longrightarrow> r \<in> set (tb_journal t) \<Longrightarrow> uint (hd_height (header_of_journal r)) = fst r"
  by (auto simp: journal_ok_def list_all_iff header_of_journal_def uint_bigint)

text \<open>A child of the last header extends the journal.\<close>

definition extends :: "header \<Rightarrow> tables \<Rightarrow> tables \<Rightarrow> bool" where
  "extends h t t' = (journal t' = journal t @ [h] \<and> journal_ok t' \<and>
     tb_metadata t' = tb_metadata t \<and> tb_blocks t' = tb_blocks t)"

lemma insert_extends:
  assumes "journal_ok t" "journal t = [] \<or> is_child_of h (last (journal t))" "hd_hash h \<noteq> []"
    "unat (hd_height h) < 2 ^ 63"
  shows "extends h t (t\<lparr>tb_journal := bt_insert (uint (hd_height h))
       \<lparr>jr_hash = hd_hash h, jr_parent_hash = hd_parent_hash h, jr_timestamp = hd_timestamp h\<rparr> (tb_journal t)\<rparr>)"
    "bt_get (tb_journal t) (uint (hd_height h)) = None"
proof -
  let ?k = "uint (hd_height h)"
  have below: "x < ?k" if x: "x \<in> set (bt_keys (tb_journal t))" for x
  proof -
    obtain r where r: "r \<in> set (tb_journal t)" "fst r = x"
      using x by auto
    then have ne: "tb_journal t \<noteq> []" "journal t \<noteq> []" by (auto simp: journal_def)
    let ?l = "last (tb_journal t)"
    have "fst r \<le> fst ?l"
      using r(1) assms(1) by (intro bt_ok_last) (simp_all add: journal_ok_def)
    moreover have "uint (hd_height (header_of_journal ?l)) = fst ?l"
      using ne(1) by (intro journal_height [OF assms(1)]) simp
    moreover have "hd_height (header_of_journal ?l) < hd_height h"
      using assms(2) ne less_add_one by (auto simp: journal_def last_map is_child_of_iff)
    ultimately show ?thesis using r(2) by (simp add: word_less_def)
  qed
  then show "bt_get (tb_journal t) ?k = None" by (force simp: map_of_eq_None_iff)
  let ?row = "\<lparr>jr_hash = hd_hash h, jr_parent_hash = hd_parent_hash h, jr_timestamp = hd_timestamp h\<rparr>"
  have ins: "bt_insert ?k ?row (tb_journal t) = tb_journal t @ [(?k, ?row)]"
    using below by (intro bt_insert_last) blast
  have "header_of_journal (?k, ?row) = h" by (simp add: header_of_journal_def)
  moreover have "?k < 2 ^ 63"
    using assms(4) by (metis nat_int_comparison(2) of_nat_numeral of_nat_power uint_nat)
  ultimately show "extends h t (t\<lparr>tb_journal := bt_insert ?k ?row (tb_journal t)\<rparr>)"
    using assms(1,2,3) bt_ok_insert [of "tb_journal t" ?k ?row] ins
    by (auto simp: extends_def journal_ok_def journal_def linked_snoc)
qed

section \<open>Committing a header\<close>

text \<open>What a successful commit may have done: appended, or found the header already last.\<close>

definition committed :: "header \<Rightarrow> tables \<Rightarrow> tables \<Rightarrow> bool" where
  "committed h t t' =
     (extends h t t' \<and> (journal t = [] \<or> is_child_of h (last (journal t))) \<or>
      t' = t \<and> journal t \<noteq> [] \<and> last (journal t) = h)"

lemma insert_journal_Inr:
  assumes "journal_ok (db_tables d)" "journal (db_tables d) = [] \<or> is_child_of h (last (journal (db_tables d)))"
    "hd_hash h \<noteq> []" "sql_height (hd_height h) = Inr k" "insert_journal h k d = (Inr u, d')"
  shows "extends h (db_tables d) (db_tables d')"
proof -
  have k: "k = uint (hd_height h)" "unat (hd_height h) < 2 ^ 63" using assms(4) by (auto simp: sql_height_Inr)
  note ie = insert_extends [OF assms(1-3) k(2)]
  obtain refused d1 where s: "tx_stmt (\<lambda>t. (bt_get (tb_journal t) k \<noteq> None \<or> k < 0, t)) d = (Inr refused, d1)"
    using assms(5) by (auto simp: insert_journal_def dbind_Inr)
  have "\<not> refused" "db_tables d1 = db_tables d"
    using tx_stmt_Inr [OF s] ie(2) k(1) by auto
  with assms(5) s ie(1) k(1) show ?thesis by (auto simp: insert_journal_def dbind_def)
qed

lemma ingestion_tx_Inr:
  assumes "journal_ok (db_tables d)" "hd_hash h \<noteq> []" "sql_height (hd_height h) = Inr k"
    "ingestion_tx h k d = (Inr u, d')"
  shows "committed h (db_tables d) (db_tables d')"
proof -
  let ?t = "db_tables d"
  obtain d1 row d2 lst where s: "tx_stmt (\<lambda>t. ((), t)) d = (Inr (), d1)"
    "tx_stmt (\<lambda>t. (latest_row t, t)) d1 = (Inr row, d2)" "decode_latest row = Inr lst"
    "(case lst of Some l \<Rightarrow> if l = h then dreturn ()
        else if \<not> is_child_of h l then dfail (MetadataConflict ''ingestion requires contiguous canonical headers'')
        else insert_journal h k | None \<Rightarrow> insert_journal h k) d2 = (Inr u, d')"
    using assms(4) by (auto simp: ingestion_tx_def dbind_Inr dlift_def)
  have t: "db_tables d2 = ?t" "row = latest_row ?t" using s(1,2) by (auto dest!: tx_stmt_Inr)
  have l: "lst = (if journal ?t = [] then None else Some (last (journal ?t)))"
    using s(3) decode_latest_ok [OF assms(1)] t(2) by simp
  show ?thesis
  proof (cases "lst = Some h")
    case True
    with s(4) t l show ?thesis by (auto simp: committed_def dreturn_def split: if_splits)
  next
    case False
    with s(4) l have c: "journal ?t = [] \<or> is_child_of h (last (journal ?t))" "insert_journal h k d2 = (Inr u, d')"
      by (auto simp: dfail_def split: if_splits option.splits)
    have "extends h ?t (db_tables d')"
      using insert_journal_Inr [OF _ _ assms(2,3) c(2)] assms(1) c(1) t(1) by simp
    with c(1) show ?thesis by (simp add: committed_def)
  qed
qed

lemma ingestion_commit_tables:
  assumes "journal_ok (db_tables d)" "ingestion_commit h d = (r, d')"
  shows "case r of Inr u \<Rightarrow> committed h (db_tables d) (db_tables d')
    | Inl e \<Rightarrow> db_tables d' = db_tables d \<or> committed h (db_tables d) (db_tables d')"
proof (cases "sql_height (hd_height h)")
  case (Inl e)
  with assms(2) show ?thesis by (auto simp: ingestion_commit_def dfail_def)
next
  case (Inr k)
  show ?thesis
  proof (cases "hd_hash h = []")
    case True
    with assms(2) Inr show ?thesis by (auto simp: ingestion_commit_def dreturn_def dfail_def dbind_def)
  next
    case False
    then have tx: "in_tx False (ingestion_tx h k) d = (r, d')"
      using assms(2) Inr by (simp add: ingestion_commit_def)
    note step = ingestion_tx_Inr [OF _ False Inr]
    show ?thesis
    proof (cases r)
      case r: (Inl e)
      from in_tx_Inl [OF tx [unfolded r]] have "db_tables d' = db_tables d \<or> committed h (db_tables d) (db_tables d')"
        using step assms(1) by metis
      with r show ?thesis by simp
    next
      case r: (Inr u)
      from in_tx_Inr [OF tx [unfolded r]] have "committed h (db_tables d) (db_tables d')"
        using step assms(1) by metis
      with r show ?thesis by simp
    qed
  qed
qed

lemma committed_ok: "journal_ok t \<Longrightarrow> committed h t t' \<Longrightarrow> journal_ok t'"
  by (auto simp: committed_def extends_def)

lemma committed_journal:
  "journal_ok t \<Longrightarrow> committed h t t' \<Longrightarrow>
     journal_ok t' \<and> journal t' \<noteq> [] \<and> last (journal t') = h \<and>
     (journal t' = journal t @ [h] \<or> journal t' = journal t)"
  by (auto simp: committed_def extends_def)

section \<open>Properties\<close>

text \<open>C14: the journal stays a hash-linked, gapless list of headers under every commit and every
  fault. \<open>Ok\<close> means the header is the last entry now, appended as a child of the one before or
  found already there; an error leaves the journal or, when only the answer was lost, the same
  appended journal; no other table changes and no entry is ever rewritten.\<close>

theorem journal_commit_correct:
  "journal_ok (db_tables d) \<Longrightarrow>
   (case ingestion_commit h d of
      (r, d') \<Rightarrow> let old = db_tables d; new = db_tables d' in
        journal_ok new \<and> tb_metadata new = tb_metadata old \<and> tb_blocks new = tb_blocks old \<and>
        (case r of
           Inr _ \<Rightarrow> journal new \<noteq> [] \<and> last (journal new) = h \<and>
             (journal new = journal old @ [h] \<or> journal new = journal old)
         | Inl _ \<Rightarrow> journal new = journal old \<or> journal new = journal old @ [h]) \<and>
        map hd_height (journal new) =
          (if journal new = [] then [] else
             heights_between (hd_height (hd (journal new))) (hd_height (last (journal new)))))"
proof -
  assume ok: "journal_ok (db_tables d)"
  obtain r d' where c: "ingestion_commit h d = (r, d')" by force
  note t = ingestion_commit_tables [OF ok c]
  have ok': "journal_ok (db_tables d')" using t committed_ok [OF ok] ok by (cases r) auto
  then have "journal (db_tables d') \<noteq> [] \<Longrightarrow> map hd_height (journal (db_tables d')) =
      heights_between (hd_height (hd (journal (db_tables d')))) (hd_height (last (journal (db_tables d'))))"
    by (intro linked_map_heights) (simp_all add: journal_ok_def)
  moreover have "tb_metadata (db_tables d') = tb_metadata (db_tables d) \<and> tb_blocks (db_tables d') = tb_blocks (db_tables d)"
    using t by (cases r) (auto simp: committed_def extends_def)
  moreover have "case r of Inr _ \<Rightarrow> journal (db_tables d') \<noteq> [] \<and> last (journal (db_tables d')) = h \<and>
      (journal (db_tables d') = journal (db_tables d) @ [h] \<or> journal (db_tables d') = journal (db_tables d))
    | Inl _ \<Rightarrow> journal (db_tables d') = journal (db_tables d) \<or> journal (db_tables d') = journal (db_tables d) @ [h]"
    using t by (cases r) (auto simp: committed_def extends_def)
  ultimately show ?thesis using c ok' by (simp add: Let_def)
qed

section \<open>Witnesses\<close>

lemma journal_commit_correct_witness:
  "case ingestion_commit \<lparr>hd_height = 7, hd_hash = ''h7'', hd_parent_hash = None, hd_timestamp = None\<rparr> demo_db of
     (r, d') \<Rightarrow> r = Inr () \<and> map hd_height (journal (db_tables d')) = [7] \<and> journal_ok (db_tables d')"
proof -
  let ?h = "\<lparr>hd_height = 7, hd_hash = ''h7'', hd_parent_hash = None, hd_timestamp = None\<rparr>"
  have "case ingestion_commit ?h demo_db of
     (r, d') \<Rightarrow> r = Inr () \<and> map hd_height (journal (db_tables d')) = [7]"
    by code_simp
  moreover have "journal_ok (db_tables demo_db)" by (simp add: demo_db_def)
  ultimately show ?thesis
    using journal_commit_correct [of demo_db ?h] by (auto simp: Let_def split: prod.splits)
qed

end
