(* ===== verification/Sq_NodeConfig.thy ===== *)
theory Sq_NodeConfig
  imports Sq_Range Sq_Strings
begin

text \<open>
  The node's settings, \<open>crates/config/src/node.rs\<close>: the record of flags with the defaults of the
  command line, and the cross-field validation with its messages, in the order of the checks.
\<close>

section \<open>Settings\<close>

datatype historical_mode = HistHeight | HistTimestamp | HistDisabled

definition historical_is_enabled :: "historical_mode \<Rightarrow> bool" where
  "historical_is_enabled m = (m \<noteq> HistDisabled)"

record node_config =
  nc_project :: string
  nc_database_url :: "string option"
  nc_rpc_urls :: "string list"
  nc_ingest_only :: bool
  nc_start_height :: "u64 option"
  nc_end_height :: "u64 option"
  nc_batch_size :: u32
  nc_max_in_flight :: u32
  nc_rpc_timeout_secs :: u64
  nc_rpc_max_retries :: u32
  nc_queue_capacity :: u32
  nc_workers :: "u32 option"
  nc_historical :: historical_mode
  nc_query_limit :: u32
  nc_unfinalized_blocks :: bool
  nc_finality_confirmations :: u64
  nc_mapping_fuel :: u64
  nc_mapping_timeout_ms :: u64
  nc_mapping_memory_mb :: u32
  nc_admin_addr :: string
  nc_no_admin :: bool
  nc_log_level :: string
  nc_log_json :: bool

definition node_config_with_defaults :: "string \<Rightarrow> node_config" where
  "node_config_with_defaults project =
     \<lparr>nc_project = project, nc_database_url = None, nc_rpc_urls = [], nc_ingest_only = False,
      nc_start_height = None, nc_end_height = None, nc_batch_size = 100, nc_max_in_flight = 8,
      nc_rpc_timeout_secs = 30, nc_rpc_max_retries = 5, nc_queue_capacity = 200, nc_workers = None,
      nc_historical = HistHeight, nc_query_limit = 100, nc_unfinalized_blocks = False,
      nc_finality_confirmations = 200, nc_mapping_fuel = 10000000000, nc_mapping_timeout_ms = 5000,
      nc_mapping_memory_mb = 256, nc_admin_addr = ''127.0.0.1:3000'', nc_no_admin = False,
      nc_log_level = ''info'', nc_log_json = False\<rparr>"

text \<open>\<open>parallelism\<close> is the machine's answer, \<open>None\<close> for an error.\<close>

definition resolved_workers :: "usize option \<Rightarrow> node_config \<Rightarrow> usize" where
  "resolved_workers parallelism c =
     (case nc_workers c of
        Some w \<Rightarrow> ucast w
      | None \<Rightarrow> (case parallelism of Some n \<Rightarrow> n | None \<Rightarrow> 1))"

definition positive_settings :: "usize option \<Rightarrow> node_config \<Rightarrow> (string \<times> u64) list" where
  "positive_settings parallelism c =
     [(''batch-size'', ucast (nc_batch_size c)),
      (''max-in-flight'', ucast (nc_max_in_flight c)),
      (''queue-capacity'', ucast (nc_queue_capacity c)),
      (''rpc-timeout-secs'', nc_rpc_timeout_secs c),
      (''rpc-max-retries'', ucast (nc_rpc_max_retries c)),
      (''workers'', resolved_workers parallelism c),
      (''query-limit'', ucast (nc_query_limit c)),
      (''mapping-fuel'', nc_mapping_fuel c),
      (''mapping-timeout-ms'', nc_mapping_timeout_ms c),
      (''mapping-memory-mb'', ucast (nc_mapping_memory_mb c))]"

definition opt_list :: "'a option \<Rightarrow> 'a list" where
  "opt_list x = (case x of None \<Rightarrow> [] | Some a \<Rightarrow> [a])"

definition ordered_range :: "node_config \<Rightarrow> string + unit" where
  "ordered_range c =
     (case (nc_start_height c, nc_end_height c) of
        (Some start, Some end) \<Rightarrow>
          ensure (\<not> end < start)
            (''--end-height ('' @ show_u64 end @ '') is below --start-height ('' @ show_u64 start @ '')'')
      | _ \<Rightarrow> Inr ())"

definition node_config_validate :: "usize option \<Rightarrow> node_config \<Rightarrow> string + unit" where
  "node_config_validate parallelism c =
     rbind (case List.find (\<lambda>(_, value). value = 0) (positive_settings parallelism c) of
              Some (name, _) \<Rightarrow> Inl (''--'' @ name @ '' must be greater than zero'')
            | None \<Rightarrow> Inr ()) (\<lambda>_.
     rbind (ensure (\<not> list_ex (\<lambda>h. i64_max < h) (opt_list (nc_start_height c) @ opt_list (nc_end_height c)))
        ''block heights must fit PostgreSQL bigint'') (\<lambda>_.
     rbind (ensure (\<not> (nc_ingest_only c \<and> nc_unfinalized_blocks c))
        ''--ingest-only currently requires finalized blocks'') (\<lambda>_.
     rbind (ordered_range c) (\<lambda>_.
     rbind (ensure (\<not> (nc_unfinalized_blocks c \<and> \<not> historical_is_enabled (nc_historical c)))
        ''--unfinalized-blocks requires entity history for rewind; remove --historical disabled'') (\<lambda>_.
       ensure (\<not> nc_queue_capacity c < nc_batch_size c)
         (''--queue-capacity ('' @ show_u64 (ucast (nc_queue_capacity c)) @ '') is below --batch-size ('' @
          show_u64 (ucast (nc_batch_size c)) @ ''), which would stall the dispatcher''))))))"

section \<open>Properties\<close>

lemma ucast_zero_iff: "ucast (w :: u32) = (0 :: u64) \<longleftrightarrow> w = 0"
proof -
  have "unat w < 2 ^ 32" using unsigned_less [of w] by simp
  then have "unat (ucast w :: u64) = unat w" by (simp add: unsigned_ucast_eq take_bit_nat_eq_self)
  then show ?thesis by (metis unat_eq_zero)
qed

lemma first_zero:
  "(case List.find (\<lambda>(_, value). value = 0) xs of Some (name, _) \<Rightarrow> Inl (f name) | None \<Rightarrow> Inr ()) = Inr () \<longleftrightarrow>
     (\<forall>(_, v) \<in> set xs. v \<noteq> 0)"
  by (induction xs) auto

lemma node_config_validate_Inr:
  "node_config_validate parallelism c = Inr () \<longleftrightarrow>
     (\<forall>(_, v) \<in> set (positive_settings parallelism c). v \<noteq> 0) \<and>
     {h. nc_start_height c = Some h \<or> nc_end_height c = Some h} \<subseteq> {..i64_max} \<and>
     \<not> (nc_ingest_only c \<and> nc_unfinalized_blocks c) \<and>
     (case (nc_start_height c, nc_end_height c) of (Some s, Some e) \<Rightarrow> s \<le> e | _ \<Rightarrow> True) \<and>
     \<not> (nc_unfinalized_blocks c \<and> nc_historical c = HistDisabled) \<and>
     nc_batch_size c \<le> nc_queue_capacity c"
proof -
  have "\<not> list_ex (\<lambda>h. i64_max < h) (opt_list (nc_start_height c) @ opt_list (nc_end_height c)) \<longleftrightarrow>
      {h. nc_start_height c = Some h \<or> nc_end_height c = Some h} \<subseteq> {..i64_max}"
    by (auto simp: opt_list_def not_less split: option.splits)
  moreover have "ordered_range c = Inr () \<longleftrightarrow>
      (case (nc_start_height c, nc_end_height c) of (Some s, Some e) \<Rightarrow> s \<le> e | _ \<Rightarrow> True)"
    by (auto simp: ordered_range_def not_less split: option.splits)
  ultimately show ?thesis
    by (auto simp: node_config_validate_def rbind_eq_Inr historical_is_enabled_def not_less first_zero)
qed

lemma idle_clamp:
  "clamp_batch (backpressure_new (nc_max_in_flight c) (nc_queue_capacity c)) (nc_batch_size c) 0 0 = 0 \<longleftrightarrow>
     nc_batch_size c = 0"
  by (auto simp: clamp_batch_def available_def backpressure_new_def Let_def min_def max_def
      word_le_nat_alt word_unat_eq_iff int_simps)

text \<open>C36: what validation accepts, exactly: every limit that must be positive is, the heights fit
  \<open>bigint\<close> and are ordered, ingestion is of finalized blocks, unfinalized indexing keeps
  history, and the queue holds a batch. In particular an accepted configuration always lets an
  idle fetcher ask for a whole block, with the limits and the batch size the run is started with.\<close>

theorem node_config_validate_iff:
  "(node_config_validate parallelism c = Inr () \<longleftrightarrow>
      nc_batch_size c \<noteq> 0 \<and> nc_max_in_flight c \<noteq> 0 \<and> nc_queue_capacity c \<noteq> 0 \<and>
      nc_rpc_timeout_secs c \<noteq> 0 \<and> nc_rpc_max_retries c \<noteq> 0 \<and> resolved_workers parallelism c \<noteq> 0 \<and>
      nc_query_limit c \<noteq> 0 \<and> nc_mapping_fuel c \<noteq> 0 \<and> nc_mapping_timeout_ms c \<noteq> 0 \<and>
      nc_mapping_memory_mb c \<noteq> 0 \<and>
      {h. nc_start_height c = Some h \<or> nc_end_height c = Some h} \<subseteq> {..i64_max} \<and>
      \<not> (nc_ingest_only c \<and> nc_unfinalized_blocks c) \<and>
      (case (nc_start_height c, nc_end_height c) of (Some s, Some e) \<Rightarrow> s \<le> e | _ \<Rightarrow> True) \<and>
      \<not> (nc_unfinalized_blocks c \<and> nc_historical c = HistDisabled) \<and>
      nc_batch_size c \<le> nc_queue_capacity c) \<and>
   \<not> (node_config_validate parallelism c = Inr () \<and>
      clamp_batch (backpressure_new (nc_max_in_flight c) (nc_queue_capacity c)) (nc_batch_size c) 0 0 = 0)"
  unfolding node_config_validate_Inr idle_clamp by (simp add: positive_settings_def ucast_zero_iff) blast

end
