(* ===== verification/Sq_Ingest.thy ===== *)
theory Sq_Ingest
  imports Sq_SchedulerRun Sq_Ingestion Sq_NodeConfig
begin

text \<open>
  The ingest-only node, \<open>bins/superquery-node/src/ingest.rs\<close> with \<open>resume_position\<close> of
  \<open>startup.rs\<close>: verify the schema, find the resume point, run the scheduler into the journal. The
  journal is the sink of the scheduler, so that the sink interface is instantiated with the
  database transaction under its fault schedule.
\<close>

section \<open>The sink\<close>

text \<open>\<open>Sink::accept\<close>: counting the matching inputs only feeds a log line.\<close>

definition ingest_accept :: "'b generic_block \<Rightarrow> db \<Rightarrow> (core_error + unit) \<times> db" where
  "ingest_accept block d =
     (case ingestion_commit (gb_header block) d of (r, d') \<Rightarrow> (map_err CoreStore r, d'))"

section \<open>Starting\<close>

datatype ingest_error =
    IngestStore store_error
  | IngestCore core_error
  | IngestChain chain_error
  | IngestOther string

text \<open>The project as far as startup needs it; \<open>pi_min_start\<close> is the manifest's start block.\<close>

record project_identity =
  pi_schema :: string
  pi_name :: string
  pi_chain_id :: string
  pi_fingerprint :: string
  pi_min_start :: u64

definition resume_position :: "project_identity \<Rightarrow> checkpoint option action" where
  "resume_position p =
     dbind ensure_schema (\<lambda>_.
     dbind (dlift (checkpoint_new (pi_schema p))) (\<lambda>checkpoints.
     dbind checkpoint_ensure_tables (\<lambda>_.
     dbind (dlift (metadata_new (pi_schema p))) (\<lambda>metadata.
     dbind (verify_project (pi_name p) (pi_chain_id p) (pi_fingerprint p) ''1'' metadata) (\<lambda>_.
       checkpoint_load)))))"

definition ingest_start :: "node_config \<Rightarrow> project_identity \<Rightarrow> u64" where
  "ingest_start c p = (case nc_start_height c of Some h \<Rightarrow> h | None \<Rightarrow> pi_min_start p)"

definition ingest_scheduler :: "node_config \<Rightarrow> project_identity \<Rightarrow> fetch_scheduler" where
  "ingest_scheduler c p = scheduler_new
     \<lparr>start_height = ingest_start c p, end_height = nc_end_height c, batch_size = nc_batch_size c,
      index_unfinalized = False, finality_confirmations = nc_finality_confirmations c,
      sc_backpressure = backpressure_new (nc_max_in_flight c) (nc_queue_capacity c)\<rparr> plan_new"

text \<open>
  Where to start. \<open>canonical\<close> is the chain's answer for the height of the last ingested header,
  \<open>None\<close> when the shutdown signal comes first; the result is \<open>None\<close> for that shutdown.
\<close>

definition ingest_position ::
    "(u64 \<Rightarrow> (chain_error + header) option) \<Rightarrow> node_config \<Rightarrow> project_identity \<Rightarrow> header option \<Rightarrow>
     ingest_error + fetch_scheduler option" where
  "ingest_position canonical c p stored =
     (case stored of
        None \<Rightarrow> Inr (Some (ingest_scheduler c p))
      | Some lst \<Rightarrow>
          (case canonical (hd_height lst) of
             None \<Rightarrow> Inr None
           | Some answer \<Rightarrow>
               rbind (map_err IngestChain answer) (\<lambda>h.
               rbind (ensure (hd_hash h = hd_hash lst)
                 (IngestOther ''ingestion checkpoint is no longer canonical; rewind is not yet available'')) (\<lambda>_.
               rbind (ensure (ingest_start c p \<le> saturating_add (hd_height lst) 1)
                 (IngestOther ''start height would skip the persisted ingestion cursor'')) (\<lambda>_.
                 Inr (Some (resume_from (hd_height lst) (ingest_scheduler c p))))))))"

definition ingest_setup :: "project_identity \<Rightarrow> unit action" where
  "ingest_setup p =
     dbind (resume_position p) (\<lambda>_.
     dbind (dlift (ingestion_new (pi_schema p))) (\<lambda>_. ingestion_ensure_table))"

definition ingest_prepare :: "project_identity \<Rightarrow> header option action" where
  "ingest_prepare p = dbind (ingest_setup p) (\<lambda>_. ingestion_load)"

definition ingest_run ::
    "(u64 \<Rightarrow> (chain_error + header) option) \<Rightarrow> 'b turn list \<Rightarrow> node_config \<Rightarrow> project_identity \<Rightarrow> db \<Rightarrow>
     (ingest_error + unit) option \<times> db" where
  "ingest_run canonical ts c p d =
     (case ingest_prepare p d of
        (Inl e, d1) \<Rightarrow> (Some (Inl (IngestStore e)), d1)
      | (Inr stored, d1) \<Rightarrow>
          (case ingest_position canonical c p stored of
             Inl e \<Rightarrow> (Some (Inl e), d1)
           | Inr None \<Rightarrow> (Some (Inr ()), d1)
           | Inr (Some s) \<Rightarrow>
               (case run ingest_accept ts s d1 of
                  (r, _, d2) \<Rightarrow> (map_option (map_err IngestCore) r, d2))))"

section \<open>The journal is a sink\<close>

definition db_journal :: "db \<Rightarrow> header list" where
  "db_journal d = journal (db_tables d)"

definition db_journal_ok :: "db \<Rightarrow> bool" where
  "db_journal_ok d = journal_ok (db_tables d)"

lemma ingest_accept_journal:
  assumes "db_journal_ok k" "ingest_accept b k = (r, k')"
  shows "case r of
      Inr u \<Rightarrow> db_journal_ok k' \<and> db_journal k' \<noteq> [] \<and> last (db_journal k') = gb_header b \<and>
        (db_journal k' = db_journal k @ [gb_header b] \<or> db_journal k' = db_journal k)
    | Inl e \<Rightarrow> db_journal_ok k' \<and> (db_journal k' = db_journal k \<or> db_journal k' = db_journal k @ [gb_header b])"
proof -
  obtain q where q: "ingestion_commit (gb_header b) k = (q, k')" "r = map_err CoreStore q"
    using assms(2) by (auto simp: ingest_accept_def split: prod.splits)
  have ok: "journal_ok (db_tables k)" using assms(1) by (simp add: db_journal_ok_def)
  note t = ingestion_commit_tables [OF ok q(1)] and c = committed_journal [OF ok, of "gb_header b" "db_tables k'"]
  show ?thesis
  proof (cases q)
    case (Inl e)
    with t have "db_tables k' = db_tables k \<or> committed (gb_header b) (db_tables k) (db_tables k')" by simp
    with c ok Inl q(2) show ?thesis by (elim disjE) (auto simp: db_journal_ok_def db_journal_def)
  next
    case (Inr u)
    with t c q(2) show ?thesis by (auto simp: db_journal_ok_def db_journal_def)
  qed
qed

interpretation ingest: block_sink ingest_accept db_journal db_journal_ok True
proof
  fix k :: db and b :: "'b generic_block" and u k'
  assume "db_journal_ok k" "ingest_accept b k = (Inr u, k')"
  from ingest_accept_journal [OF this]
  show "db_journal_ok k' \<and> db_journal k' \<noteq> [] \<and> last (db_journal k') = gb_header b \<and>
      (db_journal k' = db_journal k @ [gb_header b] \<or> db_journal k' = db_journal k)" by simp
next
  fix k :: db and b :: "'b generic_block" and e k'
  assume "db_journal_ok k" "ingest_accept b k = (Inl e, k')"
  from ingest_accept_journal [OF this]
  show "db_journal_ok k' \<and> (db_journal k' = db_journal k \<or> True \<and> db_journal k' = db_journal k @ [gb_header b])"
    by simp
qed

section \<open>Starting leaves the journal alone\<close>

interpretation keep: table_relation "\<lambda>t t'. tb_journal t' = tb_journal t"
  by unfold_locales simp_all

lemma keeps_verify: "keep.keeps (verify_project p c f a ms)"
  unfolding keep.keeps_def verify_project_def
proof (intro allI impI)
  fix d r d'
  assume "verify_facts (project_facts p c f a) ms d = (r, d')"
  from verify_facts_tables [OF project_facts_distinct this]
  show "tb_journal (db_tables d') = tb_journal (db_tables d)" by (cases r) auto
qed

lemma keeps_load: "keep.keeps ingestion_load"
  unfolding ingestion_load_def by (intro keep.keeps_bind keep.keeps_query keep.keeps_lift)

lemma keeps_setup: "keep.keeps (ingest_setup p)"
  unfolding ingest_setup_def resume_position_def ensure_schema_def checkpoint_ensure_tables_def
    metadata_ensure_table_def checkpoint_load_def ingestion_ensure_table_def
  by (intro keep.keeps_bind keep.keeps_query keep.keeps_lift keeps_verify)

lemma keeps_journal_ok:
  assumes "keep.keeps m" "m d = (r, d')"
  shows "journal (db_tables d') = journal (db_tables d)" "journal_ok (db_tables d') = journal_ok (db_tables d)"
  using keep.keepsD [OF assms] by (simp_all add: journal_def journal_ok_def)

lemma keeps_prepare: "keep.keeps (ingest_prepare p)"
  unfolding ingest_prepare_def by (intro keep.keeps_bind keeps_setup keeps_load)

lemma prepare_stored:
  assumes "journal_ok (db_tables d)" "ingest_prepare p d = (Inr stored, d')"
  shows "stored = (if journal (db_tables d') = [] then None else Some (last (journal (db_tables d'))))"
proof -
  obtain d1 where d1: "ingest_setup p d = (Inr (), d1)" "ingestion_load d1 = (Inr stored, d')"
    using assms(2) by (auto simp: ingest_prepare_def dbind_Inr)
  then obtain r where "db_query latest_row d1 = (Inr r, d')" "decode_latest r = Inr stored"
    by (auto simp: ingestion_load_def dbind_Inr dlift_def)
  then have "decode_latest (latest_row (db_tables d')) = Inr stored" using db_query_Inr by fastforce
  moreover have "journal_ok (db_tables d')"
    using keeps_journal_ok [OF keeps_prepare assms(2)] assms(1) by simp
  ultimately show ?thesis using decode_latest_ok by simp
qed

section \<open>Nothing is owed below the journal\<close>

lemma journal_last_max:
  assumes "journal_ok t" "x \<in> set (journal t)"
  shows "hd_height x \<le> hd_height (last (journal t))"
proof -
  have l: "linked (journal t)" and ne: "journal t \<noteq> []" using assms by (auto simp: journal_ok_def)
  obtain i where i: "i < length (journal t)" "x = journal t ! i" using assms(2) by (metis in_set_conv_nth)
  have "unat (hd_height (last (journal t))) = unat (hd_height (journal t ! 0)) + (length (journal t) - 1)"
    using linked_heights [OF l, of "length (journal t) - 1"] ne by (simp add: last_conv_nth)
  with linked_heights [OF l i(1)] i show ?thesis by (simp add: word_le_nat_alt)
qed

lemma owed_ingest: "owed (ingest_scheduler c p) = open_between plan_new (ingest_start c p)
    (case nc_end_height c of Some e \<Rightarrow> e | None \<Rightarrow> u64_max)"
  by (simp add: owed_def ingest_scheduler_def scheduler_new_def run_limit_def)

lemma position_ahead:
  assumes "journal_ok t"
    "ingest_position canonical c p (if journal t = [] then None else Some (last (journal t))) = Inr (Some s)"
  shows "sched_ok s" "\<forall>h \<in> set (owed s). \<forall>x \<in> set (journal t). hd_height x < h"
    "journal t = [] \<Longrightarrow> s = ingest_scheduler c p" "fs_config s = fs_config (ingest_scheduler c p)"
proof -
  have cases: "journal t = [] \<and> s = ingest_scheduler c p \<or>
      journal t \<noteq> [] \<and> s = resume_from (hd_height (last (journal t))) (ingest_scheduler c p)"
    using assms(2) by (auto simp: ingest_position_def rbind_eq_Inr split: if_splits option.splits)
  then show "sched_ok s" "journal t = [] \<Longrightarrow> s = ingest_scheduler c p"
    "fs_config s = fs_config (ingest_scheduler c p)"
    by (auto simp: ingest_scheduler_def) (auto simp: resume_from_def)
  show "\<forall>h \<in> set (owed s). \<forall>x \<in> set (journal t). hd_height x < h"
  proof (intro ballI)
    fix h x
    assume h: "h \<in> set (owed s)" and x: "x \<in> set (journal t)"
    let ?l = "hd_height (last (journal t))"
    have "?l < h"
      using h x cases by (cases "?l = u64_max")
        (auto simp: owed_def resume_from_def set_open_between saturating_add_one add_one_le_iff)
    with journal_last_max [OF assms(1) x] show "hd_height x < h" by simp
  qed
qed

lemma owed_ingest_hd: "owed (ingest_scheduler c p) \<noteq> [] \<Longrightarrow> hd (owed (ingest_scheduler c p)) = ingest_start c p"
  by (simp add: owed_ingest open_between_def hd_heights_between)

lemma position_range:
  assumes "journal_ok t"
    "ingest_position canonical c p (if journal t = [] then None else Some (last (journal t))) = Inr (Some s)"
  shows "set (owed s) \<subseteq> {ingest_start c p..(case nc_end_height c of Some e \<Rightarrow> e | None \<Rightarrow> u64_max)}"
proof -
  have "s = ingest_scheduler c p \<or> s = resume_from (hd_height (last (journal t))) (ingest_scheduler c p)"
    using assms(2) by (auto simp: ingest_position_def rbind_eq_Inr split: if_splits option.splits)
  then show ?thesis
    by (auto simp: owed_ingest set_open_between)
      (auto simp: owed_def resume_from_def set_open_between ingest_scheduler_def scheduler_new_def run_limit_def
        split: if_splits option.splits)
qed

lemma resumed_owed:
  assumes "journal_ok t" "ingest_position canonical c p (if journal t = [] then None else Some (last (journal t))) = Inr (Some s)"
    "journal t \<noteq> []"
  shows "{hd_height (last (journal t))<..(case nc_end_height c of Some e \<Rightarrow> e | None \<Rightarrow> u64_max)} \<subseteq> set (owed s)"
proof -
  let ?l = "hd_height (last (journal t))"
  have s: "s = resume_from ?l (ingest_scheduler c p)" "ingest_start c p \<le> saturating_add ?l 1"
    using assms(2,3) by (auto simp: ingest_position_def rbind_eq_Inr split: if_splits option.splits)
  show ?thesis
  proof (cases "?l = u64_max")
    case False
    with s show ?thesis
      by (auto simp: owed_def resume_from_def set_open_between ingest_scheduler_def scheduler_new_def run_limit_def
          saturating_add_one add_one_le_iff max_def dest: less_eq_add_one intro: order.trans)
  qed simp
qed

section \<open>The whole run\<close>

text \<open>The three ways a run can go: it fails before the scheduler starts, is shut down while the
  resume point is checked, or the scheduler runs from a position ahead of the journal.\<close>

lemma ingest_run_cases:
  assumes "journal_ok (db_tables d)" "ingest_run canonical ts c p d = (r, d')"
  obtains (early) "journal (db_tables d') = journal (db_tables d)" "journal_ok (db_tables d')"
      "r = Some (Inr ()) \<Longrightarrow> \<exists>h. canonical h = None"
    | (ran) d1 s r1 s' where "journal (db_tables d1) = journal (db_tables d)" "journal_ok (db_tables d1)"
      "ingest_position canonical c p (if journal (db_tables d1) = [] then None
         else Some (last (journal (db_tables d1)))) = Inr (Some s)"
      "run ingest_accept ts s d1 = (r1, s', d')" "r = map_option (map_err IngestCore) r1"
proof -
  obtain q d1 where q: "ingest_prepare p d = (q, d1)" by force
  note k = keeps_journal_ok [OF keeps_prepare q]
  show thesis
  proof (cases q)
    case (Inl e)
    with assms(2) q have "d' = d1" "r = Some (Inl (IngestStore e))" by (simp_all add: ingest_run_def)
    with k assms(1) show thesis by (intro early) simp_all
  next
    case (Inr stored)
    note st = prepare_stored [OF assms(1) q [unfolded Inr]]
    show thesis
    proof (cases "ingest_position canonical c p stored")
      case (Inl e)
      with assms(2) q Inr have "d' = d1" "r = Some (Inl e)" by (simp_all add: ingest_run_def)
      with k assms(1) show thesis by (intro early) simp_all
    next
      case pos: (Inr so)
      show thesis
      proof (cases so)
        case None
        with pos have "\<exists>h. canonical h = None"
          by (auto simp: ingest_position_def rbind_eq_Inr split: option.splits)
        moreover have "d' = d1" using assms(2) q Inr pos None by (simp add: ingest_run_def)
        ultimately show thesis using k assms(1) by (intro early) simp_all
      next
        case (Some s)
        obtain r1 s' d2 where "run ingest_accept ts s d1 = (r1, s', d2)" by (metis prod_cases3)
        with assms q Inr pos Some k st show thesis by (intro ran [of d1 s r1 s']) (simp_all add: ingest_run_def)
      qed
    qed
  qed
qed

lemma ingest_ran:
  assumes "journal_ok (db_tables d1)" "ingest_position canonical c p (if journal (db_tables d1) = [] then None
         else Some (last (journal (db_tables d1)))) = Inr (Some s)"
    "run ingest_accept ts s d1 = (r1, s', d')"
  obtains dn lost where "journal (db_tables d') = journal (db_tables d1) @ dn @ lost"
    "owed s = map hd_height dn @ owed s'" "prefix (map hd_height lost) (owed s')"
    "journal_ok (db_tables d')" "sched_ok s'" "same_run s s'" "(\<forall>e. r1 \<noteq> Some (Inl e)) \<Longrightarrow> lost = []"
proof -
  note pa = position_ahead [OF assms(1,2)]
  have a: "ingest.ahead s d1" using pa(2) by (simp add: ingest.ahead_def db_journal_def)
  have ok: "db_journal_ok d1" using assms(1) by (simp add: db_journal_ok_def)
  note rs = ingest.run_spec [OF pa(1) ok a assms(3)]
  show thesis
    using rs(1-4) that by (auto simp: ingest.delivered_def db_journal_def db_journal_ok_def)
qed

section \<open>Properties\<close>

lemma ingest_run_extends_ok:
  "journal_ok (db_tables d) \<Longrightarrow>
   (case ingest_run canonical ts c p d of
      (r, d') \<Rightarrow> journal_ok (db_tables d') \<and>
        (\<exists>new. journal (db_tables d') = journal (db_tables d) @ new \<and>
           hd_height ` set new \<subseteq> {ingest_start c p..(case nc_end_height c of Some e \<Rightarrow> e | None \<Rightarrow> u64_max)} \<and>
           (journal (db_tables d) = [] \<longrightarrow> new = [] \<or> hd_height (hd new) = ingest_start c p)))"
proof -
  assume ok: "journal_ok (db_tables d)"
  obtain r d' where run: "ingest_run canonical ts c p d = (r, d')" by force
  have "journal_ok (db_tables d') \<and> (\<exists>new. journal (db_tables d') = journal (db_tables d) @ new \<and>
     hd_height ` set new \<subseteq> {ingest_start c p..(case nc_end_height c of Some e \<Rightarrow> e | None \<Rightarrow> u64_max)} \<and>
     (journal (db_tables d) = [] \<longrightarrow> new = [] \<or> hd_height (hd new) = ingest_start c p))"
  proof (cases rule: ingest_run_cases [OF ok run])
    case 1
    then show ?thesis by simp
  next
    case (2 d1 s r1 s')
    obtain dn lost where n: "journal (db_tables d') = journal (db_tables d1) @ dn @ lost"
      "owed s = map hd_height dn @ owed s'" "prefix (map hd_height lost) (owed s')" "journal_ok (db_tables d')"
      by (rule ingest_ran [OF 2(2-4)])
    note pa = position_ahead [OF 2(2,3)]
    have pre: "prefix (map hd_height (dn @ lost)) (owed s)" using n(2,3) by simp
    have "set (owed s) \<subseteq> {ingest_start c p..(case nc_end_height c of Some e \<Rightarrow> e | None \<Rightarrow> u64_max)}"
      by (rule position_range [OF 2(2,3)])
    with pre have rng: "hd_height ` set (dn @ lost) \<subseteq> {ingest_start c p..(case nc_end_height c of Some e \<Rightarrow> e | None \<Rightarrow> u64_max)}"
      by (metis list.set_map set_mono_prefix subset_trans)
    moreover have "dn @ lost = [] \<or> hd_height (hd (dn @ lost)) = ingest_start c p" if "journal (db_tables d) = []"
    proof (cases "dn @ lost = []")
      case False
      then have "hd_height (hd (dn @ lost)) = hd (owed s)"
        using pre by (metis hd_append2 list.map_disc_iff list.map_sel(1) prefixE)
      moreover have "owed s \<noteq> []" using pre False by auto
      ultimately show ?thesis using pa(3) 2(1) that owed_ingest_hd by auto
    qed simp
    ultimately show ?thesis using n(1,4) 2(1) by (intro conjI exI [of _ "dn @ lost"]) auto
  qed
  then show ?thesis using run by simp
qed

text \<open>whatever the chain, the network, the database and the shutdown signal do during a run,
  the journal it leaves is linked and gapless and extends the one it found; every new height is
  within the configured range, and the first header ever ingested is at the start height.\<close>

theorem ingest_run_extends_journal:
  "journal_ok (db_tables d) \<Longrightarrow>
   (case ingest_run canonical ts c p d of
      (r, d') \<Rightarrow> journal_ok (db_tables d') \<and>
        (\<exists>new. journal (db_tables d') = journal (db_tables d) @ new \<and>
           hd_height ` set new \<subseteq> {ingest_start c p..(case nc_end_height c of Some e \<Rightarrow> e | None \<Rightarrow> u64_max)} \<and>
           (journal (db_tables d) = [] \<longrightarrow> new = [] \<or> hd_height (hd new) = ingest_start c p)))"
  by (rule ingest_run_extends_ok)

text \<open>C5: a bounded run that returns \<open>Ok\<close> without a shutdown has ingested everything: every height
  from the first one of the journal (the start height, for a new journal) to the end height is
  in the journal, across restarts.\<close>

theorem ingest_run_complete:
  assumes "journal_ok (db_tables d)" "nc_end_height c = Some e" "nc_batch_size c \<noteq> 0"
    "list_all uncancelled ts" "\<forall>h. canonical h \<noteq> None"
    "ingest_run canonical ts c p d = (Some (Inr ()), d')"
  shows "{(if journal (db_tables d) = [] then ingest_start c p else hd_height (hd (journal (db_tables d))))..e}
    \<subseteq> hd_height ` set (journal (db_tables d'))"
proof (cases rule: ingest_run_cases [OF assms(1,6)])
  case 1
  then obtain h where "canonical h = None" by blast
  with assms(5) show ?thesis by blast
next
  case (2 d1 s r1 s')
  have r1: "r1 = Some (Inr ())" using 2(5) by (cases r1) (auto simp: map_err_def split: sum.splits)
  obtain dn lost where n: "journal (db_tables d') = journal (db_tables d1) @ dn @ lost"
    "owed s = map hd_height dn @ owed s'" "sched_ok s'" "same_run s s'" "lost = []"
    using ingest_ran [OF 2(2-4)] r1 by (metis option.inject sum.distinct(1))
  note pa = position_ahead [OF 2(2,3)]
  have cfg: "batch_size (fs_config s) \<noteq> 0"
    using pa(4) assms(3) by (simp add: ingest_scheduler_def scheduler_new_def)
  have "is_complete s'"
    using 2(4) r1 assms(4) cfg by (auto simp: run_def intro: run_loop_complete)
  then have "owed s' = []"
    using is_complete_owed [OF n(3)] n(4) cfg by (auto simp: same_run_def owed_def)
  then have all: "set (owed s) = hd_height ` set dn" using n(2) by simp
  show ?thesis
  proof (cases "journal (db_tables d) = []")
    case True
    with 2(1) pa(3) have "set (owed s) = {ingest_start c p..e}"
      using assms(2) by (auto simp: owed_ingest set_open_between)
    with all True n(1,5) 2(1) show ?thesis by auto
  next
    case False
    let ?j = "journal (db_tables d)" and ?l = "hd_height (last (journal (db_tables d)))"
    have "{?l<..e} \<subseteq> set (owed s)"
      using resumed_owed [OF 2(2,3)] 2(1) False assms(2) by simp
    moreover have "{hd_height (hd ?j)..?l} = hd_height ` set ?j"
      using linked_map_heights [of ?j] False assms(1) by (simp add: journal_ok_def flip: set_heights_between list.set_map)
    ultimately show ?thesis
      using all n(1,5) 2(1) False by (auto simp: image_Un) (metis (no_types, lifting) atLeastAtMost_iff greaterThanAtMost_iff image_iff not_le subset_iff)
  qed
qed

section \<open>Witnesses\<close>

definition demo_project :: project_identity where
  "demo_project = \<lparr>pi_schema = ''app'', pi_name = ''transfers'', pi_chain_id = ''1'',
     pi_fingerprint = ''f00d'', pi_min_start = 5\<rparr>"

definition demo_node :: node_config where
  "demo_node = (node_config_with_defaults ''.'')\<lparr>nc_end_height := Some 6\<rparr>"

text \<open>The commit of the second block is applied and its answer lost.\<close>

definition demo_faulty :: db where
  "demo_faulty = \<lparr>db_tables = empty_tables,
     db_faults = replicate 37 Fine @ [LostAnswer (Postgres ''connection closed'')]\<rparr>"

definition demo_canonical :: "u64 \<Rightarrow> (chain_error + header) option" where
  "demo_canonical h = Some (Inr (gb_header (demo_block h)))"

lemma demo_first_run:
  "case ingest_run demo_canonical [demo_turn, demo_turn] demo_node demo_project demo_faulty of
     (r, d') \<Rightarrow> r = Some (Inl (IngestCore (CoreStore (Postgres ''connection closed'')))) \<and>
       map hd_height (db_journal d') = [5, 6] \<and> journal_ok (db_tables d')"
  by code_simp

lemma ingest_run_extends_journal_witness:
  "case ingest_run demo_canonical [demo_turn, demo_turn] demo_node demo_project demo_faulty of
     (r, d') \<Rightarrow> r = Some (Inl (IngestCore (CoreStore (Postgres ''connection closed'')))) \<and>
       map hd_height (db_journal d') = [5, 6] \<and>
       (\<exists>new. journal (db_tables d') = journal (db_tables demo_faulty) @ new \<and> hd_height ` set new \<subseteq> {5..6})"
proof -
  have "journal_ok (db_tables demo_faulty)" by (simp add: demo_faulty_def)
  from ingest_run_extends_journal [OF this, where canonical = demo_canonical and ts = "[demo_turn, demo_turn]"
      and c = demo_node and p = demo_project] demo_first_run
  show ?thesis
    by (auto simp: demo_node_def node_config_with_defaults_def ingest_start_def demo_project_def split: prod.splits)
qed

text \<open>The next run finds the block whose answer was lost, and is done.\<close>

lemma ingest_run_complete_witness:
  "\<exists>d'. ingest_run demo_canonical [demo_turn] demo_node demo_project
       (snd (ingest_run demo_canonical [demo_turn, demo_turn] demo_node demo_project demo_faulty)) =
       (Some (Inr ()), d') \<and> {5..6} \<subseteq> hd_height ` set (journal (db_tables d'))"
proof -
  let ?d = "snd (ingest_run demo_canonical [demo_turn, demo_turn] demo_node demo_project demo_faulty)"
  obtain r d' where run: "ingest_run demo_canonical [demo_turn] demo_node demo_project ?d = (r, d')" by force
  have "fst (ingest_run demo_canonical [demo_turn] demo_node demo_project ?d) = Some (Inr ())" by code_simp
  with run have r: "ingest_run demo_canonical [demo_turn] demo_node demo_project ?d = (Some (Inr ()), d')" by simp
  have j: "journal_ok (db_tables ?d)" "map hd_height (journal (db_tables ?d)) = [5, 6]"
    using demo_first_run by (auto simp: db_journal_def split: prod.splits)
  have u: "list_all uncancelled [demo_turn]" by (simp add: uncancelled_def demo_turn_def)
  have n: "nc_end_height demo_node = Some 6" "nc_batch_size demo_node \<noteq> 0"
    by (simp_all add: demo_node_def node_config_with_defaults_def)
  have "\<forall>h. demo_canonical h \<noteq> None" by (simp add: demo_canonical_def)
  from ingest_run_complete [OF j(1) n u this r]
  have "{hd_height (hd (journal (db_tables ?d)))..6} \<subseteq> hd_height ` set (journal (db_tables d'))"
    using j(2) by (auto split: if_splits)
  moreover have "hd_height (hd (journal (db_tables ?d))) = 5" using j(2) by auto
  ultimately show ?thesis using r by simp
qed

end
