(* ===== verification/Sq_EvmFilter.thy ===== *)
theory Sq_EvmFilter
  imports Sq_ChainApi
begin

text \<open>
  Log and transaction filters of an EVM chain, \<open>crates/chains/evm/src/filter.rs\<close>: the
  topic constraints of \<open>eth_getLogs\<close>, the address comparison that ignores the \<open>0x\<close> prefix
  and the case, and the selector test on call data. The lemmas read each test as an equality
  of normal forms (the prefix dropped, the ASCII letters in lower case).
\<close>

section \<open>Comparing hexadecimal strings\<close>

definition strip_0x :: "string \<Rightarrow> string" where
  "strip_0x s = (case strip_prefix ''0x'' s of Some t \<Rightarrow> t | None \<Rightarrow> s)"

definition eq_hex :: "string \<Rightarrow> string \<Rightarrow> bool" where
  "eq_hex a b =
     (let a = strip_0x a; b = strip_0x b
      in length a = length b \<and> eq_ignore_ascii_case a b)"

text \<open>\<open>str::get(..n)\<close>: nothing when \<open>n\<close> is past the end or inside a character, that is when
  the byte at \<open>n\<close> continues one.\<close>

definition str_prefix :: "string \<Rightarrow> nat \<Rightarrow> string option" where
  "str_prefix s n =
     (if n < length s \<and> 128 \<le> (of_char (s ! n) :: nat) \<and> (of_char (s ! n) :: nat) < 192
         \<or> length s < n
      then None else Some (take n s))"

definition input_starts_with_selector :: "string \<Rightarrow> string \<Rightarrow> bool" where
  "input_starts_with_selector input selector =
     (let input = strip_0x input; selector = strip_0x selector
      in if selector = [] \<or> length input < length selector then False
         else case str_prefix input (length selector) of
                None \<Rightarrow> False
              | Some start \<Rightarrow> eq_ignore_ascii_case start selector)"

section \<open>Filters and views\<close>

datatype topic_filter = AnyTopic | OneTopic string | AnyOfTopics "string list"

fun topic_matches :: "topic_filter \<Rightarrow> string \<Rightarrow> bool" where
  "topic_matches AnyTopic topic = True"
| "topic_matches (OneTopic expected) topic = eq_hex expected topic"
| "topic_matches (AnyOfTopics options) topic = list_ex (\<lambda>alt. eq_hex alt topic) options"

record evm_log_filter =
  lf_address :: "string option"
  lf_topics :: "topic_filter list"

record evm_transaction_filter =
  tf_to :: "string option"
  tf_from :: "string option"
  tf_function :: "string option"

record log_view =
  lv_address :: string
  lv_topics :: "string list"

record transaction_view =
  tv_to :: "string option"
  tv_from :: string
  tv_input :: string

fun topics_match :: "nat \<Rightarrow> topic_filter list \<Rightarrow> string list \<Rightarrow> bool" where
  "topics_match position [] topics = True"
| "topics_match position (constraint # rest) topics =
     (if position < length topics then
        if \<not> topic_matches constraint (topics ! position) then False
        else topics_match (Suc position) rest topics
      else
        if constraint \<noteq> AnyTopic then False
        else topics_match (Suc position) rest topics)"

definition log_filter_matches :: "evm_log_filter \<Rightarrow> log_view \<Rightarrow> bool" where
  "log_filter_matches f log =
     (if (case lf_address f of Some expected \<Rightarrow> \<not> eq_hex expected (lv_address log) | None \<Rightarrow> False)
      then False
      else topics_match 0 (lf_topics f) (lv_topics log))"

definition pinned_topic0 :: "evm_log_filter \<Rightarrow> string option" where
  "pinned_topic0 f = (case lf_topics f of OneTopic topic # _ \<Rightarrow> Some topic | _ \<Rightarrow> None)"

definition transaction_filter_matches :: "evm_transaction_filter \<Rightarrow> transaction_view \<Rightarrow> bool" where
  "transaction_filter_matches f tx =
     (if (case tf_to f of
            Some expected \<Rightarrow> (case tv_to tx of Some actual \<Rightarrow> \<not> eq_hex expected actual | None \<Rightarrow> True)
          | None \<Rightarrow> False) then False
      else if (case tf_from f of Some expected \<Rightarrow> \<not> eq_hex expected (tv_from tx) | None \<Rightarrow> False)
      then False
      else if (case tf_function f of
                 Some selector \<Rightarrow> \<not> input_starts_with_selector (tv_input tx) selector
               | None \<Rightarrow> False) then False
      else True)"

section \<open>Normal forms\<close>

definition hex_norm :: "string \<Rightarrow> string" where
  "hex_norm s = map to_ascii_lowercase (strip_0x s)"

lemma eq_hex_norm: "eq_hex a b \<longleftrightarrow> hex_norm a = hex_norm b"
  by (auto simp: eq_hex_def hex_norm_def eq_ignore_ascii_case_def Let_def dest: map_eq_imp_length_eq)

lemma strip_0x_simps [simp]: "strip_0x (''0x'' @ s) = s"
  unfolding strip_0x_def strip_prefix_append by simp

lemma hex_norm_prefix [simp]: "hex_norm (''0x'' @ s) = map to_ascii_lowercase s"
  unfolding hex_norm_def strip_0x_simps ..

lemma topic_matches_norm:
  "topic_matches c t \<longleftrightarrow>
     (case c of AnyTopic \<Rightarrow> True | OneTopic e \<Rightarrow> hex_norm e = hex_norm t
      | AnyOfTopics es \<Rightarrow> hex_norm t \<in> hex_norm ` set es)"
  by (cases c) (auto simp: eq_hex_norm list_ex_iff image_iff intro: sym)

lemma selector_norm:
  "input_starts_with_selector input selector \<Longrightarrow>
     strip_0x selector \<noteq> [] \<and> prefix (hex_norm selector) (hex_norm input)"
proof -
  assume "input_starts_with_selector input selector"
  then have "strip_0x selector \<noteq> []"
    "map to_ascii_lowercase (take (length (strip_0x selector)) (strip_0x input)) = hex_norm selector"
    by (auto simp: input_starts_with_selector_def Let_def str_prefix_def eq_ignore_ascii_case_def
        hex_norm_def split: if_splits)
  then show ?thesis
    by (metis hex_norm_def map_mono_prefix take_is_prefix)
qed

section \<open>What a log filter selects\<close>

text \<open>The values a position admits: \<open>None\<close> is a position the log does not have.\<close>

fun position_allows :: "topic_filter \<Rightarrow> string option \<Rightarrow> bool" where
  "position_allows AnyTopic _ = True"
| "position_allows (OneTopic e) t = (t = Some (hex_norm e))"
| "position_allows (AnyOfTopics es) t = (t \<in> (\<lambda>e. Some (hex_norm e)) ` set es)"

definition topic_at :: "string list \<Rightarrow> nat \<Rightarrow> string option" where
  "topic_at topics i = (if i < length topics then Some (hex_norm (topics ! i)) else None)"

lemma position_allows_Some: "position_allows c (Some (hex_norm t)) = topic_matches c t"
  by (cases c) (auto simp: eq_hex_norm list_ex_iff image_iff intro: sym)

lemma position_allows_None: "position_allows c None \<longleftrightarrow> c = AnyTopic"
  by (cases c) auto

lemma topics_match_iff:
  "topics_match p cs topics \<longleftrightarrow>
     (\<forall>i<length cs. position_allows (cs ! i) (topic_at topics (p + i)))"
proof (induction p cs topics rule: topics_match.induct)
  case (2 p c cs topics)
  have "(\<forall>i<length (c # cs). position_allows ((c # cs) ! i) (topic_at topics (p + i))) \<longleftrightarrow>
      position_allows c (topic_at topics p) \<and>
      (\<forall>i<length cs. position_allows (cs ! i) (topic_at topics (Suc p + i)))"
    by (auto simp: nth_Cons less_Suc_eq_0_disj split: nat.splits)
  with 2 show ?case
    by (auto simp: topic_at_def position_allows_Some position_allows_None)
qed simp

text \<open>C31: A log filter selects exactly the logs whose address equals the filter's, up to the
  prefix and the case, and whose topics satisfy every position: an absent constraint admits
  anything, even a position the log does not have; a value admits itself; a list admits any
  of its members; positions the filter does not name are free.\<close>

theorem log_filter_selects:
  "log_filter_matches f log \<longleftrightarrow>
     (lf_address f = None \<or> map_option hex_norm (lf_address f) = Some (hex_norm (lv_address log))) \<and>
     (\<forall>i<length (lf_topics f). position_allows (lf_topics f ! i) (topic_at (lv_topics log) i))"
  by (auto simp: log_filter_matches_def topics_match_iff eq_hex_norm split: option.splits)

definition demo_log_filter :: evm_log_filter where
  "demo_log_filter = \<lparr>lf_address = Some ''0xAb'', lf_topics = [AnyTopic, AnyOfTopics [''0x1'', ''0xF''], AnyTopic]\<rparr>"

definition demo_log :: log_view where
  "demo_log = \<lparr>lv_address = ''0xaB'', lv_topics = [''0x9'', ''0xf'']\<rparr>"

lemma demo_hex:
  "hex_norm ''0xAb'' = ''ab''" "hex_norm ''0xaB'' = ''ab''" "hex_norm ''0xF'' = ''f''"
  "hex_norm ''0xf'' = ''f''" "hex_norm ''0x1'' = ''1''"
  by code_simp+

theorem log_filter_selects_witness:
  "log_filter_matches demo_log_filter demo_log \<and>
   \<not> log_filter_matches demo_log_filter (demo_log\<lparr>lv_topics := [''0x9'']\<rparr>)"
  unfolding log_filter_selects
  by (simp add: demo_log_filter_def demo_log_def demo_hex less_Suc_eq numeral_2_eq_2 topic_at_def)

text \<open>The pushdown is sound: a log that a filter selects carries, as its first topic, the
  topic the filter pins, so asking the endpoint or a dictionary for that topic alone loses
  nothing.\<close>

theorem pinned_topic0_sound:
  assumes "log_filter_matches f log" "pinned_topic0 f = Some t"
  shows "topic_at (lv_topics log) 0 = Some (hex_norm t)"
proof -
  obtain cs where "lf_topics f = OneTopic t # cs"
    using assms(2) by (auto simp: pinned_topic0_def split: list.splits topic_filter.splits)
  with assms(1) show ?thesis
    by (auto simp: log_filter_matches_def topics_match_iff split: if_splits)
qed

theorem pinned_topic0_sound_witness:
  "topic_at [''0xAA'', ''0x01''] 0 = Some (hex_norm ''0xaA'')"
  using pinned_topic0_sound [of "\<lparr>lf_address = None, lf_topics = [OneTopic ''0xaA'', AnyTopic]\<rparr>"
      "\<lparr>lv_address = ''0x1'', lv_topics = [''0xAA'', ''0x01'']\<rparr>" "''0xaA''"]
  by code_simp

section \<open>What a transaction filter selects\<close>

lemma transaction_filter_iff:
  "transaction_filter_matches f tx \<longleftrightarrow>
     (\<forall>e. tf_to f = Some e \<longrightarrow> (\<exists>a. tv_to tx = Some a \<and> hex_norm e = hex_norm a)) \<and>
     (\<forall>e. tf_from f = Some e \<longrightarrow> hex_norm e = hex_norm (tv_from tx)) \<and>
     (\<forall>s. tf_function f = Some s \<longrightarrow> input_starts_with_selector (tv_input tx) s)"
  by (auto simp: transaction_filter_matches_def eq_hex_norm split: option.splits)

lemma creation_never_matches_recipient:
  "tf_to f = Some e \<Longrightarrow> tv_to tx = None \<Longrightarrow> \<not> transaction_filter_matches f tx"
  by (simp add: transaction_filter_iff)

lemma empty_filters_match:
  "log_filter_matches \<lparr>lf_address = None, lf_topics = []\<rparr> log"
  "transaction_filter_matches \<lparr>tf_to = None, tf_from = None, tf_function = None\<rparr> tx"
  by (simp_all add: log_filter_matches_def transaction_filter_matches_def)

section \<open>Only hexadecimal text selects anything\<close>

definition is_hex_digit :: "char \<Rightarrow> bool" where
  "is_hex_digit c = (to_digit 16 c \<noteq> None)"

definition is_hex :: "string \<Rightarrow> bool" where
  "is_hex s = list_all is_hex_digit s"

lemma is_hex_digit_lower [simp]: "is_hex_digit (to_ascii_lowercase c) = is_hex_digit c"
proof -
  have "(of_char c :: nat) < 256" by simp
  then show ?thesis
    by (auto simp: is_hex_digit_def to_digit_def to_ascii_lowercase_def is_ascii_uppercase_def Let_def
        split: if_splits)
qed

lemma is_hex_norm: "is_hex (hex_norm s) = is_hex (strip_0x s)"
  by (simp add: is_hex_def hex_norm_def list.pred_map comp_def)

lemma not_hex_digit_paren [simp]: "\<not> is_hex_digit CHR ''(''"
  by code_simp

text \<open>The documentation of the filters lets a topic be an event signature and the function
  of a transaction filter be a function signature. No log whose topics are the hexadecimal
  strings the decoder produces matches a position holding such a signature, and no call data
  begins with one: a filter written that way selects nothing.\<close>

theorem signatures_select_nothing:
  assumes "CHR ''('' \<in> set (strip_0x sig)" "is_hex (strip_0x topic)" "is_hex (strip_0x input)"
  shows "\<not> topic_matches (OneTopic sig) topic \<and> \<not> input_starts_with_selector input sig"
proof -
  have nothex: "\<not> is_hex (strip_0x sig)" "\<not> is_hex (hex_norm sig)"
    unfolding is_hex_norm using assms(1) not_hex_digit_paren
    unfolding is_hex_def list_all_iff by blast+
  have "hex_norm sig \<noteq> hex_norm topic"
    using assms(2) nothex is_hex_norm by metis
  moreover have "\<not> prefix (hex_norm sig) (hex_norm input)"
    using assms(3) nothex is_hex_norm [of input]
    by (auto simp: prefix_def is_hex_def list_all_append)
  ultimately show ?thesis
    using selector_norm by (auto simp: topic_matches_norm)
qed

theorem signatures_select_nothing_witness:
  "\<not> topic_matches (OneTopic ''Transfer(address)'') ''0xddf252ad'' \<and>
   \<not> input_starts_with_selector ''0xa9059cbb00'' ''Transfer(address)''"
  using signatures_select_nothing [of "''Transfer(address)''" "''0xddf252ad''" "''0xa9059cbb00''"]
  by code_simp

end
