(* ===== verification/Sq_EvmDecode.thy ===== *)
theory Sq_EvmDecode
  imports Sq_EvmFilter "HOL-Library.Multiset"
begin

text \<open>
  Blocks of an EVM chain and their decoding from RPC responses,
  \<open>crates/chains/evm/src/block.rs\<close>, \<open>decode.rs\<close> and the quantity reader of \<open>rpc.rs\<close>. The
  parsers of 32-byte words, addresses, byte strings and 256-bit integers (alloy) and the
  conversion of a Unix time to a date (chrono) are the parameter \<open>evm_codec\<close>: each field is
  the parser followed by the printing the code applies to its result.
\<close>

section \<open>Blocks, transactions and logs\<close>

record evm_transaction =
  et_hash :: string
  et_index :: u64
  et_from :: string
  et_to :: "string option"
  et_value :: string
  et_input :: string

record evm_log =
  el_address :: string
  el_topics :: "string list"
  el_data :: string
  el_log_index :: u64
  el_transaction_hash :: string
  el_transaction_index :: u64

record evm_block =
  eb_number :: u64
  eb_hash :: string
  eb_parent_hash :: string
  eb_timestamp :: u64
  eb_transactions :: "evm_transaction list"
  eb_logs :: "evm_log list"

record evm_event =
  ee_log :: evm_log
  ee_transaction :: "evm_transaction option"
  ee_block_number :: u64

record evm_codec =
  cd_b256 :: "string \<Rightarrow> string option"
  cd_address :: "string \<Rightarrow> string option"
  cd_bytes :: "string \<Rightarrow> string option"
  cd_u256 :: "string \<Rightarrow> string option"
  cd_timestamp :: "int \<Rightarrow> int option"

text \<open>\<open>timestamp as i64\<close> reinterprets the word.\<close>

definition evm_block_header :: "evm_codec \<Rightarrow> evm_block \<Rightarrow> header" where
  "evm_block_header cd b =
     \<lparr>hd_height = eb_number b, hd_hash = eb_hash b, hd_parent_hash = Some (eb_parent_hash b),
      hd_timestamp = cd_timestamp cd (sint (eb_timestamp b))\<rparr>"

definition transaction_view_of :: "evm_transaction \<Rightarrow> transaction_view" where
  "transaction_view_of t = \<lparr>tv_to = et_to t, tv_from = et_from t, tv_input = et_input t\<rparr>"

definition log_view_of :: "evm_log \<Rightarrow> log_view" where
  "log_view_of l = \<lparr>lv_address = el_address l, lv_topics = el_topics l\<rparr>"

definition topic0 :: "evm_log \<Rightarrow> string option" where
  "topic0 l = (case el_topics l of [] \<Rightarrow> None | t # _ \<Rightarrow> Some t)"

section \<open>Decoding fields\<close>

definition opt_bind :: "'a option \<Rightarrow> ('a \<Rightarrow> 'b option) \<Rightarrow> 'b option" where
  "opt_bind r f = (case r of None \<Rightarrow> None | Some a \<Rightarrow> f a)"

lemma opt_bind_simps [simp]: "opt_bind None f = None" "opt_bind (Some a) f = f a"
  by (simp_all add: opt_bind_def)

lemma opt_bind_eq_Some: "opt_bind r f = Some b \<longleftrightarrow> (\<exists>a. r = Some a \<and> f a = Some b)"
  by (cases r) simp_all

definition quantity_text :: "json \<Rightarrow> string option" where
  "quantity_text v =
     opt_bind (opt_bind (json_as_str v) (strip_prefix ''0x''))
       (\<lambda>s. if s \<noteq> [] \<and> (length s = 1 \<or> hd s \<noteq> CHR ''0'') then Some s else None)"

definition quantity :: "json \<Rightarrow> chain_error + u64" where
  "quantity v =
     rbind (ok_or (quantity_text v) (ChainDecode ''invalid RPC quantity''))
       (\<lambda>raw. ok_or (from_str_radix 16 raw) (ChainDecode ''RPC quantity exceeds u64''))"

definition decode_hash :: "evm_codec \<Rightarrow> json \<Rightarrow> chain_error + string" where
  "decode_hash cd v = ok_or (opt_bind (json_as_str v) (cd_b256 cd)) (ChainDecode ''invalid block or transaction hash'')"

definition decode_address :: "evm_codec \<Rightarrow> json \<Rightarrow> chain_error + string" where
  "decode_address cd v = ok_or (opt_bind (json_as_str v) (cd_address cd)) (ChainDecode ''invalid EVM address'')"

definition decode_bytes :: "evm_codec \<Rightarrow> json \<Rightarrow> chain_error + string" where
  "decode_bytes cd v = ok_or (opt_bind (json_as_str v) (cd_bytes cd)) (ChainDecode ''invalid RPC byte string'')"

definition i64_try_from :: "u64 \<Rightarrow> int option" where
  "i64_try_from n = (if n \<le> i64_max then Some (uint n) else None)"

definition decode_header :: "evm_codec \<Rightarrow> json \<Rightarrow> u64 \<Rightarrow> chain_error + header" where
  "decode_header cd v expected =
     (if v = JNull then Inl (BlockUnavailable expected)
      else rbind (quantity (json_index v ''number'')) (\<lambda>height.
        if height \<noteq> expected then Inl (ChainDecode ''RPC returned the wrong height'')
        else rbind (quantity (json_index v ''timestamp'')) (\<lambda>seconds.
          rbind (ok_or (opt_bind (i64_try_from seconds) (cd_timestamp cd)) (ChainDecode ''invalid block timestamp'')) (\<lambda>timestamp.
          rbind (decode_hash cd (json_index v ''hash'')) (\<lambda>h.
          rbind (decode_hash cd (json_index v ''parentHash'')) (\<lambda>parent.
            Inr \<lparr>hd_height = height, hd_hash = h, hd_parent_hash = Some parent,
                 hd_timestamp = Some timestamp\<rparr>))))))"

section \<open>Decoding a block\<close>

definition mismatch :: chain_error where
  "mismatch = ChainDecode ''inconsistent block, transaction or log identity''"

definition decode_transaction ::
  "evm_codec \<Rightarrow> u64 \<Rightarrow> string \<Rightarrow> nat \<Rightarrow> string list \<Rightarrow> json \<Rightarrow> chain_error + evm_transaction" where
  "decode_transaction cd expected block_hash index hashes tx =
     rbind (decode_hash cd (json_index tx ''hash'')) (\<lambda>tx_hash.
     rbind (quantity (json_index tx ''transactionIndex'')) (\<lambda>i.
     if i \<noteq> of_nat index then Inl mismatch else
     rbind (quantity (json_index tx ''blockNumber'')) (\<lambda>n.
     if n \<noteq> expected then Inl mismatch else
     rbind (decode_hash cd (json_index tx ''blockHash'')) (\<lambda>bh.
     if bh \<noteq> block_hash \<or> tx_hash \<in> set hashes then Inl mismatch else
     rbind (ok_or (json_as_str (json_index tx ''value'')) mismatch) (\<lambda>raw_value.
     rbind (ok_or (cd_u256 cd raw_value) mismatch) (\<lambda>value.
     rbind (decode_address cd (json_index tx ''from'')) (\<lambda>sender.
     rbind (if json_index tx ''to'' = JNull then Inr None
            else rbind (decode_address cd (json_index tx ''to'')) (\<lambda>a. Inr (Some a))) (\<lambda>recipient.
     rbind (decode_bytes cd (json_index tx ''input'')) (\<lambda>input.
       Inr \<lparr>et_hash = tx_hash, et_index = of_nat index, et_from = sender, et_to = recipient,
            et_value = value, et_input = input\<rparr>)))))))))"

text \<open>The loop over the transactions; \<open>hashes\<close> is the set of those already seen.\<close>

fun decode_transactions ::
  "evm_codec \<Rightarrow> u64 \<Rightarrow> string \<Rightarrow> nat \<Rightarrow> string list \<Rightarrow> json list \<Rightarrow> chain_error + evm_transaction list" where
  "decode_transactions cd expected block_hash index hashes [] = Inr []"
| "decode_transactions cd expected block_hash index hashes (tx # txs) =
     rbind (decode_transaction cd expected block_hash index hashes tx) (\<lambda>t.
     rbind (decode_transactions cd expected block_hash (Suc index) (et_hash t # hashes) txs) (\<lambda>ts.
       Inr (t # ts)))"

definition decode_log ::
  "evm_codec \<Rightarrow> u64 \<Rightarrow> string \<Rightarrow> evm_transaction list \<Rightarrow> json \<Rightarrow> chain_error + evm_log" where
  "decode_log cd expected block_hash transactions log =
     rbind (quantity (json_index log ''transactionIndex'')) (\<lambda>tx_index.
     rbind (ok_or (if unat tx_index < length transactions
              then Some (transactions ! unat tx_index) else None) mismatch) (\<lambda>tx.
     if json_as_bool (json_index log ''removed'') \<noteq> Some False then Inl mismatch else
     rbind (decode_hash cd (json_index log ''blockHash'')) (\<lambda>bh.
     if bh \<noteq> block_hash then Inl mismatch else
     rbind (quantity (json_index log ''blockNumber'')) (\<lambda>n.
     if n \<noteq> expected then Inl mismatch else
     rbind (decode_hash cd (json_index log ''transactionHash'')) (\<lambda>th.
     if th \<noteq> et_hash tx then Inl mismatch else
     rbind (ok_or (json_as_array (json_index log ''topics'')) mismatch) (\<lambda>raw_topics.
     rbind (collect (decode_hash cd) raw_topics) (\<lambda>topics.
     if 4 < length topics then Inl mismatch else
     rbind (decode_address cd (json_index log ''address'')) (\<lambda>address.
     rbind (decode_bytes cd (json_index log ''data'')) (\<lambda>bytes.
     rbind (quantity (json_index log ''logIndex'')) (\<lambda>log_index.
       Inr \<lparr>el_address = address, el_topics = topics, el_data = bytes, el_log_index = log_index,
            el_transaction_hash = et_hash tx, el_transaction_index = tx_index\<rparr>))))))))))"

definition log_indices_contiguous :: "evm_log list \<Rightarrow> bool" where
  "log_indices_contiguous logs =
     list_all (\<lambda>(index, log). el_log_index log = of_nat index) (enumerate 0 logs)"

definition decode_block :: "evm_codec \<Rightarrow> json \<Rightarrow> json \<Rightarrow> u64 \<Rightarrow> chain_error + evm_block" where
  "decode_block cd v logs expected =
     rbind (decode_header cd v expected) (\<lambda>h.
     rbind (ok_or (json_as_array (json_index v ''transactions'')) mismatch) (\<lambda>raw_txs.
     rbind (decode_transactions cd expected (hd_hash h) 0 [] raw_txs) (\<lambda>transactions.
     rbind (ok_or (json_as_array logs) mismatch) (\<lambda>raw_logs.
     rbind (collect (decode_log cd expected (hd_hash h) transactions) raw_logs) (\<lambda>decoded.
     let decoded_logs = sort_key el_log_index decoded in
     if \<not> log_indices_contiguous decoded_logs then Inl mismatch else
     rbind (ok_or (hd_parent_hash h) mismatch) (\<lambda>parent.
     rbind (quantity (json_index v ''timestamp'')) (\<lambda>timestamp.
       Inr \<lparr>eb_number = expected, eb_hash = hd_hash h, eb_parent_hash = parent,
            eb_timestamp = timestamp, eb_transactions = transactions,
            eb_logs = decoded_logs\<rparr>)))))))"

section \<open>Quantities\<close>

lemma quantity_text_prefixed:
  "quantity_text (JString (''0x'' @ s)) =
     (if s \<noteq> [] \<and> (length s = 1 \<or> hd s \<noteq> CHR ''0'') then Some s else None)"
  unfolding quantity_text_def json_as_str_def json.simps opt_bind_simps strip_prefix_append ..

text \<open>A height printed for a request is read back as the same height: the quantity reader
  inverts the hexadecimal printing of every 64-bit integer.\<close>

theorem quantity_roundtrip: "quantity (JString (''0x'' @ show_hex n)) = Inr n"
proof -
  have "quantity_text (JString (''0x'' @ show_hex n)) = Some (show_hex n)"
  proof (cases "n = 0")
    case True
    then have "show_hex n = [from_digit 0]"
      by (simp add: show_hex_def show_radix.simps [of 16 0])
    then show ?thesis unfolding quantity_text_prefixed by simp
  next
    case False
    then have "hd (show_hex n) \<noteq> CHR ''0''"
      unfolding show_hex_def by (intro hd_show_radix_zero) (simp_all add: unat_eq_0)
    then show ?thesis unfolding quantity_text_prefixed by (simp add: show_hex_def)
  qed
  then show ?thesis
    by (simp add: quantity_def show_hex_def from_str_radix_show)
qed

text \<open>A quantity is documented as canonical hexadecimal, but the integer parser beneath
  the reader takes a plus sign, which also hides leading zeros from the test for them: the
  reader accepts texts that are no quantities.\<close>

theorem quantity_accepts_sign: "quantity (JString (''0x+'' @ show_hex n)) = Inr n"
proof -
  have "quantity_text (JString (''0x'' @ CHR ''+'' # show_hex n)) = Some (CHR ''+'' # show_hex n)"
    unfolding quantity_text_prefixed by simp
  moreover have "from_str_radix 16 (CHR ''+'' # show_hex n) = Some n"
    unfolding from_str_radix_def Let_def list.case show_hex_def
    using digits_value_show [of 16 "unat n"] unat_u64_bound [of n]
    by simp
  ultimately show ?thesis
    by (simp add: quantity_def)
qed

section \<open>What a decoded block is\<close>

lemma decode_header_Inr:
  "decode_header cd v h = Inr head \<Longrightarrow>
     hd_height head = h \<and>
     (\<exists>parent seconds. hd_parent_hash head = Some parent \<and>
        quantity (json_index v ''timestamp'') = Inr seconds \<and> seconds \<le> i64_max \<and>
        hd_timestamp head = cd_timestamp cd (uint seconds))"
  by (auto simp: decode_header_def rbind_eq_Inr opt_bind_eq_Some i64_try_from_def split: if_splits)

lemma decode_transaction_Inr:
  "decode_transaction cd e bh k hs tx = Inr t \<Longrightarrow> et_index t = of_nat k \<and> et_hash t \<notin> set hs"
  by (auto simp: decode_transaction_def rbind_eq_Inr split: if_splits)

lemma decode_transactions_Inr:
  "decode_transactions cd e bh k hs txs = Inr ts \<Longrightarrow>
     length ts = length txs \<and> map et_index ts = map of_nat [k..<k + length ts] \<and>
     distinct (map et_hash ts) \<and> set (map et_hash ts) \<inter> set hs = {}"
proof (induction txs arbitrary: k hs ts)
  case (Cons tx txs)
  from Cons.prems obtain t ts' where t: "decode_transaction cd e bh k hs tx = Inr t"
    and ts': "decode_transactions cd e bh (Suc k) (et_hash t # hs) txs = Inr ts'"
    and ts: "ts = t # ts'"
    by (auto simp: rbind_eq_Inr)
  from Cons.IH [OF ts'] decode_transaction_Inr [OF t] show ?case
    unfolding ts by (auto simp: upt_conv_Cons simp del: upt_Suc)
qed simp

lemma decode_log_Inr:
  "decode_log cd e bh txs log = Inr l \<Longrightarrow>
     unat (el_transaction_index l) < length txs \<and>
     el_transaction_hash l = et_hash (txs ! unat (el_transaction_index l)) \<and>
     length (el_topics l) \<le> 4"
  by (auto simp: decode_log_def rbind_eq_Inr not_less split: if_splits)

lemma log_indices_contiguous_iff:
  "log_indices_contiguous logs \<longleftrightarrow> map el_log_index logs = map of_nat [0..<length logs]"
proof -
  have "log_indices_contiguous logs \<longleftrightarrow> (\<forall>i<length logs. el_log_index (logs ! i) = of_nat i)"
    by (simp add: log_indices_contiguous_def list_all_length nth_enumerate_eq)
  also have "\<dots> \<longleftrightarrow> map el_log_index logs = map of_nat [0..<length logs]"
    by (simp add: list_eq_iff_nth_eq [of "map el_log_index logs"])
  finally show ?thesis .
qed

text \<open>The block, as a value: transactions and logs are numbered by their positions, no
  transaction hash occurs twice and each log names the transaction that emitted it.\<close>

definition block_well_formed :: "evm_block \<Rightarrow> bool" where
  "block_well_formed b =
     (map et_index (eb_transactions b) = map of_nat [0..<length (eb_transactions b)] \<and>
      distinct (map et_hash (eb_transactions b)) \<and>
      map el_log_index (eb_logs b) = map of_nat [0..<length (eb_logs b)] \<and>
      list_all (\<lambda>l. unat (el_transaction_index l) < length (eb_transactions b) \<and>
         el_transaction_hash l = et_hash (eb_transactions b ! unat (el_transaction_index l)) \<and>
         length (el_topics l) \<le> 4) (eb_logs b))"

lemma decode_block_elim:
  assumes "decode_block cd v logs h = Inr b"
  obtains head parent raw_txs raw_logs decoded seconds where
    "decode_header cd v h = Inr head" "hd_parent_hash head = Some parent"
    "json_as_array (json_index v ''transactions'') = Some raw_txs"
    "decode_transactions cd h (hd_hash head) 0 [] raw_txs = Inr (eb_transactions b)"
    "json_as_array logs = Some raw_logs"
    "collect (decode_log cd h (hd_hash head) (eb_transactions b)) raw_logs = Inr decoded"
    "eb_logs b = sort_key el_log_index decoded" "log_indices_contiguous (eb_logs b)"
    "quantity (json_index v ''timestamp'') = Inr seconds"
    "b = \<lparr>eb_number = h, eb_hash = hd_hash head, eb_parent_hash = parent, eb_timestamp = seconds,
          eb_transactions = eb_transactions b, eb_logs = eb_logs b\<rparr>"
proof -
  from assms obtain head raw_txs txs raw_logs decoded parent seconds where
    "decode_header cd v h = Inr head" "json_as_array (json_index v ''transactions'') = Some raw_txs"
    "decode_transactions cd h (hd_hash head) 0 [] raw_txs = Inr txs"
    "json_as_array logs = Some raw_logs"
    "collect (decode_log cd h (hd_hash head) txs) raw_logs = Inr decoded"
    "log_indices_contiguous (sort_key el_log_index decoded)"
    "hd_parent_hash head = Some parent" "quantity (json_index v ''timestamp'') = Inr seconds"
    "b = \<lparr>eb_number = h, eb_hash = hd_hash head, eb_parent_hash = parent, eb_timestamp = seconds,
          eb_transactions = txs, eb_logs = sort_key el_log_index decoded\<rparr>"
    unfolding decode_block_def rbind_eq_Inr Let_def ok_or_eq_Inr
    by (auto simp: rbind_eq_Inr split: if_splits)
  then show ?thesis by (intro that) simp_all
qed

lemma decoded_logs_from_raw:
  "collect (decode_log cd h bh txs) raw = Inr ls \<Longrightarrow> l \<in> set ls \<Longrightarrow>
     \<exists>r\<in>set raw. decode_log cd h bh txs r = Inr l"
  by (force simp: collect_Inr_iff list_all2_conv_all_nth in_set_conv_nth)

lemma decode_block_ok:
  assumes "decode_block cd v (JArray raw_logs) h = Inr b"
  shows "eb_number b = h \<and> block_well_formed b \<and> length (eb_logs b) = length raw_logs \<and>
    json_as_array (json_index v ''transactions'') \<noteq> None \<and>
    length (eb_transactions b) = length (the (json_as_array (json_index v ''transactions'')))"
  using assms
proof (rule decode_block_elim)
  fix head parent raw_txs raw decoded seconds
  assume txs: "decode_transactions cd h (hd_hash head) 0 [] raw_txs = Inr (eb_transactions b)"
    and raw_txs: "json_as_array (json_index v ''transactions'') = Some raw_txs"
    and raw: "json_as_array (JArray raw_logs) = Some raw"
    and decoded: "collect (decode_log cd h (hd_hash head) (eb_transactions b)) raw = Inr decoded"
    and logs: "eb_logs b = sort_key el_log_index decoded" "log_indices_contiguous (eb_logs b)"
    and b: "b = \<lparr>eb_number = h, eb_hash = hd_hash head, eb_parent_hash = parent, eb_timestamp = seconds,
          eb_transactions = eb_transactions b, eb_logs = eb_logs b\<rparr>"
  have "raw = raw_logs" using raw by (simp add: json_as_array_def)
  with decoded have "length decoded = length raw_logs" by (auto dest: collect_length)
  moreover have "list_all (\<lambda>l. unat (el_transaction_index l) < length (eb_transactions b) \<and>
         el_transaction_hash l = et_hash (eb_transactions b ! unat (el_transaction_index l)) \<and>
         length (el_topics l) \<le> 4) (eb_logs b)"
    unfolding list_all_iff logs(1) set_sort
    using decoded_logs_from_raw [OF decoded] decode_log_Inr by blast
  moreover have "eb_number b = h" by (subst b) simp
  ultimately show ?thesis
    using decode_transactions_Inr [OF txs] raw_txs logs
    by (simp add: block_well_formed_def log_indices_contiguous_iff)
qed

text \<open>C10: A block that decodes is well formed and complete: it has the height asked for, its
  transactions and logs are numbered from zero without gaps, transaction hashes are
  distinct, every log names an existing transaction with that transaction's own hash and
  has at most four topics, and no transaction or log of the response is lost.\<close>

theorem decode_block_well_formed:
  assumes "decode_block cd v (JArray raw_logs) h = Inr b"
  shows "eb_number b = h \<and> block_well_formed b \<and> length (eb_logs b) = length raw_logs \<and>
    json_as_array (json_index v ''transactions'') \<noteq> None \<and>
    length (eb_transactions b) = length (the (json_as_array (json_index v ''transactions'')))"
  by (rule decode_block_ok [OF assms])

definition demo_codec :: evm_codec where
  "demo_codec = \<lparr>cd_b256 = (\<lambda>s. if take 2 s = ''0x'' then Some s else None),
     cd_address = (\<lambda>s. if take 2 s = ''0x'' then Some s else None),
     cd_bytes = (\<lambda>s. if take 2 s = ''0x'' then Some s else None),
     cd_u256 = (\<lambda>s. Some s), cd_timestamp = (\<lambda>t. Some t)\<rparr>"

definition demo_raw_block :: json where
  "demo_raw_block = JObject
     [(''number'', JString ''0x2''), (''hash'', JString ''0xb2''), (''parentHash'', JString ''0xb1''),
      (''timestamp'', JString ''0x1234''),
      (''transactions'', JArray [JObject
         [(''hash'', JString ''0xc0''), (''blockHash'', JString ''0xb2''), (''blockNumber'', JString ''0x2''),
          (''transactionIndex'', JString ''0x0''), (''from'', JString ''0xa0''), (''to'', JNull),
          (''value'', JString ''0x1''), (''input'', JString ''0x'')]])]"

definition demo_raw_log :: "string \<Rightarrow> json" where
  "demo_raw_log i = JObject
     [(''blockHash'', JString ''0xb2''), (''blockNumber'', JString ''0x2''),
      (''transactionHash'', JString ''0xc0''), (''transactionIndex'', JString ''0x0''),
      (''logIndex'', JString i), (''removed'', JBool False), (''address'', JString ''0xa1''),
      (''topics'', JArray [JString ''0xdd'']), (''data'', JString ''0x'')]"

definition demo_evm_log :: "u64 \<Rightarrow> evm_log" where
  "demo_evm_log i = \<lparr>el_address = ''0xa1'', el_topics = [''0xdd''], el_data = ''0x'', el_log_index = i,
     el_transaction_hash = ''0xc0'', el_transaction_index = 0\<rparr>"

definition demo_evm_block :: evm_block where
  "demo_evm_block = \<lparr>eb_number = 2, eb_hash = ''0xb2'', eb_parent_hash = ''0xb1'', eb_timestamp = 4660,
     eb_transactions = [\<lparr>et_hash = ''0xc0'', et_index = 0, et_from = ''0xa0'', et_to = None,
       et_value = ''0x1'', et_input = ''0x''\<rparr>],
     eb_logs = [demo_evm_log 0, demo_evm_log 1]\<rparr>"

lemma demo_quantities:
  "quantity (JString ''0x0'') = Inr 0" "quantity (JString ''0x1'') = Inr 1"
  "quantity (JString ''0x2'') = Inr 2" "quantity (JString ''0x1234'') = Inr 4660"
  by (simp_all add: quantity_def quantity_text_def json_as_str_def strip_prefix_def
      from_str_radix_def to_digit_def)

lemma demo_decode_block:
  "decode_block demo_codec demo_raw_block (JArray [demo_raw_log ''0x1'', demo_raw_log ''0x0'']) 2 =
     Inr demo_evm_block"
  by (simp add: decode_block_def decode_header_def decode_transaction_def decode_log_def
      decode_hash_def decode_address_def decode_bytes_def json_defs demo_codec_def
      demo_raw_block_def demo_raw_log_def demo_quantities demo_evm_block_def demo_evm_log_def
      i64_try_from_def i64_max_def log_indices_contiguous_def)

theorem decode_block_well_formed_witness:
  "block_well_formed demo_evm_block \<and> length (eb_logs demo_evm_block) = 2"
  using decode_block_well_formed [OF demo_decode_block] by simp

section \<open>The order of the logs in the response\<close>

lemma collect_mset:
  assumes "collect f xs = Inr ys" "mset xs' = mset xs"
  shows "\<exists>ys'. collect f xs' = Inr ys' \<and> mset ys' = mset ys"
proof -
  have g: "f x = Inr (projr (f x))" if "x \<in> set xs" for x
    using assms(1) that
    by (force simp: collect_Inr_iff list_all2_conv_all_nth in_set_conv_nth)
  then have "collect f xs = Inr (map (projr \<circ> f) xs)"
    using collect_all_Inr [of xs f "projr \<circ> f"] by auto
  moreover have "collect f xs' = Inr (map (projr \<circ> f) xs')"
    using g mset_eq_setD [OF assms(2)] by (intro collect_all_Inr) auto
  ultimately show ?thesis
    using assms by auto
qed

lemma sorted_positions_distinct:
  assumes "sorted ks" "ks = map of_nat [0..<length ks]"
  shows "distinct (ks :: u64 list)"
proof -
  have nth: "ks ! i = of_nat i" if "i < length ks" for i
    using that by (subst assms(2)) simp
  have "length ks \<le> 2 ^ 64"
  proof (rule ccontr)
    assume "\<not> length ks \<le> 2 ^ 64"
    then have "ks ! 1 \<le> ks ! (2 ^ 64)"
      by (intro sorted_nth_mono [OF assms(1)]) simp_all
    moreover have "ks ! 1 = 1" "ks ! (2 ^ 64) = 0"
      using nth [of 1] nth [of "2 ^ 64"] \<open>\<not> length ks \<le> 2 ^ 64\<close>
      by (simp_all del: of_nat_numeral add: word_of_nat_eq_0_iff)
    ultimately show False by simp
  qed
  then have "i = j" if "i < length ks" "j < length ks" "(of_nat i :: u64) = of_nat j" for i j
    using that by (simp add: word_unat_eq_iff unat_of_nat)
  then show ?thesis
    by (auto simp: distinct_conv_nth nth)
qed

lemma contiguous_unique_sort:
  assumes "mset ls = mset ls'" "log_indices_contiguous (sort_key el_log_index ls)"
  shows "sort_key el_log_index ls' = sort_key el_log_index ls"
proof (rule sort_key_inj_key_eq)
  have "distinct (map el_log_index (sort_key el_log_index ls))"
    using assms(2) unfolding log_indices_contiguous_iff
    by (intro sorted_positions_distinct sorted_sort_key) simp
  then have "inj_on el_log_index (set ls)"
    by (simp add: distinct_map)
  then show "inj_on el_log_index (set ls')"
    using mset_eq_setD [OF assms(1)] by simp
qed (simp_all add: assms(1))

text \<open>The order in which an endpoint lists the logs of a block does not matter: any
  rearrangement of a response that decodes decodes to the same block.\<close>

theorem log_order_irrelevant:
  assumes "decode_block cd v (JArray raw) h = Inr b" "mset raw' = mset raw"
  shows "decode_block cd v (JArray raw') h = Inr b"
  using assms(1)
proof (rule decode_block_elim)
  fix head parent raw_txs rl ls seconds
  assume ok: "decode_header cd v h = Inr head" "hd_parent_hash head = Some parent"
    "json_as_array (json_index v ''transactions'') = Some raw_txs"
    "decode_transactions cd h (hd_hash head) 0 [] raw_txs = Inr (eb_transactions b)"
    "quantity (json_index v ''timestamp'') = Inr seconds"
    and rl: "json_as_array (JArray raw) = Some rl"
      "collect (decode_log cd h (hd_hash head) (eb_transactions b)) rl = Inr ls"
    and logs: "eb_logs b = sort_key el_log_index ls" "log_indices_contiguous (eb_logs b)"
    and b: "b = \<lparr>eb_number = h, eb_hash = hd_hash head, eb_parent_hash = parent, eb_timestamp = seconds,
          eb_transactions = eb_transactions b, eb_logs = eb_logs b\<rparr>"
  have "rl = raw" using rl(1) by (simp add: json_as_array_def)
  with collect_mset [OF rl(2)] assms(2) obtain ls' where
    ls': "collect (decode_log cd h (hd_hash head) (eb_transactions b)) raw' = Inr ls'" "mset ls' = mset ls"
    by auto
  have "sort_key el_log_index ls' = eb_logs b"
    using contiguous_unique_sort [of ls ls'] ls'(2) logs by simp
  with ls'(1) logs ok have "decode_block cd v (JArray raw') h = Inr
     \<lparr>eb_number = h, eb_hash = hd_hash head, eb_parent_hash = parent, eb_timestamp = seconds,
          eb_transactions = eb_transactions b, eb_logs = eb_logs b\<rparr>"
    by (simp add: decode_block_def json_as_array_def Let_def)
  with b show ?thesis by simp
qed

theorem log_order_irrelevant_witness:
  "decode_block demo_codec demo_raw_block (JArray [demo_raw_log ''0x0'', demo_raw_log ''0x1'']) 2 =
     Inr demo_evm_block"
  by (rule log_order_irrelevant [OF demo_decode_block]) simp

section \<open>The header and the block agree\<close>

lemma sint_le_i64_max: "n \<le> i64_max \<Longrightarrow> sint n = uint n"
proof -
  assume "n \<le> i64_max"
  then have "uint n < 2 ^ 63"
    by (simp add: i64_max_def word_le_def)
  then have "signed_take_bit 63 (uint n) = uint n"
    by (intro signed_take_bit_int_eq_self) (simp_all add: order.trans [OF _ uint_ge_0])
  then show ?thesis by (simp add: sint_uint)
qed

lemma decode_block_json_array: "decode_block cd v logs h = Inr b \<Longrightarrow> \<exists>raw. logs = JArray raw"
  by (erule decode_block_elim) (auto simp: json_as_array_def split: json.splits)

text \<open>The two headers of one response, the one decoded first and the one of the block.\<close>

lemma decode_block_header:
  "decode_block cd v logs h = Inr b \<Longrightarrow> decode_header cd v h = Inr (evm_block_header cd b)"
proof (erule decode_block_elim)
  fix head parent seconds
  assume hd: "decode_header cd v h = Inr head" "hd_parent_hash head = Some parent"
    and t: "quantity (json_index v ''timestamp'') = Inr seconds"
    and b: "b = \<lparr>eb_number = h, eb_hash = hd_hash head, eb_parent_hash = parent, eb_timestamp = seconds,
          eb_transactions = eb_transactions b, eb_logs = eb_logs b\<rparr>"
  have "evm_block_header cd b = head"
    by (subst b, cases head, use decode_header_Inr [OF hd(1)] hd(2) t in
        \<open>auto simp: evm_block_header_def sint_le_i64_max\<close>)
  with hd(1) show ?thesis by simp
qed

end
