(* ===== verification/Sq_ConfigDb.thy ===== *)
theory Sq_ConfigDb
  imports Sq_Strings
begin

text \<open>
  URLs in the configuration: RPC endpoints (\<open>crates/config/src/endpoint.rs\<close>) and the
  database connection (\<open>crates/config/src/db.rs\<close>) with its percent decoding and its
  quoting of connection strings. The URL parser (the \<open>url\<close> package), the environment
  variables and the test for UTF-8 are parameters: \<open>url\<close> holds the components the parser
  reports, \<open>env\<close> is the process environment.
\<close>

record url =
  url_scheme :: string
  url_username :: string
  url_password :: "string option"
  url_host :: "string option"
  url_port :: "u16 option"
  url_path :: string
  url_query_pairs :: "(string \<times> string) list"
  url_fragment :: "string option"
  url_origin :: string

section \<open>RPC endpoints\<close>

definition validate_endpoint :: "(string \<Rightarrow> string + url) \<Rightarrow> string \<Rightarrow> string + url" where
  "validate_endpoint parse raw =
     rbind (map_err (\<lambda>_. ''invalid RPC URL'') (parse raw)) (\<lambda>u.
       if url_scheme u \<notin> {''http'', ''https''} \<or> url_host u = None
       then Inl ''RPC endpoints require http or https and a host''
       else if url_fragment u \<noteq> None then Inl ''RPC endpoints must not contain fragments''
       else Inr u)"

definition redact_endpoint :: "(string \<Rightarrow> string + url) \<Rightarrow> string \<Rightarrow> string" where
  "redact_endpoint parse raw = (case parse raw of Inr u \<Rightarrow> url_origin u | Inl _ \<Rightarrow> ''***'')"

lemma validate_endpoint_Inr:
  "validate_endpoint parse raw = Inr u \<longleftrightarrow>
     parse raw = Inr u \<and> url_scheme u \<in> {''http'', ''https''} \<and> url_host u \<noteq> None \<and> url_fragment u = None"
  by (cases "parse raw") (auto simp: validate_endpoint_def map_err_def)

section \<open>Percent decoding\<close>

fun percent_bytes :: "string \<Rightarrow> string option" where
  "percent_bytes [] = Some []"
| "percent_bytes (c # cs) =
     (if c = CHR ''%'' \<and> 2 \<le> length cs then
        (case to_digit 16 (cs ! 0) of
           None \<Rightarrow> None
         | Some hi \<Rightarrow>
             (case to_digit 16 (cs ! 1) of
                None \<Rightarrow> None
              | Some lo \<Rightarrow> map_option ((#) (char_of (hi * 16 + lo))) (percent_bytes (drop 2 cs))))
      else map_option ((#) c) (percent_bytes cs))"

definition percent_decode :: "(string \<Rightarrow> bool) \<Rightarrow> string \<Rightarrow> string option" where
  "percent_decode utf8 s =
     (case percent_bytes s of None \<Rightarrow> None | Some bytes \<Rightarrow> if utf8 bytes then Some bytes else None)"

definition decode_component :: "(string \<Rightarrow> bool) \<Rightarrow> string \<Rightarrow> string" where
  "decode_component utf8 s = (case percent_decode utf8 s of Some t \<Rightarrow> t | None \<Rightarrow> s)"

section \<open>The database connection\<close>

datatype db_config_error =
    InvalidUrl string
  | UnsupportedScheme string
  | MissingDatabase

record db_config =
  db_host :: string
  db_port :: u16
  db_username :: string
  db_password :: string
  db_database :: string
  db_schema :: string

definition db_config_default :: db_config where
  "db_config_default = \<lparr>db_host = ''127.0.0.1'', db_port = 5432, db_username = ''postgres'',
     db_password = ''postgres'', db_database = ''postgres'', db_schema = ''public''\<rparr>"

definition or_default :: "'a option \<Rightarrow> 'a \<Rightarrow> 'a" where
  "or_default x d = (case x of Some a \<Rightarrow> a | None \<Rightarrow> d)"

lemma or_default_simps [simp]: "or_default None d = d" "or_default (Some a) d = a"
  by (simp_all add: or_default_def)

definition db_from_url ::
  "(string \<Rightarrow> string + url) \<Rightarrow> (string \<Rightarrow> bool) \<Rightarrow> string \<Rightarrow> db_config_error + db_config" where
  "db_from_url parse utf8 raw =
     rbind (map_err InvalidUrl (parse raw)) (\<lambda>u.
       if url_scheme u \<notin> {''postgres'', ''postgresql''}
       then Inl (UnsupportedScheme (url_scheme u))
       else
         let d = db_config_default;
             database = decode_component utf8 (dropWhile (\<lambda>c. c = CHR ''/'') (url_path u))
         in if database = [] then Inl MissingDatabase
            else Inr \<lparr>
              db_host = or_default (url_host u) (db_host d),
              db_port = or_default (url_port u) (db_port d),
              db_username = (if url_username u = [] then db_username d
                             else decode_component utf8 (url_username u)),
              db_password = or_default (map_option (decode_component utf8) (url_password u)) (db_password d),
              db_database = database,
              db_schema = or_default (map_of (url_query_pairs u) ''schema'') (db_schema d)\<rparr>)"

text \<open>\<open>u16::from_str\<close>: a plus sign and digits, as for the wider integers.\<close>

definition parse_u16 :: "string \<Rightarrow> u16 option" where
  "parse_u16 s = (case parse_u64 s of Some n \<Rightarrow> if n < 65536 then Some (ucast n) else None | None \<Rightarrow> None)"

definition db_from_env :: "(string \<Rightarrow> string option) \<Rightarrow> db_config" where
  "db_from_env env =
     (let d = db_config_default
      in \<lparr>db_host = or_default (env ''DB_HOST'') (db_host d),
          db_port = or_default (case env ''DB_PORT'' of None \<Rightarrow> None | Some v \<Rightarrow> parse_u16 v) (db_port d),
          db_username = or_default (env ''DB_USER'') (db_username d),
          db_password = or_default (env ''DB_PASS'') (db_password d),
          db_database = or_default (env ''DB_DATABASE'') (db_database d),
          db_schema = or_default (env ''DB_SCHEMA'') (db_schema d)\<rparr>)"

definition db_resolve ::
  "(string \<Rightarrow> string + url) \<Rightarrow> (string \<Rightarrow> bool) \<Rightarrow> (string \<Rightarrow> string option) \<Rightarrow> string option \<Rightarrow>
     db_config_error + db_config" where
  "db_resolve parse utf8 env database_url =
     (case database_url of Some u \<Rightarrow> db_from_url parse utf8 u | None \<Rightarrow> Inr (db_from_env env))"

text \<open>\<open>str::replace\<close> with a one-character pattern.\<close>

definition replace_char :: "char \<Rightarrow> string \<Rightarrow> string \<Rightarrow> string" where
  "replace_char c t s = concat (map (\<lambda>x. if x = c then t else [x]) s)"

definition backslash :: char where
  "backslash = CHR 0x5C"

definition apostrophe :: char where
  "apostrophe = CHR 0x27"

definition quote :: "string \<Rightarrow> string" where
  "quote v =
     [apostrophe] @ replace_char apostrophe [backslash, apostrophe]
        (replace_char backslash [backslash, backslash] v) @ [apostrophe]"

definition connection_string :: "db_config \<Rightarrow> string" where
  "connection_string c =
     ''host='' @ quote (db_host c) @ '' port='' @ show_u64 (ucast (db_port c)) @
     '' user='' @ quote (db_username c) @ '' password='' @ quote (db_password c) @
     '' dbname='' @ quote (db_database c)"

definition redacted :: "db_config \<Rightarrow> string" where
  "redacted c =
     ''postgres://'' @ db_username c @ ''@'' @ db_host c @ '':'' @ show_u64 (ucast (db_port c)) @
     ''/'' @ db_database c @ '' (schema='' @ db_schema c @ '')''"

section \<open>Reading the connection string back\<close>

text \<open>
  The reader of keyword/value connection strings as PostgreSQL documents it, for quoted
  values: the text up to the closing quote, in which a backslash stands for the character
  after it. It returns the value and what follows the closing quote.
\<close>

fun read_quoted :: "string \<Rightarrow> (string \<times> string) option" where
  "read_quoted [] = None"
| "read_quoted (c # cs) =
     (if c = apostrophe then Some ([], cs)
      else if c = backslash then
        (case cs of [] \<Rightarrow> None
         | d # ds \<Rightarrow> map_option (\<lambda>(v, rest). (d # v, rest)) (read_quoted ds))
      else map_option (\<lambda>(v, rest). (c # v, rest)) (read_quoted cs))"

definition read_value :: "string \<Rightarrow> (string \<times> string) option" where
  "read_value s = (case s of [] \<Rightarrow> None | c # cs \<Rightarrow> if c = apostrophe then read_quoted cs else None)"

definition read_field :: "string \<Rightarrow> string \<Rightarrow> (string \<times> string) option" where
  "read_field key s = (case strip_prefix key s of None \<Rightarrow> None | Some t \<Rightarrow> read_value t)"

lemma replace_char_simps [simp]:
  "replace_char c t [] = []"
  "replace_char c t (x # xs) = (if x = c then t else [x]) @ replace_char c t xs"
  by (simp_all add: replace_char_def)

lemma replace_char_append [simp]:
  "replace_char c t (xs @ ys) = replace_char c t xs @ replace_char c t ys"
  by (simp add: replace_char_def)

lemma quote_chars_distinct [simp]: "backslash \<noteq> apostrophe" "apostrophe \<noteq> backslash"
  by (simp_all add: backslash_def apostrophe_def)

lemma read_quoted_escaped:
  "read_quoted (replace_char apostrophe [backslash, apostrophe]
       (replace_char backslash [backslash, backslash] v) @ [apostrophe] @ rest) = Some (v, rest)"
  by (induction v) simp_all

lemma read_value_quote: "read_value (quote v @ rest) = Some (v, rest)"
  using read_quoted_escaped [of v rest] by (simp add: read_value_def quote_def)

lemma read_field_quote: "read_field key (key @ quote v @ rest) = Some (v, rest)"
  by (simp add: read_field_def strip_prefix_def read_value_quote)

lemma read_field_quote_end: "read_field key (key @ quote v) = Some (v, [])"
  using read_field_quote [of key v "[]"] by simp

text \<open>No credential can escape its quotes: whatever characters host, user, password and
  database name contain, a reader of the connection string recovers each of them exactly
  and continues right after it, so no value can add or override a connection parameter.\<close>

theorem connection_string_fields:
  "read_field ''host='' (connection_string c) =
     Some (db_host c, '' port='' @ show_u64 (ucast (db_port c)) @
       '' user='' @ quote (db_username c) @ '' password='' @ quote (db_password c) @
       '' dbname='' @ quote (db_database c)) \<and>
   read_field '' user='' ('' user='' @ quote (db_username c) @ '' password='' @
       quote (db_password c) @ '' dbname='' @ quote (db_database c)) =
     Some (db_username c, '' password='' @ quote (db_password c) @ '' dbname='' @ quote (db_database c)) \<and>
   read_field '' password='' ('' password='' @ quote (db_password c) @ '' dbname='' @ quote (db_database c)) =
     Some (db_password c, '' dbname='' @ quote (db_database c)) \<and>
   read_field '' dbname='' ('' dbname='' @ quote (db_database c)) = Some (db_database c, [])"
  unfolding connection_string_def read_field_quote read_field_quote_end by simp

section \<open>Encoding, then decoding\<close>

text \<open>The encoding of a component in a URL: any choice of bytes may be escaped, as long as
  the percent sign is.\<close>

definition percent_encode :: "(char \<Rightarrow> bool) \<Rightarrow> string \<Rightarrow> string" where
  "percent_encode esc s =
     concat (map (\<lambda>c. if esc c \<or> c = CHR ''%''
       then [CHR ''%'', from_digit ((of_char c :: nat) div 16), from_digit ((of_char c :: nat) mod 16)]
       else [c]) s)"

lemma percent_encode_Cons:
  "percent_encode esc (c # s) =
     (if esc c \<or> c = CHR ''%''
       then [CHR ''%'', from_digit ((of_char c :: nat) div 16), from_digit ((of_char c :: nat) mod 16)]
       else [c]) @ percent_encode esc s"
  by (simp add: percent_encode_def)

lemma percent_bytes_encode: "percent_bytes (percent_encode esc s) = Some s"
proof (induction s)
  case (Cons c s)
  have "(of_char c :: nat) div 16 < 16" "(of_char c :: nat) mod 16 < 16"
    by (simp_all add: div_less_iff_less_mult)
  then show ?case
    by (simp add: percent_encode_Cons Cons.IH to_digit_from_digit del: of_char_mod_256)
qed (simp add: percent_encode_def)

text \<open>Credentials survive a URL: decoding a component in which the percent sign and any
  other bytes were escaped gives the component back, as long as it is valid text.\<close>

theorem decode_encoded_component:
  assumes "utf8 s"
  shows "decode_component utf8 (percent_encode esc s) = s"
  by (simp add: decode_component_def percent_decode_def percent_bytes_encode assms)

theorem decode_encoded_component_witness:
  "decode_component (\<lambda>_. True) (percent_encode (\<lambda>c. c = CHR ''@'') ''p@ss%41'') = ''p@ss%41''"
  by (rule decode_encoded_component) simp

end
