(* ===== verification/Sq_EvmRpc.thy ===== *)
theory Sq_EvmRpc
  imports Sq_EvmDecode Sq_ConfigDb
begin

text \<open>
  The RPC client of the EVM adapter, \<open>crates/chains/evm/src/rpc.rs\<close>: construction, one call
  with the classification of its errors, and the request with its attempts. The network is
  the environment: for every attempt, a provider, a meth and its parameters it holds the
  replies and whether the timeout struck first. The sleeps between attempts are returned as
  the list of their lengths in milliseconds.
\<close>

section \<open>The environment\<close>

text \<open>What \<open>raw_request\<close> returns: a value, an error response with its code, or an error of
  the transport or of the decoding of the response.\<close>

datatype rpc_reply =
    ReplyValue json
  | ReplyErrorResp int
  | ReplyTransport
  | ReplyMalformed

record attempt_env =
  ae_chain_id :: rpc_reply
  ae_reply :: rpc_reply
  ae_timed_out :: bool

text \<open>The network as one request sees it: the attempt and the index of the provider used.\<close>

type_synonym network = "nat \<Rightarrow> nat \<Rightarrow> attempt_env"

section \<open>The client\<close>

record evm_adapter_config =
  ec_endpoints :: "string list"
  ec_chain_id :: string
  ec_timeout_secs :: u64
  ec_max_retries :: u32
  ec_finality_confirmations :: u64

record rpc_client =
  rc_providers :: "url list"
  rc_chain_id :: u64
  rc_attempts :: u32
  rc_timeout_secs :: u64

definition rpc_client_new ::
  "(string \<Rightarrow> string + url) \<Rightarrow> evm_adapter_config \<Rightarrow> chain_error + rpc_client" where
  "rpc_client_new parse config =
     (if ec_endpoints config = [] \<or> ec_max_retries config = 0 \<or> ec_timeout_secs config = 0
      then Inl (ChainOther ''RPC requires endpoints, positive attempts and timeout'')
      else
        rbind (collect (\<lambda>raw. map_err ChainOther (validate_endpoint parse raw)) (ec_endpoints config)) (\<lambda>providers.
        rbind (ok_or (parse_u64 (ec_chain_id config)) (ChainOther ''invalid decimal chain id'')) (\<lambda>chain_id.
          Inr \<lparr>rc_providers = providers, rc_chain_id = chain_id, rc_attempts = ec_max_retries config,
               rc_timeout_secs = ec_timeout_secs config\<rparr>)))"

definition rpc_call :: "rpc_reply \<Rightarrow> chain_error + json" where
  "rpc_call reply =
     (case reply of
        ReplyValue v \<Rightarrow> Inr v
      | ReplyErrorResp code \<Rightarrow>
          if code \<in> {429, -32005, -32016} then Inl (RateLimited None) else Inl (Rpc code)
      | ReplyTransport \<Rightarrow> Inl (Transport ''RPC transport failed'')
      | ReplyMalformed \<Rightarrow> Inl (ChainDecode ''invalid JSON-RPC response''))"

definition rpc_attempt :: "rpc_client \<Rightarrow> string \<Rightarrow> attempt_env \<Rightarrow> chain_error + json" where
  "rpc_attempt c meth env =
     (if ae_timed_out env then Inl (Transport ''RPC request timed out'')
      else rbind (rpc_call (ae_chain_id env)) (\<lambda>id.
           rbind (quantity id) (\<lambda>actual.
             if actual \<noteq> rc_chain_id c
             then Inl (ChainIdMismatch (show_u64 (rc_chain_id c)) (show_u64 actual))
             else if meth = ''eth_chainId'' then Inr id
             else rpc_call (ae_reply env))))"

text \<open>\<open>1u64 << attempt.min(6)\<close>.\<close>

definition retry_delay :: "u32 \<Rightarrow> u64" where
  "retry_delay attempt = min (saturating_mul 100 (push_bit (unat (min attempt 6)) 1)) 5000"

text \<open>The loop \<open>for attempt in 0..self.attempts\<close>, on the attempts that are left.\<close>

fun rpc_attempts ::
  "rpc_client \<Rightarrow> string \<Rightarrow> network \<Rightarrow> nat list \<Rightarrow> u64 list \<Rightarrow> (chain_error + json) \<times> u64 list" where
  "rpc_attempts c meth net [] slept = (Inl (ChainOther ''RPC attempt budget exhausted''), slept)"
| "rpc_attempts c meth net (attempt # rest) slept =
     (case rpc_attempt c meth (net attempt (attempt mod length (rc_providers c))) of
        Inr v \<Rightarrow> (Inr v, slept)
      | Inl e \<Rightarrow>
          if is_retryable e \<and> of_nat attempt + 1 < rc_attempts c
          then rpc_attempts c meth net rest (slept @ [retry_delay (of_nat attempt)])
          else (Inl e, slept))"

definition rpc_request ::
  "rpc_client \<Rightarrow> string \<Rightarrow> network \<Rightarrow> (chain_error + json) \<times> u64 list" where
  "rpc_request c meth net = rpc_attempts c meth net [0..<unat (rc_attempts c)] []"

section \<open>The outcome of a request\<close>

text \<open>The outcome of attempt \<open>k\<close>.\<close>

definition attempt_outcome :: "rpc_client \<Rightarrow> string \<Rightarrow> network \<Rightarrow> nat \<Rightarrow> chain_error + json" where
  "attempt_outcome c meth net k = rpc_attempt c meth (net k (k mod length (rc_providers c)))"

definition retryable_failure :: "chain_error + json \<Rightarrow> bool" where
  "retryable_failure r = (case r of Inl e \<Rightarrow> is_retryable e | Inr _ \<Rightarrow> False)"

lemma rpc_attempts_spec:
  assumes "k < unat (rc_attempts c)"
  shows "\<exists>j\<ge>k. j < unat (rc_attempts c) \<and>
     rpc_attempts c meth net [k..<unat (rc_attempts c)] slept =
       (attempt_outcome c meth net j, slept @ map (retry_delay \<circ> of_nat) [k..<j]) \<and>
     (\<forall>i. k \<le> i \<and> i < j \<longrightarrow> retryable_failure (attempt_outcome c meth net i)) \<and>
     (retryable_failure (attempt_outcome c meth net j) \<longrightarrow> Suc j = unat (rc_attempts c))"
  using assms
proof (induction "unat (rc_attempts c) - k" arbitrary: k slept)
  case (Suc n)
  let ?r = "attempt_outcome c meth net k"
  have split: "[k..<unat (rc_attempts c)] = k # [Suc k..<unat (rc_attempts c)]"
    using Suc.prems by (simp add: upt_conv_Cons)
  have bound: "unat (rc_attempts c) < 2 ^ 32"
    using unsigned_less [of "rc_attempts c"] by simp
  then have last: "of_nat k + 1 < rc_attempts c \<longleftrightarrow> Suc k < unat (rc_attempts c)"
    using Suc.prems by (simp add: word_less_nat_alt unat_word_ariths unat_of_nat)
  show ?case
  proof (cases "retryable_failure ?r \<and> Suc k < unat (rc_attempts c)")
    case True
    then have step: "rpc_attempts c meth net [k..<unat (rc_attempts c)] slept =
        rpc_attempts c meth net [Suc k..<unat (rc_attempts c)] (slept @ [retry_delay (of_nat k)])"
      unfolding split by (auto simp: attempt_outcome_def retryable_failure_def last split: sum.splits)
    have "n = unat (rc_attempts c) - Suc k" using Suc.hyps(2) by simp
    from Suc.hyps(1) [OF this, of "slept @ [retry_delay (of_nat k)]"] True obtain j where j:
      "Suc k \<le> j" "j < unat (rc_attempts c)"
      "rpc_attempts c meth net [Suc k..<unat (rc_attempts c)] (slept @ [retry_delay (of_nat k)]) =
         (attempt_outcome c meth net j,
          (slept @ [retry_delay (of_nat k)]) @ map (retry_delay \<circ> of_nat) [Suc k..<j])"
      "\<forall>i. Suc k \<le> i \<and> i < j \<longrightarrow> retryable_failure (attempt_outcome c meth net i)"
      "retryable_failure (attempt_outcome c meth net j) \<longrightarrow> Suc j = unat (rc_attempts c)"
      by auto
    moreover have "[k..<j] = k # [Suc k..<j]" using j(1) by (simp add: upt_conv_Cons)
    moreover have "\<forall>i. k \<le> i \<and> i < j \<longrightarrow> retryable_failure (attempt_outcome c meth net i)"
      using True j(4) by (metis le_antisym not_less_eq_eq)
    ultimately show ?thesis
      unfolding step by (intro exI [of _ j]) simp
  next
    case False
    then have "rpc_attempts c meth net [k..<unat (rc_attempts c)] slept = (?r, slept)"
      unfolding split by (auto simp: attempt_outcome_def retryable_failure_def last split: sum.splits)
    with False Suc.prems show ?thesis by (intro exI [of _ k]) auto
  qed
qed simp

lemma rpc_client_new_Inr:
  "rpc_client_new parse config = Inr c \<Longrightarrow>
     0 < unat (rc_attempts c) \<and> rc_providers c \<noteq> [] \<and> rc_attempts c = ec_max_retries config \<and>
     length (rc_providers c) = length (ec_endpoints config) \<and>
     parse_u64 (ec_chain_id config) = Some (rc_chain_id c)"
  by (auto simp: rpc_client_new_def rbind_eq_Inr unat_gt_0 dest!: collect_length split: if_splits)

lemma rpc_request_spec:
  assumes "rpc_client_new parse config = Inr c"
  shows "\<exists>k<unat (ec_max_retries config).
     rpc_request c meth net = (attempt_outcome c meth net k, map (retry_delay \<circ> of_nat) [0..<k]) \<and>
     (\<forall>i<k. retryable_failure (attempt_outcome c meth net i)) \<and>
     (retryable_failure (attempt_outcome c meth net k) \<longrightarrow> Suc k = unat (ec_max_retries config))"
proof -
  from rpc_client_new_Inr [OF assms] have "0 < unat (rc_attempts c)"
    and eq: "rc_attempts c = ec_max_retries config"
    by blast+
  with rpc_attempts_spec [of 0 c meth net "[]"] show ?thesis
    unfolding rpc_request_def eq by auto
qed

text \<open>C19: A request of a client built by \<open>RpcClient::new\<close> never runs out of its attempt
  budget: its result is the outcome of one of the attempts. Every attempt before it failed in a
  way worth retrying and was followed by its own back-off; the attempt that ended the request
  either succeeded, failed for good or was the last one.\<close>

theorem rpc_request_outcome:
  assumes "rpc_client_new parse config = Inr c"
  shows "\<exists>k<unat (ec_max_retries config).
     rpc_request c meth net = (attempt_outcome c meth net k, map (retry_delay \<circ> of_nat) [0..<k]) \<and>
     (\<forall>i<k. retryable_failure (attempt_outcome c meth net i)) \<and>
     (retryable_failure (attempt_outcome c meth net k) \<longrightarrow> Suc k = unat (ec_max_retries config))"
  by (rule rpc_request_spec [OF assms])

definition demo_url :: "string \<Rightarrow> url" where
  "demo_url s = \<lparr>url_scheme = ''https'', url_username = [], url_password = None, url_host = Some s,
     url_port = None, url_path = ''/'', url_query_pairs = [], url_fragment = None, url_origin = s\<rparr>"

definition demo_evm_config :: evm_adapter_config where
  "demo_evm_config = \<lparr>ec_endpoints = [''a'', ''b''], ec_chain_id = ''1'', ec_timeout_secs = 30,
     ec_max_retries = 3, ec_finality_confirmations = 200\<rparr>"

definition demo_rpc_client :: rpc_client where
  "demo_rpc_client = \<lparr>rc_providers = [demo_url ''a'', demo_url ''b''], rc_chain_id = 1,
     rc_attempts = 3, rc_timeout_secs = 30\<rparr>"

text \<open>The first endpoint is rate limited, the second answers.\<close>

definition demo_network :: network where
  "demo_network attempt provider =
     (if provider = 0
      then \<lparr>ae_chain_id = ReplyErrorResp 429, ae_reply = ReplyTransport, ae_timed_out = False\<rparr>
      else \<lparr>ae_chain_id = ReplyValue (JString ''0x1''), ae_reply = ReplyValue (JString ''0x10''),
            ae_timed_out = False\<rparr>)"

lemma demo_client_new: "rpc_client_new (\<lambda>s. Inr (demo_url s)) demo_evm_config = Inr demo_rpc_client"
  by (simp add: rpc_client_new_def demo_evm_config_def demo_rpc_client_def validate_endpoint_def
      demo_url_def parse_u64_def from_str_radix_def to_digit_def)

lemma demo_request:
  "rpc_request demo_rpc_client ''eth_blockNumber'' demo_network = (Inr (JString ''0x10''), [100])"
  by (simp add: rpc_request_def demo_rpc_client_def upt_rec rpc_attempt_def demo_network_def rpc_call_def
      demo_quantities retry_delay_def saturating_mul_def)

theorem rpc_request_outcome_witness:
  "{k \<in> {..<3}. rpc_request demo_rpc_client ''eth_blockNumber'' demo_network =
      (attempt_outcome demo_rpc_client ''eth_blockNumber'' demo_network k,
       map (retry_delay \<circ> of_nat) [0..<k])} \<noteq> {}"
  using rpc_request_outcome [OF demo_client_new, of "''eth_blockNumber''" demo_network]
  by (auto simp: demo_evm_config_def)

text \<open>A reply that was sent in time by an endpoint that named the chain \<open>chain\<close> before it.\<close>

definition answered_by :: "evm_adapter_config \<Rightarrow> network \<Rightarrow> nat \<Rightarrow> json \<Rightarrow> attempt_env \<Rightarrow> bool" where
  "answered_by config net k named env =
     (k < unat (ec_max_retries config) \<and> env = net k (k mod length (ec_endpoints config)) \<and>
      \<not> ae_timed_out env \<and> ae_chain_id env = ReplyValue named \<and>
      (\<exists>chain. quantity named = Inr chain \<and> parse_u64 (ec_chain_id config) = Some chain))"

lemma rpc_request_answered:
  assumes "rpc_client_new parse config = Inr c" "rpc_request c meth net = (Inr v, slept)"
  obtains k named env where "answered_by config net k named env"
    "if meth = ''eth_chainId'' then v = named else ae_reply env = ReplyValue v"
proof -
  from rpc_request_spec [OF assms(1), of meth net] assms(2) obtain k where
    k: "k < unat (ec_max_retries config)" "attempt_outcome c meth net k = Inr v"
    by (metis fst_conv)
  have call: "rpc_call r = Inr w \<longleftrightarrow> r = ReplyValue w" for r w
    by (simp add: rpc_call_def split: rpc_reply.splits)
  show thesis
    using k rpc_client_new_Inr [OF assms(1)] that
    by (auto simp: attempt_outcome_def rpc_attempt_def rbind_eq_Inr call answered_by_def split: if_splits)
qed

text \<open>A value a request returns was sent by an endpoint that, within the same attempt and
  before that value, named the configured chain; an answer of an endpoint on another chain is
  never used, also when requests move from endpoint to endpoint.\<close>

theorem rpc_request_from_configured_chain:
  assumes "rpc_client_new parse config = Inr c" "rpc_request c meth net = (Inr v, slept)"
  shows "\<exists>k id chain. k < unat (ec_max_retries config) \<and>
     \<not> ae_timed_out (net k (k mod length (ec_endpoints config))) \<and>
     ae_chain_id (net k (k mod length (ec_endpoints config))) = ReplyValue id \<and>
     quantity id = Inr chain \<and> parse_u64 (ec_chain_id config) = Some chain \<and>
     (if meth = ''eth_chainId'' then v = id
      else ae_reply (net k (k mod length (ec_endpoints config))) = ReplyValue v)"
  using assms by (rule rpc_request_answered) (unfold answered_by_def, blast)

theorem rpc_request_from_configured_chain_witness:
  "{k \<in> {..<3}. ae_chain_id (demo_network k (k mod 2)) = ReplyValue (JString ''0x1'') \<and>
      ae_reply (demo_network k (k mod 2)) = ReplyValue (JString ''0x10'')} \<noteq> {}"
proof -
  have two: "length (ec_endpoints demo_evm_config) = 2" "unat (ec_max_retries demo_evm_config) = 3"
    by (simp_all add: demo_evm_config_def)
  from rpc_request_from_configured_chain [OF demo_client_new demo_request, unfolded two]
  obtain k where
    "k < 3" "ae_chain_id (demo_network k (k mod 2)) \<noteq> ReplyErrorResp 429"
    "ae_reply (demo_network k (k mod 2)) = ReplyValue (JString ''0x10'')"
    by auto
  then show ?thesis
    by (auto simp: demo_network_def split: if_splits)
qed

lemma retry_schedule:
  "map retry_delay [0, 1, 2, 3, 4, 5, 6, 7] = [100, 200, 400, 800, 1600, 3200, 5000, 5000]"
  by (simp add: retry_delay_def saturating_mul_def)

end
