(* ===== verification/Sq_EvmAdapter.thy ===== *)
theory Sq_EvmAdapter
  imports Sq_EvmRpc Sq_Scheduler
begin

text \<open>
  The EVM implementation of the chain adapter, \<open>crates/chains/evm/src/adapter.rs\<close>. The
  network is the environment: for every meth and its parameters, what the attempts of that
  request see. The locale \<open>chain_source\<close> states what the engine relies on when it asks an
  adapter for a height; the EVM adapter provides it.
\<close>

section \<open>Configuration\<close>

definition evm_adapter_config_default :: evm_adapter_config where
  "evm_adapter_config_default = \<lparr>ec_endpoints = [], ec_chain_id = ''1'', ec_timeout_secs = 30,
     ec_max_retries = 5, ec_finality_confirmations = 200\<rparr>"

definition well_known_chain_name :: "string \<Rightarrow> string option" where
  "well_known_chain_name chain_id = map_of
     [(''1'', ''ethereum''), (''10'', ''optimism''), (''56'', ''bsc''), (''137'', ''polygon''),
      (''8453'', ''base''), (''42161'', ''arbitrum''), (''43114'', ''avalanche''),
      (''11155111'', ''sepolia'')] chain_id"

record evm_adapter =
  ea_config :: evm_adapter_config
  ea_chain_name :: string

definition evm_adapter_new :: "evm_adapter_config \<Rightarrow> evm_adapter" where
  "evm_adapter_new config = \<lparr>ea_config = config,
     ea_chain_name = or_default (well_known_chain_name (ec_chain_id config)) ''evm''\<rparr>"

definition block_interval_ms :: "evm_adapter \<Rightarrow> u64" where
  "block_interval_ms a =
     (let id = ec_chain_id (ea_config a)
      in if id = ''1'' then 12000
         else if id = ''10'' \<or> id = ''8453'' then 2000
         else if id = ''56'' then 3000
         else if id = ''137'' then 2000
         else if id = ''42161'' then 250
         else 12000)"

section \<open>Requests\<close>

text \<open>
  What is outside the adapter: the URL parser, the parsers of the primitive types and the
  network. The client is built on first use; building it depends on the configuration only,
  so building it again gives the same client.
\<close>

record evm_world =
  ew_parse_url :: "string \<Rightarrow> string + url"
  ew_codec :: evm_codec
  ew_network :: "string \<Rightarrow> json \<Rightarrow> network"

definition evm_request :: "evm_world \<Rightarrow> evm_adapter \<Rightarrow> string \<Rightarrow> json \<Rightarrow> chain_error + json" where
  "evm_request w a meth params =
     rbind (rpc_client_new (ew_parse_url w) (ea_config a)) (\<lambda>rpc.
       fst (rpc_request rpc meth (ew_network w meth params)))"

lemma evm_request_answered:
  assumes "evm_request w a meth params = Inr v" "meth \<noteq> ''eth_chainId''"
  obtains k named env where "answered_by (ea_config a) (ew_network w meth params) k named env"
    "ae_reply env = ReplyValue v"
proof -
  obtain c where c: "rpc_client_new (ew_parse_url w) (ea_config a) = Inr c"
    "fst (rpc_request c meth (ew_network w meth params)) = Inr v"
    using assms(1) by (auto simp: evm_request_def rbind_eq_Inr)
  then have "rpc_request c meth (ew_network w meth params) =
      (Inr v, snd (rpc_request c meth (ew_network w meth params)))"
    by (metis prod.collapse)
  from rpc_request_answered [OF c(1) this] assms(2) that show thesis by metis
qed

definition validate_network :: "evm_world \<Rightarrow> evm_adapter \<Rightarrow> string \<Rightarrow> chain_error + unit" where
  "validate_network w a expected =
     rbind (evm_request w a ''eth_chainId'' (JArray [])) (\<lambda>v.
     rbind (quantity v) (\<lambda>actual.
       if parse_u64 expected \<noteq> Some actual
       then Inl (ChainIdMismatch expected (show_u64 actual))
       else Inr ()))"

definition evm_latest_height :: "evm_world \<Rightarrow> evm_adapter \<Rightarrow> chain_error + u64" where
  "evm_latest_height w a = rbind (evm_request w a ''eth_blockNumber'' (JArray [])) quantity"

definition evm_finalized_height :: "evm_world \<Rightarrow> evm_adapter \<Rightarrow> chain_error + u64" where
  "evm_finalized_height w a =
     (case evm_request w a ''eth_getBlockByNumber'' (JArray [JString ''finalized'', JBool False]) of
        Inr v \<Rightarrow> if v = JNull then Inr 0 else quantity (json_index v ''number'')
      | Inl e \<Rightarrow>
          if e \<in> {Rpc (-32601), Rpc (-32602)}
          then rbind (evm_latest_height w a) (\<lambda>latest.
                 Inr (saturating_sub latest (ec_finality_confirmations (ea_config a))))
          else Inl e)"

definition height_param :: "u64 \<Rightarrow> json" where
  "height_param height = JString (''0x'' @ show_hex height)"

definition evm_fetch_block ::
  "evm_world \<Rightarrow> evm_adapter \<Rightarrow> u64 \<Rightarrow> chain_error + evm_block generic_block" where
  "evm_fetch_block w a height =
     rbind (evm_request w a ''eth_getBlockByNumber'' (JArray [height_param height, JBool True])) (\<lambda>v.
     rbind (decode_header (ew_codec w) v height) (\<lambda>h.
     rbind (evm_request w a ''eth_getLogs''
              (JArray [JObject [(''blockHash'', JString (hd_hash h))]])) (\<lambda>logs.
     rbind (decode_block (ew_codec w) v logs height) (\<lambda>block.
       Inr (generic_block_new h block)))))"

definition evm_header_at :: "evm_world \<Rightarrow> evm_adapter \<Rightarrow> u64 \<Rightarrow> chain_error + header" where
  "evm_header_at w a height =
     rbind (evm_request w a ''eth_getBlockByNumber'' (JArray [height_param height, JBool False])) (\<lambda>v.
       decode_header (ew_codec w) v height)"

section \<open>Events\<close>

text \<open>The index of the transactions: collecting into a \<open>HashMap\<close> keeps the last of two
  entries with one key.\<close>

definition transactions_by_index :: "evm_transaction list \<Rightarrow> u64 \<Rightarrow> evm_transaction option" where
  "transactions_by_index txs = map_of (rev (map (\<lambda>t. (et_index t, t)) txs))"

definition decode_events :: "evm_block \<Rightarrow> evm_event list" where
  "decode_events b =
     map (\<lambda>log. \<lparr>ee_log = log,
        ee_transaction = transactions_by_index (eb_transactions b) (el_transaction_index log),
        ee_block_number = eb_number b\<rparr>) (eb_logs b)"

text \<open>The deserializers of the two filter types are generated from their declarations; they are
  the parameters \<open>de_log\<close> and \<open>de_tx\<close>.\<close>

definition event_matches_filter ::
  "(json \<Rightarrow> string + evm_log_filter) \<Rightarrow> (json \<Rightarrow> string + evm_transaction_filter) \<Rightarrow>
     evm_event \<Rightarrow> chain_filter \<Rightarrow> bool" where
  "event_matches_filter de_log de_tx event f =
     (case fl_handler f of
        KindEvent \<Rightarrow>
          (case parse_params de_log f of
             Inr log_filter \<Rightarrow> log_filter_matches log_filter (log_view_of (ee_log event))
           | Inl _ \<Rightarrow> False)
      | KindTransaction \<Rightarrow>
          (case (ee_transaction event, parse_params de_tx f) of
             (Some tx, Inr tx_filter) \<Rightarrow> transaction_filter_matches tx_filter (transaction_view_of tx)
           | _ \<Rightarrow> False)
      | KindBlock \<Rightarrow> False)"

lemma malformed_filter_matches_nothing:
  "de_log (fl_params f) = Inl e \<Longrightarrow> fl_handler f = KindEvent \<Longrightarrow>
     \<not> event_matches_filter de_log de_tx event f"
  by (simp add: event_matches_filter_def parse_params_def map_err_def)

lemma block_handler_matches_no_event:
  "fl_handler f = KindBlock \<Longrightarrow> \<not> event_matches_filter de_log de_tx event f"
  by (simp add: event_matches_filter_def)

section \<open>What the engine relies on\<close>

locale chain_source =
  fixes fetch :: "u64 \<Rightarrow> chain_error + 'b generic_block"
    and header_at :: "u64 \<Rightarrow> chain_error + header"
  assumes fetch_height: "fetch h = Inr b \<Longrightarrow> hd_height (gb_header b) = h"
    and header_at_height: "header_at h = Inr hdr \<Longrightarrow> hd_height hdr = h"
begin

text \<open>The scheduler's own test of the height never fails on such a source.\<close>

lemma checked_is_fetch: "fetch_checked fetch h = map_err CoreChain (fetch h)"
  by (cases "fetch h") (simp_all add: fetch_checked_def map_err_def fetch_height)

lemma batch_heights:
  "collect (fetch_checked fetch) hs = Inr bs \<Longrightarrow> map (hd_height \<circ> gb_header) bs = hs"
proof (induction hs arbitrary: bs)
  case (Cons h hs)
  then show ?case
    by (cases "fetch h") (auto simp: rbind_eq_Inr checked_is_fetch map_err_def fetch_height)
qed simp

end

lemma evm_fetch_block_elim:
  assumes "evm_fetch_block w a h = Inr gb"
  obtains v logs where "decode_block (ew_codec w) v logs h = Inr (gb_inner gb)"
    "decode_header (ew_codec w) v h = Inr (gb_header gb)"
    "evm_request w a ''eth_getLogs'' (JArray [JObject [(''blockHash'', JString (hd_hash (gb_header gb)))]]) = Inr logs"
  using assms by (auto simp: evm_fetch_block_def rbind_eq_Inr generic_block_new_def)

interpretation evm_source: chain_source "evm_fetch_block w a" "evm_header_at w a" for w a
proof unfold_locales
  show "evm_fetch_block w a h = Inr b \<Longrightarrow> hd_height (gb_header b) = h" for h b
    by (elim evm_fetch_block_elim) (blast dest: decode_header_Inr)
  show "evm_header_at w a h = Inr hdr \<Longrightarrow> hd_height hdr = h" for h hdr
    by (auto simp: evm_header_at_def rbind_eq_Inr dest: decode_header_Inr)
qed

section \<open>A fetched block\<close>

lemma transactions_by_index_positions:
  assumes "map et_index txs = map of_nat [0..<length txs]" "length txs \<le> 2 ^ 64" "unat i < length txs"
  shows "transactions_by_index txs i = Some (txs ! unat i)"
proof -
  have idx: "et_index (txs ! k) = of_nat k" if "k < length txs" for k
    using assms(1) that by (metis add_0 length_map nth_map nth_map_upt minus_nat.diff_0)
  have "inj_on (of_nat :: nat \<Rightarrow> u64) {..<length txs}"
    using assms(2) by (auto intro!: inj_onI simp: word_unat_eq_iff unat_of_nat)
  then have "distinct (map et_index txs)"
    unfolding assms(1) by (simp add: distinct_map atLeast0LessThan [symmetric] inj_on_def)
  then have dist: "distinct (map fst (map (\<lambda>t. (et_index t, t)) txs))"
    by (simp add: comp_def)
  have "(i, txs ! unat i) \<in> set (rev (map (\<lambda>t. (et_index t, t)) txs))"
    using idx [OF assms(3)] assms(3) by (force simp: in_set_conv_nth)
  moreover have "distinct (map fst (rev (map (\<lambda>t. (et_index t, t)) txs)))"
    using dist by (simp add: rev_map [symmetric])
  ultimately show ?thesis
    unfolding transactions_by_index_def by (simp add: map_of_eq_Some_iff)
qed

lemma evm_fetch_block_ok:
  assumes "evm_fetch_block w a h = Inr gb"
  shows "eb_number (gb_inner gb) = h \<and> block_well_formed (gb_inner gb) \<and>
     gb_header gb = evm_block_header (ew_codec w) (gb_inner gb)"
  using assms
proof (rule evm_fetch_block_elim)
  fix v logs
  assume b: "decode_block (ew_codec w) v logs h = Inr (gb_inner gb)"
    and hdr: "decode_header (ew_codec w) v h = Inr (gb_header gb)"
  obtain raw where "logs = JArray raw" using decode_block_json_array [OF b] by blast
  with decode_block_ok [of "ew_codec w" v raw h "gb_inner gb"] b decode_block_header [OF b] hdr
  show ?thesis by simp
qed

text \<open>C9: The adapter delivers the block that was asked for: its header and its body carry the
  requested height and are two readings of one and the same block, and the body is well
  formed, so the header the engine checks for linkage is the header of the data it indexes.\<close>

theorem evm_fetch_block_correct:
  assumes "evm_fetch_block w a h = Inr gb"
  shows "hd_height (gb_header gb) = h \<and> eb_number (gb_inner gb) = h \<and>
     hd_hash (gb_header gb) = eb_hash (gb_inner gb) \<and>
     hd_parent_hash (gb_header gb) = Some (eb_parent_hash (gb_inner gb)) \<and>
     gb_header gb = evm_block_header (ew_codec w) (gb_inner gb) \<and>
     block_well_formed (gb_inner gb)"
  using evm_fetch_block_ok [OF assms] evm_source.fetch_height [OF assms]
  by (auto simp: evm_block_header_def)

definition demo_evm_network :: "string \<Rightarrow> json \<Rightarrow> network" where
  "demo_evm_network meth params attempt provider =
     \<lparr>ae_chain_id = ReplyValue (JString ''0x1''),
      ae_reply = (if meth = ''eth_getLogs''
                  then ReplyValue (JArray [demo_raw_log ''0x1'', demo_raw_log ''0x0''])
                  else ReplyValue demo_raw_block),
      ae_timed_out = False\<rparr>"

definition demo_world :: evm_world where
  "demo_world = \<lparr>ew_parse_url = (\<lambda>s. Inr (demo_url s)), ew_codec = demo_codec,
     ew_network = demo_evm_network\<rparr>"

definition demo_generic_block :: "evm_block generic_block" where
  "demo_generic_block = generic_block_new (evm_block_header demo_codec demo_evm_block) demo_evm_block"

lemma demo_evm_request:
  "evm_request demo_world (evm_adapter_new demo_evm_config) ''eth_getLogs'' params =
     Inr (JArray [demo_raw_log ''0x1'', demo_raw_log ''0x0''])"
  "evm_request demo_world (evm_adapter_new demo_evm_config) ''eth_getBlockByNumber'' params =
     Inr demo_raw_block"
  by (simp_all add: evm_request_def demo_world_def evm_adapter_new_def demo_client_new
      rpc_request_def demo_rpc_client_def upt_rec rpc_attempt_def demo_evm_network_def rpc_call_def
      demo_quantities)

lemma demo_fetch_block:
  "evm_fetch_block demo_world (evm_adapter_new demo_evm_config) 2 = Inr demo_generic_block"
proof -
  have "ew_codec demo_world = demo_codec" by (simp add: demo_world_def)
  then show ?thesis
    by (simp add: evm_fetch_block_def demo_evm_request decode_block_header [OF demo_decode_block]
        demo_decode_block demo_generic_block_def)
qed

theorem evm_fetch_block_correct_witness:
  "hd_height (gb_header demo_generic_block) = 2 \<and> block_well_formed (gb_inner demo_generic_block)"
  using evm_fetch_block_correct [OF demo_fetch_block] by blast

text \<open>C30: Every log of a fetched block reaches the mappings exactly once and in order, paired
  with the transaction that emitted it: the one whose hash the log names.\<close>

theorem decode_events_paired:
  assumes "evm_fetch_block w a h = Inr gb" "length (eb_transactions (gb_inner gb)) \<le> 2 ^ 64"
  shows "map ee_log (decode_events (gb_inner gb)) = eb_logs (gb_inner gb) \<and>
    (\<forall>e\<in>set (decode_events (gb_inner gb)). ee_block_number e = h \<and>
       (\<exists>t\<in>set (eb_transactions (gb_inner gb)). ee_transaction e = Some t \<and>
          et_hash t = el_transaction_hash (ee_log e)))"
proof -
  let ?b = "gb_inner gb"
  from evm_fetch_block_ok [OF assms(1)] have wf: "block_well_formed ?b" and n: "eb_number ?b = h"
    by simp_all
  have pair: "transactions_by_index (eb_transactions ?b) (el_transaction_index l) =
      Some (eb_transactions ?b ! unat (el_transaction_index l)) \<and>
      el_transaction_hash l = et_hash (eb_transactions ?b ! unat (el_transaction_index l)) \<and>
      unat (el_transaction_index l) < length (eb_transactions ?b)"
    if "l \<in> set (eb_logs ?b)" for l
    using wf that assms(2)
    by (auto simp: block_well_formed_def list_all_iff intro!: transactions_by_index_positions)
  show ?thesis
    by (auto simp: decode_events_def comp_def n pair intro!: bexI nth_mem)
qed

theorem decode_events_paired_witness:
  "map (\<lambda>e. (el_log_index (ee_log e), map_option et_hash (ee_transaction e)))
     (decode_events demo_evm_block) = [(0, Some ''0xc0''), (1, Some ''0xc0'')]"
proof -
  have b: "gb_inner demo_generic_block = demo_evm_block"
    by (simp add: demo_generic_block_def generic_block_new_def)
  have "length (eb_transactions (gb_inner demo_generic_block)) \<le> 2 ^ 64"
    by (simp add: b demo_evm_block_def)
  from decode_events_paired [OF demo_fetch_block this, unfolded b] show ?thesis
    by (simp add: decode_events_def demo_evm_block_def demo_evm_log_def)
qed

section \<open>Heights\<close>

text \<open>The finalized height never takes more trust than the chain gives: it is the number
  the endpoint itself calls finalized, zero when the endpoint has none yet, or, only when the
  endpoint does not know the tag, the configured number of confirmations behind its head,
  stopping at zero; every other failure is reported.\<close>

lemma finalized_height_sources:
  "evm_finalized_height w a =
     (case evm_request w a ''eth_getBlockByNumber'' (JArray [JString ''finalized'', JBool False]) of
        Inr JNull \<Rightarrow> Inr 0
      | Inr v \<Rightarrow> quantity (json_index v ''number'')
      | Inl e \<Rightarrow>
          (case (e, evm_latest_height w a) of
             (Rpc code, Inr latest) \<Rightarrow>
               if code = - 32601 \<or> code = - 32602
               then Inr (of_nat (unat latest - unat (ec_finality_confirmations (ea_config a))))
               else Inl e
           | (Rpc code, Inl e') \<Rightarrow> if code = - 32601 \<or> code = - 32602 then Inl e' else Inl e
           | _ \<Rightarrow> Inl e))"
  by (auto simp: evm_finalized_height_def int_simps [symmetric] rbind_def
      split: sum.splits json.splits chain_error.splits)

end
