(* ===== verification/Sq_Manifest.thy ===== *)
theory Sq_Manifest
  imports Sq_ConfigDb Sq_ChainApi
begin

text \<open>
  The project manifest of the SDK: chain families and project names
  (\<open>vendor/sdk/types/src/{chain,id}.rs\<close>), the document
  (\<open>vendor/sdk/manifest/src/{project,network,datasource,handler,filter}.rs\<close>) and its
  validation (\<open>validate.rs\<close>). Paths are strings; the file system is the parameter
  \<open>base_dir\<close>, which tells of a path relative to the manifest whether a file is there. The
  semver parser is the parameter \<open>semver\<close>. The main lemma states when a manifest has no
  blocking finding.
\<close>

section \<open>Chain families and project names\<close>

datatype chain_family = Evm | Stellar | Solana

fun family_as_str :: "chain_family \<Rightarrow> string" where
  "family_as_str Evm = ''evm''"
| "family_as_str Stellar = ''stellar''"
| "family_as_str Solana = ''solana''"

definition family_kind_prefix :: "chain_family \<Rightarrow> string" where
  "family_kind_prefix f = family_as_str f"

definition family_parse :: "string \<Rightarrow> string + chain_family" where
  "family_parse s =
     (if s = ''evm'' \<or> s = ''ethereum'' then Inr Evm
      else if s = ''stellar'' then Inr Stellar
      else if s = ''solana'' then Inr Solana
      else Inl s)"

definition family_is_implemented :: "chain_family \<Rightarrow> bool" where
  "family_is_implemented f = (f = Evm)"

record invalid_project_id =
  ip_found :: string
  ip_reason :: string

definition project_id_new :: "string \<Rightarrow> invalid_project_id + string" where
  "project_id_new name =
     (let invalid = (\<lambda>reason. Inl \<lparr>ip_found = name, ip_reason = reason\<rparr>)
      in if name = [] then invalid ''must not be empty''
         else if 48 < length name then invalid ''must be at most 48 characters''
         else if \<not> is_ascii_lowercase (hd name) then invalid ''must start with a lowercase letter''
         else if last name = CHR ''-'' then invalid ''must not end with `-`''
         else if \<not> list_all (\<lambda>c. is_ascii_lowercase c \<or> is_ascii_digit c \<or> c = CHR ''-'') name
         then invalid ''may only contain lowercase letters, digits and `-`''
         else Inr name)"

section \<open>The document\<close>

record log_filter =
  mf_event :: string
  mf_topics :: "string list"

record transaction_filter =
  mf_function :: string
  mf_from :: "string option"
  mf_to :: "string option"

datatype handler_filter =
    FilterLog log_filter
  | FilterTransaction transaction_filter
  | FilterBlock block_filter

fun filter_shape :: "handler_filter \<Rightarrow> string" where
  "filter_shape (FilterLog _) = ''log filter (`event`)''"
| "filter_shape (FilterTransaction _) = ''transaction filter (`function`)''"
| "filter_shape (FilterBlock _) = ''block filter (`modulo`/`timestamp`)''"

record handler =
  ha_handler :: string
  ha_kind :: string
  ha_filter :: "handler_filter option"

datatype endpoints = NoEndpoints | OneEndpoint url | ManyEndpoints "url list"

fun endpoints_as_slice :: "endpoints \<Rightarrow> url list" where
  "endpoints_as_slice NoEndpoints = []"
| "endpoints_as_slice (OneEndpoint u) = [u]"
| "endpoints_as_slice (ManyEndpoints us) = us"

definition endpoints_is_empty :: "endpoints \<Rightarrow> bool" where
  "endpoints_is_empty e = (endpoints_as_slice e = [])"

record network_config =
  nw_family :: chain_family
  nw_chain_id :: string
  nw_endpoint :: endpoints
  nw_dictionary :: "url option"
  nw_chaintypes :: "string option"

record data_source =
  ds_kind :: string
  ds_name :: "string option"
  ds_start_block :: "u64 option"
  ds_end_block :: "u64 option"
  ds_options :: "(string \<times> json) list"
  ds_assets :: "(string \<times> string) list"
  ds_handlers :: "handler list"

text \<open>The name and the kind are strings; \<open>str::split_once\<close> cuts at the first slash.\<close>

fun split_once :: "char \<Rightarrow> string \<Rightarrow> (string \<times> string) option" where
  "split_once sep [] = None"
| "split_once sep (c # cs) =
     (if c = sep then Some ([], cs)
      else map_option (\<lambda>(a, b). (c # a, b)) (split_once sep cs))"

definition kind_family_prefix :: "string \<Rightarrow> string option" where
  "kind_family_prefix kind = map_option fst (split_once CHR ''/'' kind)"

definition kind_suffix :: "string \<Rightarrow> string option" where
  "kind_suffix kind = map_option snd (split_once CHR ''/'' kind)"

definition kind_belongs_to :: "string \<Rightarrow> chain_family \<Rightarrow> bool" where
  "kind_belongs_to kind family = (kind_family_prefix kind = Some (family_kind_prefix family))"

definition options_get_str :: "(string \<times> json) list \<Rightarrow> string \<Rightarrow> string option" where
  "options_get_str opts key = (case map_of opts key of Some v \<Rightarrow> json_as_str v | None \<Rightarrow> None)"

definition options_contains :: "(string \<times> json) list \<Rightarrow> string \<Rightarrow> bool" where
  "options_contains opts key = (map_of opts key \<noteq> None)"

definition options_keys :: "(string \<times> json) list \<Rightarrow> string list" where
  "options_keys opts = map fst opts"

definition ds_label :: "data_source \<Rightarrow> string" where
  "ds_label ds = (case ds_name ds of Some n \<Rightarrow> n | None \<Rightarrow> ds_kind ds)"

datatype spec_version = V1_0

fun spec_version_as_str :: "spec_version \<Rightarrow> string" where
  "spec_version_as_str V1_0 = ''1.0''"

record project_manifest =
  pm_spec_version :: spec_version
  pm_name :: string
  pm_version :: string
  pm_description :: "string option"
  pm_license :: "string option"
  pm_network :: network_config
  pm_schema :: string
  pm_start_block :: "u64 option"
  pm_data_sources :: "data_source list"

definition option_or :: "'a option \<Rightarrow> 'a option \<Rightarrow> 'a option" where
  "option_or a b = (case a of Some _ \<Rightarrow> a | None \<Rightarrow> b)"

definition effective_start_block :: "project_manifest \<Rightarrow> data_source \<Rightarrow> u64" where
  "effective_start_block m ds = or_default (option_or (ds_start_block ds) (pm_start_block m)) 0"

definition min_start_block :: "project_manifest \<Rightarrow> u64" where
  "min_start_block m =
     (case map (effective_start_block m) (pm_data_sources m) of
        [] \<Rightarrow> or_default (pm_start_block m) 0
      | h # hs \<Rightarrow> fold min hs h)"

definition handler_names :: "project_manifest \<Rightarrow> string list" where
  "handler_names m = concat (map (\<lambda>ds. map ha_handler (ds_handlers ds)) (pm_data_sources m))"

lemma min_start_block_least:
  "ds \<in> set (pm_data_sources m) \<Longrightarrow> min_start_block m \<le> effective_start_block m ds"
proof -
  assume ds: "ds \<in> set (pm_data_sources m)"
  then obtain h hs where hs: "pm_data_sources m = h # hs" by (cases "pm_data_sources m") auto
  have "min_start_block m = Min (set (map (effective_start_block m) (h # hs)))"
    using Min.set_eq_fold [of "effective_start_block m h" "map (effective_start_block m) hs"]
    by (simp add: min_start_block_def hs)
  with ds hs show ?thesis by (auto intro!: Min_le)
qed

section \<open>Findings\<close>

datatype severity = SevError | SevWarning

record diagnostic =
  dg_field :: string
  dg_message :: string
  dg_help :: "string option"
  dg_severity :: severity

definition diagnostic_error :: "string \<Rightarrow> string \<Rightarrow> diagnostic" where
  "diagnostic_error field message =
     \<lparr>dg_field = field, dg_message = message, dg_help = None, dg_severity = SevError\<rparr>"

definition diagnostic_warning :: "string \<Rightarrow> string \<Rightarrow> diagnostic" where
  "diagnostic_warning field message =
     \<lparr>dg_field = field, dg_message = message, dg_help = None, dg_severity = SevWarning\<rparr>"

definition diagnostic_with_help :: "diagnostic \<Rightarrow> string \<Rightarrow> diagnostic" where
  "diagnostic_with_help d help = d\<lparr>dg_help := Some help\<rparr>"

text \<open>A report is the list of its diagnostics; checks append to it.\<close>

definition report_errors :: "diagnostic list \<Rightarrow> diagnostic list" where
  "report_errors report = filter (\<lambda>d. dg_severity d = SevError) report"

definition report_warnings :: "diagnostic list \<Rightarrow> diagnostic list" where
  "report_warnings report = filter (\<lambda>d. dg_severity d = SevWarning) report"

definition has_errors :: "diagnostic list \<Rightarrow> bool" where
  "has_errors report = (report_errors report \<noteq> [])"

datatype manifest_error = Invalid nat "diagnostic list"

definition into_result :: "diagnostic list \<Rightarrow> manifest_error + diagnostic list" where
  "into_result report =
     (if has_errors report
      then Inl (Invalid (length (report_errors report)) (report_errors report))
      else Inr report)"

lemma dg_severity_simps [simp]:
  "dg_severity (diagnostic_error f msg) = SevError"
  "dg_severity (diagnostic_warning f msg) = SevWarning"
  "dg_severity (diagnostic_with_help d h) = dg_severity d"
  by (simp_all add: diagnostic_error_def diagnostic_warning_def diagnostic_with_help_def)

lemma has_errors_simps [simp]:
  "\<not> has_errors []"
  "has_errors (xs @ ys) \<longleftrightarrow> has_errors xs \<or> has_errors ys"
  "has_errors [d] \<longleftrightarrow> dg_severity d = SevError"
  by (auto simp: has_errors_def report_errors_def)

lemma has_errors_if [simp]: "has_errors (if c then a else b) = (if c then has_errors a else has_errors b)"
  by simp

lemma snd_if [simp]: "snd (if c then a else b) = (if c then snd a else snd b)"
  by simp

section \<open>Validation\<close>

text \<open>
  \<open>str::trim().is_empty()\<close>: only white space. The white space of Unicode, in UTF-8: the
  ASCII controls and the blank, U+0085, U+00A0, U+1680, U+2000 to U+200A, U+2028, U+2029,
  U+202F, U+205F and U+3000.
\<close>

fun whitespace_len :: "nat list \<Rightarrow> nat" where
  "whitespace_len (a # rest) =
     (if 9 \<le> a \<and> a \<le> 13 \<or> a = 32 then 1
      else case rest of
        [] \<Rightarrow> 0
      | b # rest' \<Rightarrow>
          if a = 194 \<and> (b = 133 \<or> b = 160) then 2
          else case rest' of
            [] \<Rightarrow> 0
          | c # _ \<Rightarrow>
              if a = 225 \<and> b = 154 \<and> c = 128
                \<or> a = 226 \<and> b = 128 \<and> (128 \<le> c \<and> c \<le> 138 \<or> c = 168 \<or> c = 169 \<or> c = 175)
                \<or> a = 226 \<and> b = 129 \<and> c = 159
                \<or> a = 227 \<and> b = 128 \<and> c = 128
              then 3 else 0)"
| "whitespace_len [] = 0"

function blank_bytes :: "nat list \<Rightarrow> bool" where
  "blank_bytes bs =
     (if bs = [] then True
      else if whitespace_len bs = 0 then False
      else blank_bytes (drop (whitespace_len bs) bs))"
  by pat_completeness auto
termination
  by (relation "measure length") auto

declare blank_bytes.simps [simp del]

definition trim_is_empty :: "string \<Rightarrow> bool" where
  "trim_is_empty s = blank_bytes (map of_char s)"

definition check_identity :: "(string \<Rightarrow> bool) \<Rightarrow> project_manifest \<Rightarrow> diagnostic list \<Rightarrow> diagnostic list" where
  "check_identity semver m report =
     (let report =
        (case project_id_new (pm_name m) of
           Inl e \<Rightarrow> report @ [diagnostic_with_help (diagnostic_error ''name'' (ip_reason e))
             ''the project name becomes a directory, a database schema and a URL segment, so it is restricted to lowercase letters, digits and `-`'']
         | Inr _ \<Rightarrow> report)
      in if \<not> semver (pm_version m)
         then report @ [diagnostic_with_help
           (diagnostic_warning ''version'' (''`'' @ pm_version m @ ''` is not a semver version''))
           ''use a version like `0.1.0` so tooling can order releases'']
         else report)"

definition check_network :: "project_manifest \<Rightarrow> diagnostic list \<Rightarrow> diagnostic list" where
  "check_network m report =
     (let network = pm_network m;
          report =
            (if \<not> family_is_implemented (nw_family network)
             then report @ [diagnostic_with_help
               (diagnostic_error ''network.family''
                  (''chain family `'' @ family_as_str (nw_family network) @
                   ''` is not implemented in this SDK build''))
               ''only `evm` is supported today; Stellar and Solana land in Milestone 12'']
             else report);
          report =
            (if trim_is_empty (nw_chain_id network)
             then report @ [diagnostic_with_help
               (diagnostic_error ''network.chainId'' ''must not be empty'')
               ''for EVM this is the numeric chain id, e.g. \"1\" for Ethereum mainnet'']
             else if nw_family network = Evm \<and> parse_u64 (nw_chain_id network) = None
             then report @ [diagnostic_with_help
               (diagnostic_error ''network.chainId''
                  (''`'' @ nw_chain_id network @ ''` is not a numeric EVM chain id''))
               ''EVM chain ids are decimal numbers written as strings, e.g. \"1\"'']
             else report)
      in if endpoints_is_empty (nw_endpoint network)
         then report @ [diagnostic_with_help
           (diagnostic_warning ''network.endpoint'' ''no RPC endpoint declared'')
           ''the node will need one supplied at run time to index this project'']
         else report)"

definition check_schema ::
  "project_manifest \<Rightarrow> (string \<Rightarrow> bool) option \<Rightarrow> diagnostic list \<Rightarrow> diagnostic list" where
  "check_schema m base_dir report =
     (case base_dir of
        None \<Rightarrow> report
      | Some is_file \<Rightarrow>
          if \<not> is_file (pm_schema m)
          then report @ [diagnostic_with_help
            (diagnostic_error ''schema.file'' (''`'' @ pm_schema m @ ''` does not exist''))
            ''create the GraphQL entity schema, or fix the path'']
          else report)"

definition expected_shape :: "string \<Rightarrow> string option" where
  "expected_shape suff =
     (if ends_with suff ''LogHandler'' \<or> ends_with suff ''EventHandler'' then Some ''log''
      else if ends_with suff ''TransactionHandler'' \<or> ends_with suff ''CallHandler''
      then Some ''transaction''
      else if ends_with suff ''BlockHandler'' then Some ''block''
      else None)"

fun actual_shape :: "handler_filter \<Rightarrow> string" where
  "actual_shape (FilterLog _) = ''log''"
| "actual_shape (FilterTransaction _) = ''transaction''"
| "actual_shape (FilterBlock _) = ''block''"

definition check_filter_shape :: "handler \<Rightarrow> string \<Rightarrow> diagnostic list \<Rightarrow> diagnostic list" where
  "check_filter_shape h field report =
     (case ha_filter h of
        None \<Rightarrow> report
      | Some f \<Rightarrow>
          (case kind_suffix (ha_kind h) of
             None \<Rightarrow> report
           | Some suff \<Rightarrow>
               (case expected_shape suff of
                  None \<Rightarrow> report
                | Some expected \<Rightarrow>
                    if expected \<noteq> actual_shape f
                    then report @ [diagnostic_with_help
                      (diagnostic_error field
                        (''handler kind `'' @ ha_kind h @ ''` expects a '' @ expected @
                         '' filter, but found a '' @ filter_shape f))
                      ''a mismatched filter never matches, so the handler would never run'']
                    else report)))"

definition show_index :: "nat \<Rightarrow> string" where
  "show_index i = show_radix 10 i"

definition at_source :: "nat \<Rightarrow> string \<Rightarrow> string" where
  "at_source i suff = ''dataSources['' @ show_index i @ '']'' @ suff"

definition at_handler :: "nat \<Rightarrow> nat \<Rightarrow> string \<Rightarrow> string" where
  "at_handler i j suff =
     ''dataSources['' @ show_index i @ ''].handlers['' @ show_index j @ '']'' @ suff"

text \<open>The test of the name, then the test of the kind and the filter of one handler.\<close>

definition check_handler_name ::
  "nat \<Rightarrow> nat \<Rightarrow> handler \<Rightarrow> string list \<times> diagnostic list \<Rightarrow> string list \<times> diagnostic list" where
  "check_handler_name i j h acc =
     (if trim_is_empty (ha_handler h)
      then (fst acc, snd acc @ [diagnostic_error (at_handler i j ''.handler'')
              ''handler name must not be empty''])
      else if ha_handler h \<in> set (fst acc)
      then (fst acc, snd acc @ [diagnostic_with_help
              (diagnostic_warning (at_handler i j ''.handler'')
                (''`'' @ ha_handler h @ ''` is referenced by more than one handler entry''))
              ''this is legal, but usually means a copy/paste slip''])
      else (ha_handler h # fst acc, snd acc))"

definition check_handler ::
  "chain_family \<Rightarrow> nat \<Rightarrow> nat \<Rightarrow> handler \<Rightarrow> string list \<times> diagnostic list \<Rightarrow>
     string list \<times> diagnostic list" where
  "check_handler family i j h acc =
     (case check_handler_name i j h acc of (seen, report) \<Rightarrow>
        (if \<not> kind_belongs_to (ha_kind h) family
         then (seen, report @ [diagnostic_with_help
                 (diagnostic_error (at_handler i j ''.kind'')
                   (''`'' @ ha_kind h @ ''` is not a `'' @ family_as_str family @ ''` handler kind''))
                 (''expected a kind prefixed `'' @ family_kind_prefix family @ ''/`'')])
         else (seen, check_filter_shape h (at_handler i j ''.filter'') report)))"

fun check_handlers ::
  "chain_family \<Rightarrow> nat \<Rightarrow> nat \<Rightarrow> handler list \<Rightarrow> string list \<times> diagnostic list \<Rightarrow>
     string list \<times> diagnostic list" where
  "check_handlers family i j [] acc = acc"
| "check_handlers family i j (h # hs) acc =
     check_handlers family i (Suc j) hs (check_handler family i j h acc)"

definition check_asset ::
  "(string \<Rightarrow> bool) option \<Rightarrow> nat \<Rightarrow> string \<times> string \<Rightarrow> diagnostic list \<Rightarrow> diagnostic list" where
  "check_asset base_dir i asset report =
     (case base_dir of
        None \<Rightarrow> report
      | Some is_file \<Rightarrow>
          if \<not> is_file (snd asset)
          then report @ [diagnostic_with_help
            (diagnostic_error (at_source i (''.assets.'' @ fst asset @ ''.file''))
              (''`'' @ snd asset @ ''` does not exist''))
            ''check the path, or run `superquery codegen` after adding the file'']
          else report)"

definition check_assets ::
  "(string \<Rightarrow> bool) option \<Rightarrow> nat \<Rightarrow> (string \<times> string) list \<Rightarrow> diagnostic list \<Rightarrow> diagnostic list" where
  "check_assets base_dir i assets report = fold (check_asset base_dir i) assets report"

definition check_source_name ::
  "nat \<Rightarrow> data_source \<Rightarrow> string list \<times> diagnostic list \<Rightarrow> string list \<times> diagnostic list" where
  "check_source_name i ds acc =
     (case ds_name ds of
        None \<Rightarrow> acc
      | Some name \<Rightarrow>
          if name \<in> set (fst acc)
          then (fst acc, snd acc @ [diagnostic_with_help
            (diagnostic_error (at_source i ''.name'') (''duplicate datasource name `'' @ name @ ''`''))
            ''datasource names must be unique within a project''])
          else (name # fst acc, snd acc))"

definition check_source_kind :: "chain_family \<Rightarrow> nat \<Rightarrow> data_source \<Rightarrow> diagnostic list \<Rightarrow> diagnostic list" where
  "check_source_kind family i ds report =
     (if \<not> kind_belongs_to (ds_kind ds) family
      then report @ [diagnostic_with_help
        (diagnostic_error (at_source i ''.kind'')
          (''`'' @ ds_kind ds @ ''` is not a `'' @ family_as_str family @ ''` datasource kind''))
        (''expected a kind prefixed `'' @ family_kind_prefix family @ ''/`'')]
      else report)"

definition check_source_range :: "u64 \<Rightarrow> nat \<Rightarrow> data_source \<Rightarrow> diagnostic list \<Rightarrow> diagnostic list" where
  "check_source_range start i ds report =
     (case ds_end_block ds of
        None \<Rightarrow> report
      | Some end \<Rightarrow>
          if end < start
          then report @ [diagnostic_error (at_source i ''.endBlock'')
            (''endBlock '' @ show_u64 end @ '' is before startBlock '' @ show_u64 start)]
          else report)"

definition check_source_handlers :: "nat \<Rightarrow> data_source \<Rightarrow> diagnostic list \<Rightarrow> diagnostic list" where
  "check_source_handlers i ds report =
     (if ds_handlers ds = []
      then report @ [diagnostic_with_help
        (diagnostic_error (at_source i ''.handlers'') ''a datasource must declare at least one handler'')
        ''without a handler this datasource would index nothing'']
      else report)"

text \<open>The body of the loop over the datasources.\<close>

definition check_data_source ::
  "project_manifest \<Rightarrow> (string \<Rightarrow> bool) option \<Rightarrow> nat \<Rightarrow> data_source \<Rightarrow>
     string list \<times> string list \<times> diagnostic list \<Rightarrow> string list \<times> string list \<times> diagnostic list" where
  "check_data_source m base_dir i ds acc =
     (case acc of (seen_names, seen_handlers, report) \<Rightarrow>
        let family = nw_family (pm_network m);
            named = check_source_name i ds (seen_names, report);
            report = check_source_kind family i ds (snd named);
            report = check_source_range (effective_start_block m ds) i ds report;
            report = check_assets base_dir i (ds_assets ds) report;
            report = check_source_handlers i ds report
        in (fst named, check_handlers family i 0 (ds_handlers ds) (seen_handlers, report)))"

fun check_each_source ::
  "project_manifest \<Rightarrow> (string \<Rightarrow> bool) option \<Rightarrow> nat \<Rightarrow> data_source list \<Rightarrow>
     string list \<times> string list \<times> diagnostic list \<Rightarrow> string list \<times> string list \<times> diagnostic list" where
  "check_each_source m base_dir i [] acc = acc"
| "check_each_source m base_dir i (ds # dss) acc =
     check_each_source m base_dir (Suc i) dss (check_data_source m base_dir i ds acc)"

definition check_data_sources ::
  "project_manifest \<Rightarrow> (string \<Rightarrow> bool) option \<Rightarrow> diagnostic list \<Rightarrow> diagnostic list" where
  "check_data_sources m base_dir report =
     (if pm_data_sources m = []
      then report @ [diagnostic_with_help
        (diagnostic_error ''dataSources'' ''a project must declare at least one datasource'')
        ''add an entry describing the contract or blocks to index'']
      else snd (snd (check_each_source m base_dir 0 (pm_data_sources m) ([], [], report))))"

definition validate ::
  "(string \<Rightarrow> bool) \<Rightarrow> project_manifest \<Rightarrow> (string \<Rightarrow> bool) option \<Rightarrow> diagnostic list" where
  "validate semver m base_dir =
     check_data_sources m base_dir
       (check_schema m base_dir (check_network m (check_identity semver m [])))"

section \<open>What validation accepts\<close>

definition handler_acceptable :: "chain_family \<Rightarrow> handler \<Rightarrow> bool" where
  "handler_acceptable family h =
     (\<not> trim_is_empty (ha_handler h) \<and> kind_belongs_to (ha_kind h) family \<and>
      (case (ha_filter h, kind_suffix (ha_kind h)) of
         (Some f, Some suff) \<Rightarrow>
           (case expected_shape suff of None \<Rightarrow> True | Some e \<Rightarrow> e = actual_shape f)
       | _ \<Rightarrow> True))"

definition source_acceptable ::
  "project_manifest \<Rightarrow> (string \<Rightarrow> bool) option \<Rightarrow> data_source \<Rightarrow> bool" where
  "source_acceptable m base_dir ds =
     (kind_belongs_to (ds_kind ds) (nw_family (pm_network m)) \<and>
      (case ds_end_block ds of None \<Rightarrow> True | Some e \<Rightarrow> effective_start_block m ds \<le> e) \<and>
      (case base_dir of None \<Rightarrow> True | Some is_file \<Rightarrow> list_all (is_file \<circ> snd) (ds_assets ds)) \<and>
      ds_handlers ds \<noteq> [] \<and>
      list_all (handler_acceptable (nw_family (pm_network m))) (ds_handlers ds))"

definition declared_names :: "data_source list \<Rightarrow> string list" where
  "declared_names dss = List.map_filter ds_name dss"

lemma declared_names_simps [simp]:
  "declared_names [] = []"
  "declared_names (ds # dss) =
     (case ds_name ds of None \<Rightarrow> declared_names dss | Some n \<Rightarrow> n # declared_names dss)"
  by (simp_all add: declared_names_def map_filter_simps split: option.splits)

lemma check_filter_shape_errors:
  "has_errors (check_filter_shape h field report) \<longleftrightarrow> has_errors report \<or>
     \<not> (case (ha_filter h, kind_suffix (ha_kind h)) of
         (Some f, Some suff) \<Rightarrow>
           (case expected_shape suff of None \<Rightarrow> True | Some e \<Rightarrow> e = actual_shape f)
       | _ \<Rightarrow> True)"
  by (auto simp: check_filter_shape_def split: option.splits)

lemma check_handler_name_errors:
  "has_errors (snd (check_handler_name i j h acc)) \<longleftrightarrow>
     has_errors (snd acc) \<or> trim_is_empty (ha_handler h)"
  unfolding check_handler_name_def by (simp only: snd_conv snd_if has_errors_if has_errors_simps
      dg_severity_simps) simp

lemma check_handler_errors:
  "has_errors (snd (check_handler family i j h acc)) \<longleftrightarrow>
     has_errors (snd acc) \<or> \<not> handler_acceptable family h"
  unfolding check_handler_def prod.case_eq_if snd_if snd_conv has_errors_if has_errors_simps
    check_filter_shape_errors check_handler_name_errors dg_severity_simps handler_acceptable_def
  by auto

lemma check_handlers_errors:
  "has_errors (snd (check_handlers family i j hs acc)) \<longleftrightarrow>
     has_errors (snd acc) \<or> \<not> list_all (handler_acceptable family) hs"
proof (induction hs arbitrary: j acc)
  case (Cons h hs)
  then show ?case
    using check_handler_errors [of family i j h acc] by auto
qed simp

lemma check_asset_errors:
  "has_errors (check_asset base_dir i asset report) \<longleftrightarrow> has_errors report \<or>
     \<not> (case base_dir of None \<Rightarrow> True | Some is_file \<Rightarrow> is_file (snd asset))"
  by (auto simp: check_asset_def split: option.splits)

lemma check_assets_errors:
  "has_errors (check_assets base_dir i assets report) \<longleftrightarrow> has_errors report \<or>
     \<not> (case base_dir of None \<Rightarrow> True | Some is_file \<Rightarrow> list_all (is_file \<circ> snd) assets)"
proof (induction assets arbitrary: report)
  case (Cons a assets)
  have "check_assets base_dir i (a # assets) report =
      check_assets base_dir i assets (check_asset base_dir i a report)"
    by (simp add: check_assets_def)
  with Cons.IH [of "check_asset base_dir i a report"] check_asset_errors [of base_dir i a report]
  show ?case by (auto split: option.splits)
qed (simp add: check_assets_def split: option.split)

lemma check_data_source_names:
  "fst (check_data_source m base_dir i ds (names, handlers, report)) =
     (case ds_name ds of None \<Rightarrow> names | Some n \<Rightarrow> if n \<in> set names then names else n # names)"
  by (simp add: check_data_source_def check_source_name_def Let_def split: option.split)

lemma check_source_name_errors:
  "has_errors (snd (check_source_name i ds acc)) \<longleftrightarrow> has_errors (snd acc) \<or>
     (case ds_name ds of None \<Rightarrow> False | Some n \<Rightarrow> n \<in> set (fst acc))"
  by (cases "ds_name ds") (simp_all add: check_source_name_def del: append_Cons)

lemma check_source_kind_errors:
  "has_errors (check_source_kind family i ds report) \<longleftrightarrow>
     has_errors report \<or> \<not> kind_belongs_to (ds_kind ds) family"
  by (simp add: check_source_kind_def del: append_Cons)

lemma check_source_range_errors:
  "has_errors (check_source_range start i ds report) \<longleftrightarrow> has_errors report \<or>
     \<not> (case ds_end_block ds of None \<Rightarrow> True | Some e \<Rightarrow> start \<le> e)"
  by (cases "ds_end_block ds") (auto simp add: check_source_range_def simp del: append_Cons)

lemma check_source_handlers_errors:
  "has_errors (check_source_handlers i ds report) \<longleftrightarrow> has_errors report \<or> ds_handlers ds = []"
  by (simp add: check_source_handlers_def del: append_Cons)

lemmas check_errors = check_source_name_errors check_source_kind_errors check_source_range_errors
  check_source_handlers_errors check_assets_errors check_handlers_errors

lemma check_data_source_errors:
  "has_errors (snd (snd (check_data_source m base_dir i ds (names, handlers, report)))) \<longleftrightarrow>
     has_errors report \<or> \<not> source_acceptable m base_dir ds \<or>
     (case ds_name ds of None \<Rightarrow> False | Some n \<Rightarrow> n \<in> set names)"
  unfolding check_data_source_def prod.case Let_def snd_conv fst_conv check_errors source_acceptable_def
  by blast

lemma check_each_source_errors:
  "has_errors (snd (snd (check_each_source m base_dir i dss acc))) \<longleftrightarrow>
     has_errors (snd (snd acc)) \<or> \<not> list_all (source_acceptable m base_dir) dss \<or>
     \<not> distinct (declared_names dss) \<or> set (declared_names dss) \<inter> set (fst acc) \<noteq> {}"
proof (induction dss arbitrary: i acc)
  case (Cons ds dss)
  obtain names handlers report where acc: "acc = (names, handlers, report)" by (cases acc)
  show ?case
    unfolding check_each_source.simps Cons.IH acc check_data_source_errors check_data_source_names
    by (auto split: option.splits)
qed simp

definition project_name_ok :: "string \<Rightarrow> bool" where
  "project_name_ok name =
     (name \<noteq> [] \<and> length name \<le> 48 \<and> is_ascii_lowercase (hd name) \<and> last name \<noteq> CHR ''-'' \<and>
      list_all (\<lambda>c. is_ascii_lowercase c \<or> is_ascii_digit c \<or> c = CHR ''-'') name)"

lemma project_id_new_iff: "project_id_new name = Inr p \<longleftrightarrow> p = name \<and> project_name_ok name"
  by (auto simp: project_id_new_def project_name_ok_def Let_def not_le)

lemma project_id_new_Inl: "(\<exists>e. project_id_new name = Inl e) \<longleftrightarrow> \<not> project_name_ok name"
  by (auto simp: project_id_new_def project_name_ok_def Let_def not_le)

lemma check_identity_errors:
  "has_errors (check_identity semver m report) \<longleftrightarrow> has_errors report \<or> \<not> project_name_ok (pm_name m)"
proof (cases "project_id_new (pm_name m)")
  case (Inl e)
  then have "\<not> project_name_ok (pm_name m)" using project_id_new_Inl by blast
  with Inl show ?thesis by (simp add: check_identity_def Let_def del: append_Cons)
next
  case (Inr p)
  then have "project_name_ok (pm_name m)" by (simp add: project_id_new_iff)
  with Inr show ?thesis by (simp add: check_identity_def Let_def del: append_Cons)
qed

definition network_acceptable :: "network_config \<Rightarrow> bool" where
  "network_acceptable n = (nw_family n = Evm \<and> parse_u64 (nw_chain_id n) \<noteq> None)"

text \<open>A number is no white space, so the two tests of the chain id make one.\<close>

lemma to_digit_not_blank: "to_digit 10 c \<noteq> None \<or> c = CHR ''+'' \<Longrightarrow> \<not> blank_bytes (of_char c # bs)"
proof -
  assume "to_digit 10 c \<noteq> None \<or> c = CHR ''+''"
  then have "43 \<le> (of_char c :: nat)" "(of_char c :: nat) < 128"
    by (auto simp: to_digit_def Let_def split: if_splits)
  then have "whitespace_len (of_char c # bs) = 0"
    by (simp split: list.split)
  then show ?thesis by (simp add: blank_bytes.simps)
qed

lemma parse_u64_not_blank: "parse_u64 s = Some n \<Longrightarrow> \<not> trim_is_empty s"
proof (cases s)
  case (Cons c cs)
  assume "parse_u64 s = Some n"
  with Cons have "to_digit 10 c \<noteq> None \<or> c = CHR ''+''"
    by (auto simp: parse_u64_def from_str_radix_def Let_def split: if_splits option.splits)
  with Cons to_digit_not_blank show ?thesis by (simp add: trim_is_empty_def)
qed (simp add: parse_u64_def from_str_radix_def)

lemma check_network_errors:
  "has_errors (check_network m report) \<longleftrightarrow> has_errors report \<or> \<not> network_acceptable (pm_network m)"
  using parse_u64_not_blank [of "nw_chain_id (pm_network m)"]
  by (auto simp add: check_network_def network_acceptable_def family_is_implemented_def Let_def
      simp del: append_Cons)

lemma check_schema_errors:
  "has_errors (check_schema m base_dir report) \<longleftrightarrow> has_errors report \<or>
     \<not> (case base_dir of None \<Rightarrow> True | Some is_file \<Rightarrow> is_file (pm_schema m))"
  by (cases base_dir) (simp_all add: check_schema_def del: append_Cons)

definition manifest_acceptable :: "project_manifest \<Rightarrow> (string \<Rightarrow> bool) option \<Rightarrow> bool" where
  "manifest_acceptable m base_dir =
     (project_name_ok (pm_name m) \<and> network_acceptable (pm_network m) \<and>
      (case base_dir of None \<Rightarrow> True | Some is_file \<Rightarrow> is_file (pm_schema m)) \<and>
      pm_data_sources m \<noteq> [] \<and> distinct (declared_names (pm_data_sources m)) \<and>
      list_all (source_acceptable m base_dir) (pm_data_sources m))"

lemma validate_errors_iff: "has_errors (validate semver m base_dir) \<longleftrightarrow> \<not> manifest_acceptable m base_dir"
proof (cases "pm_data_sources m = []")
  case True
  then show ?thesis
    by (simp add: validate_def check_data_sources_def manifest_acceptable_def del: append_Cons)
next
  case False
  then show ?thesis
    by (auto simp: validate_def check_data_sources_def manifest_acceptable_def check_each_source_errors
        check_schema_errors check_network_errors check_identity_errors)
qed

text \<open>C35: Validation reports every manifest that cannot run and no other: it records a blocking
  finding exactly when the name, the network, the schema, one of the datasources or one of the
  handlers breaks its rule. All checks always run, no finding hides another one, and the
  version, a missing endpoint and a handler used twice never block.\<close>

theorem validate_accepts_iff:
  "into_result (validate semver m base_dir) =
     (if manifest_acceptable m base_dir then Inr (validate semver m base_dir)
      else Inl (Invalid (length (report_errors (validate semver m base_dir)))
                        (report_errors (validate semver m base_dir)))) \<and>
   (report_errors (validate semver m base_dir) = [] \<longleftrightarrow> manifest_acceptable m base_dir)"
  using validate_errors_iff [of semver m base_dir] by (auto simp: into_result_def has_errors_def)

end
