(* ===== verification/Sq_EvmProject.thy ===== *)
theory Sq_EvmProject
  imports Sq_Manifest Sq_EvmDecode
begin

text \<open>
  The compilation of the manifest's filters for EVM blocks,
  \<open>crates/chains/evm/src/project.rs\<close>. The parsers of event and function signatures (alloy)
  are part of the parameter \<open>abi\<close>: each gives the printed selector of a signature it accepts.
\<close>

record evm_abi =
  ab_codec :: evm_codec
  ab_event :: "string \<Rightarrow> string option"
  ab_function :: "string \<Rightarrow> string option"

datatype input_filter =
    InputBlock "u64 option"
  | InputLog evm_log_filter
  | InputTransaction evm_transaction_filter

record prepared_handler =
  ph_function :: string
  ph_start :: u64
  ph_end :: "u64 option"
  ph_filter :: input_filter

definition matching_inputs :: "prepared_handler \<Rightarrow> evm_block \<Rightarrow> nat" where
  "matching_inputs p b =
     (if eb_number b < ph_start p \<or> (case ph_end p of None \<Rightarrow> False | Some end \<Rightarrow> end < eb_number b)
      then 0
      else case ph_filter p of
             InputBlock every \<Rightarrow>
               if (case every of None \<Rightarrow> True | Some m \<Rightarrow> is_multiple_of (eb_number b) m) then 1 else 0
           | InputLog f \<Rightarrow> length (filter (\<lambda>l. log_filter_matches f (log_view_of l)) (eb_logs b))
           | InputTransaction f \<Rightarrow>
               length (filter (\<lambda>t. transaction_filter_matches f (transaction_view_of t)) (eb_transactions b)))"

definition manifest_address :: "evm_codec \<Rightarrow> string option \<Rightarrow> chain_error + string option" where
  "manifest_address cd raw =
     (case raw of
        None \<Rightarrow> Inr None
      | Some s \<Rightarrow> (case cd_address cd s of
                     Some a \<Rightarrow> Inr (Some a)
                   | None \<Rightarrow> Inl (ChainDecode ''invalid manifest address'')))"

section \<open>Preparing one handler\<close>

definition bad_filter :: "handler \<Rightarrow> chain_error" where
  "bad_filter h = ChainDecode (''invalid or unsupported filter for '' @ ha_handler h)"

definition prepare_log :: "evm_abi \<Rightarrow> string option \<Rightarrow> handler \<Rightarrow> chain_error + input_filter" where
  "prepare_log abi contract h =
     rbind
       (case ha_filter h of
          Some (FilterLog log) \<Rightarrow>
            rbind (ok_or (ab_event abi (mf_event log)) (bad_filter h)) (\<lambda>event.
            rbind (collect (\<lambda>t. ok_or (cd_b256 (ab_codec abi) t) (bad_filter h)) (mf_topics log)) (\<lambda>topics.
              let topics = OneTopic event # map OneTopic topics
              in if 4 < length topics then Inl (bad_filter h) else Inr topics))
        | None \<Rightarrow> Inr []
        | Some _ \<Rightarrow> Inl (bad_filter h))
       (\<lambda>topics. Inr (InputLog \<lparr>lf_address = contract, lf_topics = topics\<rparr>))"

definition prepare_transaction :: "evm_abi \<Rightarrow> string option \<Rightarrow> handler \<Rightarrow> chain_error + input_filter" where
  "prepare_transaction abi contract h =
     (let tx = \<lparr>tf_to = contract, tf_from = None, tf_function = None\<rparr>
      in rbind
        (case ha_filter h of
           Some (FilterTransaction f) \<Rightarrow>
             rbind (ok_or (ab_function abi (mf_function f)) (bad_filter h)) (\<lambda>selector.
             rbind (manifest_address (ab_codec abi) (mf_from f)) (\<lambda>sender.
             rbind (manifest_address (ab_codec abi) (mf_to f)) (\<lambda>recipient.
               let tx = tx\<lparr>tf_function := Some selector, tf_from := sender\<rparr>
               in case recipient of
                    None \<Rightarrow> Inr tx
                  | Some to \<Rightarrow>
                      if (case contract of None \<Rightarrow> False | Some c \<Rightarrow> c \<noteq> to)
                      then Inl (bad_filter h)
                      else Inr (tx\<lparr>tf_to := Some to\<rparr>))))
         | None \<Rightarrow> Inr tx
         | Some _ \<Rightarrow> Inl (bad_filter h))
        (\<lambda>tx. Inr (InputTransaction tx)))"

definition prepare_block :: "handler \<Rightarrow> chain_error + input_filter" where
  "prepare_block h =
     (case ha_filter h of
        None \<Rightarrow> Inr (InputBlock None)
      | Some (FilterBlock f) \<Rightarrow>
          if bf_modulo f \<noteq> Some 0 \<and> bf_timestamp f = None then Inr (InputBlock (bf_modulo f))
          else Inl (bad_filter h)
      | Some _ \<Rightarrow> Inl (bad_filter h))"

definition prepare_filter :: "evm_abi \<Rightarrow> string option \<Rightarrow> handler \<Rightarrow> chain_error + input_filter" where
  "prepare_filter abi contract h =
     (if ha_kind h = ''evm/LogHandler'' then prepare_log abi contract h
      else if ha_kind h = ''evm/TransactionHandler'' then prepare_transaction abi contract h
      else if ha_kind h = ''evm/BlockHandler'' then prepare_block h
      else Inl (bad_filter h))"

section \<open>Preparing a project\<close>

definition unsupported_option :: "string list \<Rightarrow> string option" where
  "unsupported_option keys = List.find (\<lambda>key. key \<notin> {''address'', ''abi''}) keys"

definition prepare_source ::
  "evm_abi \<Rightarrow> project_manifest \<Rightarrow> data_source \<Rightarrow> chain_error + prepared_handler list" where
  "prepare_source abi project ds =
     (case unsupported_option (options_keys (ds_options ds)) of
        Some key \<Rightarrow> Inl (ChainDecode (''unsupported datasource option '' @ key))
      | None \<Rightarrow>
          if options_contains (ds_options ds) ''address'' \<and> options_get_str (ds_options ds) ''address'' = None
          then Inl (ChainDecode ''datasource address must be a string'')
          else rbind (manifest_address (ab_codec abi) (options_get_str (ds_options ds) ''address'')) (\<lambda>contract.
            collect (\<lambda>h. rbind (prepare_filter abi contract h) (\<lambda>f.
              Inr \<lparr>ph_function = ha_handler h, ph_start = effective_start_block project ds,
                   ph_end = ds_end_block ds, ph_filter = f\<rparr>)) (ds_handlers ds)))"

definition prepare_handlers :: "evm_abi \<Rightarrow> project_manifest \<Rightarrow> chain_error + prepared_handler list" where
  "prepare_handlers abi project =
     rbind (collect (prepare_source abi project) (pm_data_sources project)) (\<lambda>pss. Inr (concat pss))"

section \<open>Every handler, in order\<close>

lemma collect_map_Inr:
  "collect f xs = Inr ys \<Longrightarrow> (\<And>x y. f x = Inr y \<Longrightarrow> g y = h x) \<Longrightarrow> map g ys = map h xs"
  by (induction xs arbitrary: ys) (auto simp: rbind_eq_Inr)

definition handler_range :: "prepared_handler \<Rightarrow> string \<times> u64 \<times> u64 option" where
  "handler_range p = (ph_function p, ph_start p, ph_end p)"

lemma prepare_source_ranges:
  "prepare_source abi m ds = Inr ps \<Longrightarrow> map handler_range ps =
     map (\<lambda>h. (ha_handler h, effective_start_block m ds, ds_end_block ds)) (ds_handlers ds)"
  by (auto simp: prepare_source_def rbind_eq_Inr handler_range_def split: option.splits if_splits
      elim!: collect_map_Inr)

lemma prepare_handlers_ranges:
  assumes "prepare_handlers abi m = Inr ps"
  shows "map handler_range ps = concat (map (\<lambda>ds. map (\<lambda>h.
     (ha_handler h, effective_start_block m ds, ds_end_block ds)) (ds_handlers ds)) (pm_data_sources m))"
proof -
  obtain pss where pss: "collect (prepare_source abi m) (pm_data_sources m) = Inr pss" "ps = concat pss"
    using assms by (auto simp: prepare_handlers_def rbind_eq_Inr)
  then have "map (map handler_range) pss = map (\<lambda>ds. map (\<lambda>h.
     (ha_handler h, effective_start_block m ds, ds_end_block ds)) (ds_handlers ds)) (pm_data_sources m)"
    by (auto elim: collect_map_Inr prepare_source_ranges)
  with pss(2) show ?thesis by (simp add: map_concat)
qed

text \<open>C34: Preparation loses no handler: a project that prepares yields exactly the handlers its
  manifest declares, in the order of the manifest, each with the range of heights of its own
  datasource.\<close>

theorem prepare_handlers_complete:
  assumes "prepare_handlers abi m = Inr ps"
  shows "map handler_range ps = concat (map (\<lambda>ds. map (\<lambda>h.
     (ha_handler h, effective_start_block m ds, ds_end_block ds)) (ds_handlers ds)) (pm_data_sources m))"
  using assms by (rule prepare_handlers_ranges)

definition demo_abi :: evm_abi where
  "demo_abi = \<lparr>ab_codec = demo_codec, ab_event = (\<lambda>s. if s = ''Transfer()'' then Some ''0xdd'' else None),
     ab_function = (\<lambda>s. None)\<rparr>"

definition demo_transfer :: handler where
  "demo_transfer = \<lparr>ha_handler = ''handle_transfer'', ha_kind = ''evm/LogHandler'',
     ha_filter = Some (FilterLog \<lparr>mf_event = ''Transfer()'', mf_topics = [''0xee'']\<rparr>)\<rparr>"

definition demo_source :: data_source where
  "demo_source = \<lparr>ds_kind = ''evm/Runtime'', ds_name = None, ds_start_block = None,
     ds_end_block = Some 9, ds_options = [(''address'', JString ''0xa1'')], ds_assets = [],
     ds_handlers = [demo_transfer]\<rparr>"

definition demo_manifest :: project_manifest where
  "demo_manifest = \<lparr>pm_spec_version = V1_0, pm_name = ''demo'', pm_version = ''1'', pm_description = None, pm_license = None,
     pm_network = \<lparr>nw_family = Evm, nw_chain_id = ''1'', nw_endpoint = NoEndpoints, nw_dictionary = None,
       nw_chaintypes = None\<rparr>,
     pm_schema = ''schema.graphql'', pm_start_block = Some 1, pm_data_sources = [demo_source]\<rparr>"

definition demo_prepared :: prepared_handler where
  "demo_prepared = \<lparr>ph_function = ''handle_transfer'', ph_start = 1, ph_end = Some 9,
     ph_filter = InputLog \<lparr>lf_address = Some ''0xa1'', lf_topics = [OneTopic ''0xdd'', OneTopic ''0xee'']\<rparr>\<rparr>"

lemma demo_prepare: "prepare_handlers demo_abi demo_manifest = Inr [demo_prepared]"
  by (simp add: prepare_handlers_def prepare_source_def demo_manifest_def demo_source_def demo_transfer_def
      demo_abi_def demo_codec_def demo_prepared_def unsupported_option_def options_keys_def
      options_get_str_def options_contains_def json_as_str_def manifest_address_def prepare_filter_def
      prepare_log_def effective_start_block_def option_or_def)

theorem prepare_handlers_complete_witness:
  "map handler_range [demo_prepared] = [(''handle_transfer'', 1, Some 9)]"
  using prepare_handlers_complete [OF demo_prepare]
  by (simp add: demo_manifest_def demo_source_def demo_transfer_def effective_start_block_def option_or_def)

section \<open>What a log handler selects\<close>

definition handler_in_range :: "prepared_handler \<Rightarrow> u64 \<Rightarrow> bool" where
  "handler_in_range p n = (ph_start p \<le> n \<and> (case ph_end p of None \<Rightarrow> True | Some end \<Rightarrow> n \<le> end))"

definition log_selected :: "evm_abi \<Rightarrow> string option \<Rightarrow> log_filter \<Rightarrow> evm_log \<Rightarrow> bool" where
  "log_selected abi contract f l =
     ((contract = None \<or> map_option hex_norm contract = Some (hex_norm (el_address l))) \<and>
      topic_at (el_topics l) 0 = map_option hex_norm (ab_event abi (mf_event f)) \<and>
      list_all (\<lambda>i. topic_at (el_topics l) (Suc i) =
        map_option hex_norm (cd_b256 (ab_codec abi) (mf_topics f ! i))) [0..<length (mf_topics f)])"

lemma log_filter_iff:
  "log_filter_matches f log \<longleftrightarrow>
     (lf_address f = None \<or> map_option hex_norm (lf_address f) = Some (hex_norm (lv_address log))) \<and>
     (\<forall>i<length (lf_topics f). position_allows (lf_topics f ! i) (topic_at (lv_topics log) i))"
  by (auto simp: log_filter_matches_def topics_match_iff eq_hex_norm split: option.splits)

lemma all_less_Suc_shift: "(\<forall>i<Suc n. P i) \<longleftrightarrow> P 0 \<and> (\<forall>i<n. P (Suc i))"
  by (auto simp: less_Suc_eq_0_disj)

lemma prepared_log_matches:
  assumes "prepare_log abi contract h = Inr (InputLog lf)" "ha_filter h = Some (FilterLog f)"
  shows "log_filter_matches lf (log_view_of l) = log_selected abi contract f l"
proof -
  from assms obtain event topics where e: "ab_event abi (mf_event f) = Some event"
    and t: "collect (\<lambda>t. ok_or (cd_b256 (ab_codec abi) t) (bad_filter h)) (mf_topics f) = Inr topics"
    and lf: "lf = \<lparr>lf_address = contract, lf_topics = OneTopic event # map OneTopic topics\<rparr>"
    by (auto simp: prepare_log_def rbind_eq_Inr Let_def split: if_splits)
  from t have len: "length topics = length (mf_topics f)"
    and nth: "\<forall>i<length topics. cd_b256 (ab_codec abi) (mf_topics f ! i) = Some (topics ! i)"
    by (auto simp: collect_Inr_iff list_all2_conv_all_nth)
  show ?thesis
    unfolding log_filter_iff log_selected_def lf e
    using nth len by (auto simp: all_less_Suc_shift log_view_of_def list_all_iff)
qed

text \<open>C33: A prepared log handler is run for exactly the logs its manifest entry describes: in
  its range of heights, the logs of the datasource's contract whose first topic is the hash of
  the declared event and whose further topics are the declared ones, position by position;
  outside its range it is never run.\<close>

theorem log_handler_selects:
  assumes "prepare_source abi m ds = Inr ps" "i < length ps"
    "ha_kind (ds_handlers ds ! i) = ''evm/LogHandler''" "ha_filter (ds_handlers ds ! i) = Some (FilterLog f)"
  shows "\<exists>contract. manifest_address (ab_codec abi) (options_get_str (ds_options ds) ''address'') = Inr contract \<and>
    matching_inputs (ps ! i) b =
      (if effective_start_block m ds \<le> eb_number b \<and>
          (ds_end_block ds = None \<or> eb_number b \<le> the (ds_end_block ds))
       then length (filter (log_selected abi contract f) (eb_logs b)) else 0)"
proof -
  let ?h = "ds_handlers ds ! i"
  from assms(1) obtain contract where
    contract: "manifest_address (ab_codec abi) (options_get_str (ds_options ds) ''address'') = Inr contract"
    and ps: "collect (\<lambda>h. rbind (prepare_filter abi contract h) (\<lambda>f.
       Inr \<lparr>ph_function = ha_handler h, ph_start = effective_start_block m ds,
            ph_end = ds_end_block ds, ph_filter = f\<rparr>)) (ds_handlers ds) = Inr ps"
    by (auto simp: prepare_source_def rbind_eq_Inr split: option.splits if_splits)
  from ps assms(2) obtain flt where flt: "prepare_filter abi contract ?h = Inr flt"
    and p: "ps ! i = \<lparr>ph_function = ha_handler ?h, ph_start = effective_start_block m ds,
            ph_end = ds_end_block ds, ph_filter = flt\<rparr>"
    by (auto simp: collect_Inr_iff list_all2_conv_all_nth rbind_eq_Inr)
  from flt assms(3) have "prepare_log abi contract ?h = Inr flt"
    by (simp add: prepare_filter_def)
  then obtain lf where lf: "flt = InputLog lf" "prepare_log abi contract ?h = Inr (InputLog lf)"
    by (auto simp: prepare_log_def rbind_eq_Inr)
  have "matching_inputs (ps ! i) b =
      (if effective_start_block m ds \<le> eb_number b \<and>
          (ds_end_block ds = None \<or> eb_number b \<le> the (ds_end_block ds))
       then length (filter (log_selected abi contract f) (eb_logs b)) else 0)"
    unfolding matching_inputs_def p lf(1)
    by (auto simp: prepared_log_matches [OF lf(2) assms(4)] split: option.split)
  with contract show ?thesis by blast
qed

lemma demo_prepare_source: "prepare_source demo_abi demo_manifest demo_source = Inr [demo_prepared]"
  using demo_prepare by (auto simp: prepare_handlers_def demo_manifest_def rbind_eq_Inr)

theorem log_handler_selects_witness:
  "matching_inputs demo_prepared demo_evm_block = 0 \<and>
   matching_inputs demo_prepared
     (demo_evm_block\<lparr>eb_logs := [demo_evm_log 0, (demo_evm_log 1)\<lparr>el_topics := [''0xDD'', ''0xee'']\<rparr>]\<rparr>) = 1"
proof -
  have norms: "hex_norm ''0xa1'' = ''a1''" "hex_norm ''0xdd'' = ''dd''" "hex_norm ''0xDD'' = ''dd''"
    "hex_norm ''0xee'' = ''ee''" by code_simp+
  have "ha_kind (ds_handlers demo_source ! 0) = ''evm/LogHandler''"
    "ha_filter (ds_handlers demo_source ! 0) = Some (FilterLog \<lparr>mf_event = ''Transfer()'', mf_topics = [''0xee'']\<rparr>)"
    by (simp_all add: demo_source_def demo_transfer_def)
  note s = log_handler_selects [OF demo_prepare_source _ this]
  from s [of demo_evm_block] s [of "demo_evm_block\<lparr>eb_logs := [demo_evm_log 0,
      (demo_evm_log 1)\<lparr>el_topics := [''0xDD'', ''0xee'']\<rparr>]\<rparr>"]
  show ?thesis
    by (auto simp: manifest_address_def options_get_str_def demo_source_def json_as_str_def demo_abi_def
        demo_codec_def demo_evm_block_def demo_evm_log_def log_selected_def topic_at_def norms
        effective_start_block_def option_or_def demo_manifest_def)
qed

end
