(* ===== verification/Sq_Naming.thy ===== *)
theory Sq_Naming
  imports Sq_Strings
begin

text \<open>
  Table and column names, \<open>crates/store/src/naming.rs\<close>. Each regular expression of the source
  is written out as the function that finds its leftmost match and replaces it. Names are
  those of a GraphQL schema, which are ASCII: on them \<open>to_lowercase\<close>, \<open>to_uppercase\<close> and the
  digit class are the ASCII ones.
\<close>

section \<open>Snake case\<close>

definition is_upper_or_digit :: "char \<Rightarrow> bool" where
  "is_upper_or_digit c = (is_ascii_uppercase c \<or> is_ascii_digit c)"

definition is_lower_or_digit :: "char \<Rightarrow> bool" where
  "is_lower_or_digit c = (is_ascii_lowercase c \<or> is_ascii_digit c)"

text \<open>
  \<open>([A-Z\d]+)([A-Z][a-z])\<close> becomes \<open>${1}_${2}\<close>. The second group ends with a lower case letter,
  so the run of upper case letters and digits reaches up to it and its last letter opens the
  second group: at a position the expression matches when the run is at least two long, ends in
  a letter and is followed by a lower case letter.
\<close>

lemma length_tl_dropWhile: "s \<noteq> [] \<Longrightarrow> length (tl (dropWhile P s)) < length s"
  unfolding length_tl using length_dropWhile_le [of P s] length_greater_0_conv [of s] by linarith

lemma length_tl_less: "s \<noteq> [] \<Longrightarrow> length (tl s) < length s"
  by simp

function split_acronyms :: "string \<Rightarrow> string" where
  "split_acronyms s =
     (let run = takeWhile is_upper_or_digit s;
          rest = dropWhile is_upper_or_digit s
      in if s = [] then []
         else if 2 \<le> length run \<and> is_ascii_uppercase (last run) \<and> rest \<noteq> [] \<and> is_ascii_lowercase (hd rest)
         then butlast run @ [CHR ''_'', last run, hd rest] @ split_acronyms (tl rest)
         else hd s # split_acronyms (tl s))"
  by pat_completeness auto
termination
  by (relation "measure length") (auto intro: length_tl_dropWhile length_tl_less
      simp del: length_tl)

declare split_acronyms.simps [simp del]

text \<open>\<open>([a-z\d])([A-Z])\<close> becomes \<open>${1}_${2}\<close>.\<close>

fun split_words :: "string \<Rightarrow> string" where
  "split_words (c # d # s) =
     (if is_lower_or_digit c \<and> is_ascii_uppercase d then c # CHR ''_'' # d # split_words s
      else c # split_words (d # s))"
| "split_words s = s"

definition underscored :: "string \<Rightarrow> string" where
  "underscored input =
     map to_ascii_lowercase (map (\<lambda>c. if c = CHR ''-'' then CHR ''_'' else c)
       (split_words (split_acronyms input)))"

section \<open>Plurals\<close>

definition to_lowercase :: "string \<Rightarrow> string" where
  "to_lowercase s = map to_ascii_lowercase s"

definition to_ascii_uppercase :: "char \<Rightarrow> char" where
  "to_ascii_uppercase c = (if is_ascii_lowercase c then char_of ((of_char c :: nat) - 32) else c)"

definition capitalize_first :: "string \<Rightarrow> string" where
  "capitalize_first s = (case s of [] \<Rightarrow> [] | c # cs \<Rightarrow> to_ascii_uppercase c # cs)"

definition uncountable :: "string list" where
  "uncountable = [''equipment'', ''information'', ''rice'', ''money'', ''species'', ''series'',
     ''fish'', ''sheep'', ''jeans'', ''moose'', ''deer'', ''news'']"

definition irregular :: "(string \<times> string) list" where
  "irregular = [(''person'', ''people''), (''man'', ''men''), (''child'', ''children''),
     (''sex'', ''sexes''), (''move'', ''moves''), (''cow'', ''kine''), (''zombie'', ''zombies'')]"

text \<open>
  The rules, each as the test whether it matches and the replacement. All are anchored at the
  end: \<open>ends w t\<close> is the test for the letters \<open>t\<close> there in any case, \<open>before w n\<close> the word
  without its last \<open>n\<close> letters and \<open>nth_last w n\<close> the letter \<open>n\<close> places before the end.
\<close>

definition ends :: "string \<Rightarrow> string \<Rightarrow> bool" where
  "ends w t = ends_with (to_lowercase w) t"

definition before :: "string \<Rightarrow> nat \<Rightarrow> string" where
  "before w n = take (length w - n) w"

definition nth_last :: "string \<Rightarrow> nat \<Rightarrow> char option" where
  "nth_last w n = (if n < length w then Some (to_ascii_lowercase (w ! (length w - 1 - n))) else None)"

definition pluralize_rules :: "((string \<Rightarrow> bool) \<times> (string \<Rightarrow> string)) list" where
  "pluralize_rules =
     [(\<lambda>w. ends w ''quiz'', \<lambda>w. w @ ''zes''),
      (\<lambda>w. to_lowercase w = ''ox'', \<lambda>w. w @ ''en''),
      (\<lambda>w. ends w ''mouse'' \<or> ends w ''louse'', \<lambda>w. before w 4 @ ''ice''),
      (\<lambda>w. list_ex (ends w) [''matrix'', ''matrex'', ''vertix'', ''vertex'', ''indix'', ''index''],
         \<lambda>w. before w 2 @ ''ices''),
      (\<lambda>w. ends w ''x'' \<or> ends w ''ch'' \<or> ends w ''ss'' \<or> ends w ''sh'', \<lambda>w. w @ ''es''),
      (\<lambda>w. ends w ''y'' \<and> ((case nth_last w 1 of None \<Rightarrow> False | Some c \<Rightarrow> c \<notin> set ''aeiouy'') \<or> ends w ''quy''),
         \<lambda>w. before w 1 @ ''ies''),
      (\<lambda>w. ends w ''hive'', \<lambda>w. w @ ''s''),
      (\<lambda>w. ends w ''fe'' \<and> (case nth_last w 2 of None \<Rightarrow> False | Some c \<Rightarrow> c \<noteq> CHR ''f'')
           \<or> ends w ''lf'' \<or> ends w ''rf'',
         \<lambda>w. (if ends w ''fe'' then before w 2 else before w 1) @ ''ves''),
      (\<lambda>w. ends w ''sis'', \<lambda>w. before w 3 @ ''ses''),
      (\<lambda>w. ends w ''tum'' \<or> ends w ''ium'', \<lambda>w. before w 2 @ ''a''),
      (\<lambda>w. ends w ''buffalo'' \<or> ends w ''tomato'', \<lambda>w. before w 1 @ ''oes''),
      (\<lambda>w. ends w ''bus'', \<lambda>w. before w 1 @ ''ses''),
      (\<lambda>w. ends w ''alias'' \<or> ends w ''status'', \<lambda>w. w @ ''es''),
      (\<lambda>w. ends w ''octopus'' \<or> ends w ''virus'', \<lambda>w. before w 2 @ ''i''),
      (\<lambda>w. ends w ''axis'' \<or> ends w ''testis'', \<lambda>w. before w 2 @ ''es''),
      (\<lambda>w. ends w ''s'', \<lambda>w. before w 1 @ ''s''),
      (\<lambda>w. True, \<lambda>w. w @ ''s'')]"

definition pluralize :: "string \<Rightarrow> string" where
  "pluralize word =
     (if word = [] then []
      else if to_lowercase word \<in> set uncountable then word
      else case map_of irregular (to_lowercase word) of
             Some plur \<Rightarrow> if is_ascii_uppercase (hd word) then capitalize_first plur else plur
           | None \<Rightarrow>
               (case List.find (\<lambda>(matches, replace). matches word) pluralize_rules of
                  Some (matches, replace) \<Rightarrow> replace word
                | None \<Rightarrow> word))"

definition model_to_table_name :: "string \<Rightarrow> string" where
  "model_to_table_name model_name = underscored (pluralize model_name)"

section \<open>Examples of the source\<close>

lemma underscored_examples:
  "underscored ''blockHeight'' = ''block_height''" "underscored ''Transfers'' = ''transfers''"
  "underscored ''HTTPServer'' = ''http_server''" "underscored ''myLongFieldName'' = ''my_long_field_name''"
  by code_simp+

lemma pluralize_examples:
  "pluralize ''entity'' = ''entities''" "pluralize ''box'' = ''boxes''" "pluralize ''person'' = ''people''"
  "pluralize ''status'' = ''statuses''" "pluralize ''Transfer'' = ''Transfers''" "pluralize ''knife'' = ''knives''"
  by code_simp+

lemma model_to_table_name_examples:
  "model_to_table_name ''Transfer'' = ''transfers''" "model_to_table_name ''MyEntity'' = ''my_entities''"
  by code_simp+

section \<open>Column names are stable\<close>

definition snake :: "string \<Rightarrow> bool" where
  "snake s = list_all (\<lambda>c. \<not> is_ascii_uppercase c \<and> c \<noteq> CHR ''-'') s"

lemma not_upper_lowercase: "\<not> is_ascii_uppercase (to_ascii_lowercase c)"
proof -
  have "(of_char c :: nat) < 256" by simp
  then show ?thesis by (simp add: to_ascii_lowercase_def is_ascii_uppercase_def)
qed

lemma lowercase_dash: "to_ascii_lowercase c = CHR ''-'' \<longleftrightarrow> c = CHR ''-''"
proof
  assume "to_ascii_lowercase c = CHR ''-''"
  then have "(of_char (to_ascii_lowercase c) :: nat) = 45" by simp
  then have "(of_char c :: nat) = of_char (CHR ''-'')"
    by (auto simp: to_ascii_lowercase_def is_ascii_uppercase_def split: if_splits)
  then show "c = CHR ''-''" by (simp only: of_char_eq_iff)
qed (simp add: to_ascii_lowercase_def is_ascii_uppercase_def)

lemma lowercase_snake: "snake s \<Longrightarrow> map to_ascii_lowercase s = s"
  by (induction s) (simp_all add: snake_def to_ascii_lowercase_def)

lemma snake_underscored: "snake (underscored s)"
  by (auto simp: snake_def underscored_def list_all_iff not_upper_lowercase lowercase_dash)

lemma split_words_snake: "snake s \<Longrightarrow> split_words s = s"
  by (induction s rule: split_words.induct) (auto simp: snake_def)

lemma split_acronyms_skip:
  assumes "\<forall>c \<in> set s. \<not> is_ascii_uppercase c"
  shows "split_acronyms s = (case s of [] \<Rightarrow> [] | c # cs \<Rightarrow> c # split_acronyms cs)"
proof -
  let ?run = "takeWhile is_upper_or_digit s"
  have "\<not> is_ascii_uppercase (last ?run)" if "?run \<noteq> []"
    using assms last_in_set [OF that] set_takeWhileD by metis
  then have "\<not> (2 \<le> length ?run \<and> is_ascii_uppercase (last ?run) \<and>
      dropWhile is_upper_or_digit s \<noteq> [] \<and> is_ascii_lowercase (hd (dropWhile is_upper_or_digit s)))"
    by (cases "?run = []") simp_all
  then show ?thesis
    by (subst split_acronyms.simps) (simp only: Let_def if_False, cases s, simp_all)
qed

lemma split_acronyms_snake: "snake s \<Longrightarrow> split_acronyms s = s"
proof (induction s)
  case (Cons c s)
  then have "\<forall>d \<in> set (c # s). \<not> is_ascii_uppercase d" by (auto simp: snake_def list_all_iff)
  with Cons show ?case
    by (subst split_acronyms_skip) (simp_all add: snake_def)
qed (simp add: split_acronyms.simps)

text \<open>A column name is a fixed point: deriving the name of a column from a column name gives
  the same name, whatever the field was called, so looking a field up by its column is the
  same as by its name; column names have no capital letters and no dashes.\<close>

theorem underscored_stable:
  "underscored (underscored s) = underscored s \<and> snake (underscored s)"
proof -
  have dashes: "map (\<lambda>c. if c = CHR ''-'' then CHR ''_'' else c) t = t" if "snake t" for t
    using that by (induction t) (simp_all add: snake_def)
  have s: "snake (underscored s)" by (rule snake_underscored)
  have "underscored (underscored s) = underscored s"
    by (subst underscored_def)
      (simp only: split_acronyms_snake [OF s] split_words_snake [OF s] dashes [OF s] lowercase_snake [OF s])
  with s show ?thesis by blast
qed

text \<open>Two entities of a schema can be given one table, and two fields one column.\<close>

lemma names_collide:
  "model_to_table_name ''Transfer'' = model_to_table_name ''Transfers''"
  "underscored ''blockHash'' = underscored ''block_hash''"
  by code_simp+

end
