(* ===== verification/Sq_Entities.thy ===== *)
theory Sq_Entities
  imports Sq_Naming Sq_Database Sq_ChainApi "HOL-Library.Char_ord" "HOL-Library.List_Lexorder"
begin

text \<open>
  Entities: the models of a GraphQL schema (\<open>crates/store/src/schema.rs\<close>), the tables made
  from them (\<open>ddl.rs\<close>), their rows (\<open>entity.rs\<close>) and the vocabulary of the entity store
  (\<open>store.rs\<close>). SQL is modelled twice: as the text the code builds and as what PostgreSQL
  documents the statement to do to the rows of the table. The parser of the schema language,
  the casts of PostgreSQL (\<open>cast\<close>: the canonical text of a value, or none when the cast fails)
  and the printing of JSON arrays and objects (\<open>js\<close>) are parameters.
\<close>

section \<open>Models\<close>

record entity_field =
  ef_name :: string
  ef_base_type :: string
  ef_is_array :: bool
  ef_nullable :: bool

record entity_model =
  em_name :: string
  em_fields :: "entity_field list"

text \<open>The type expressions of the schema language, and the object definitions of a document:
  the name, the directives and the fields with their types. Other definitions are \<open>None\<close>.\<close>

datatype gql_type = NamedType string | ListType gql_type | NonNullType gql_type

record gql_object =
  go_name :: string
  go_directives :: "string list"
  go_fields :: "(string \<times> gql_type) list"

fun base_and_array :: "gql_type \<Rightarrow> string \<times> bool" where
  "base_and_array (NamedType n) = (n, False)"
| "base_and_array (ListType inner) = (case base_and_array inner of (base, _) \<Rightarrow> (base, True))"
| "base_and_array (NonNullType inner) = base_and_array inner"

definition field_of :: "string \<times> gql_type \<Rightarrow> entity_field" where
  "field_of f =
     (case base_and_array (snd f) of (base_type, is_array) \<Rightarrow>
        \<lparr>ef_name = fst f, ef_base_type = base_type, ef_is_array = is_array,
         ef_nullable = (case snd f of NonNullType _ \<Rightarrow> False | _ \<Rightarrow> True)\<rparr>)"

fun entities_of :: "gql_object option list \<Rightarrow> entity_model list" where
  "entities_of [] = []"
| "entities_of (def # defs) =
     (case def of
        None \<Rightarrow> entities_of defs
      | Some obj \<Rightarrow>
          if \<not> list_ex (\<lambda>d. d = ''entity'') (go_directives obj) then entities_of defs
          else \<lparr>em_name = go_name obj, em_fields = map field_of (go_fields obj)\<rparr> # entities_of defs)"

definition parse_entities ::
  "(string \<Rightarrow> string + gql_object option list) \<Rightarrow> string \<Rightarrow> store_error + entity_model list" where
  "parse_entities parse_schema sdl =
     rbind (map_err Schema (parse_schema sdl)) (\<lambda>doc. Inr (entities_of doc))"

section \<open>Tables\<close>

definition column_type :: "entity_field \<Rightarrow> store_error + string" where
  "column_type f =
     (if ef_is_array f then Inr ''jsonb''
      else ok_or (map_of
        [(''ID'', ''text''), (''String'', ''text''), (''Int'', ''integer''), (''BigInt'', ''numeric''),
         (''Float'', ''double precision''), (''Boolean'', ''boolean''), (''Bytes'', ''bytea''),
         (''Date'', ''timestamp''), (''Json'', ''jsonb'')] (ef_base_type f))
        (UnsupportedType (ef_base_type f)))"

text \<open>The loop over the fields: the column lines and the primary key so far, which a field of
  type ID replaces.\<close>

definition next_key :: "entity_field \<Rightarrow> string option \<Rightarrow> string option" where
  "next_key f primary_key = (if ef_base_type f = ''ID'' then Some (underscored (ef_name f)) else primary_key)"

fun table_columns ::
  "entity_field list \<Rightarrow> string list \<Rightarrow> string option \<Rightarrow> store_error + string list \<times> string option" where
  "table_columns [] columns primary_key = Inr (columns, primary_key)"
| "table_columns (f # fs) columns primary_key =
     (let col = underscored (ef_name f)
      in rbind (column_type f) (\<lambda>ty.
         let not_null = (if ef_nullable f then [] else '' NOT NULL'')
         in table_columns fs (columns @ [''  '' @ quoted col @ '' '' @ ty @ not_null])
              (next_key f primary_key)))"

definition create_table :: "entity_model \<Rightarrow> string \<Rightarrow> store_error + string" where
  "create_table model schema =
     (let table = model_to_table_name (em_name model)
      in rbind (table_columns (em_fields model) [] None) (\<lambda>(columns, primary_key).
         let columns = (case primary_key of
               None \<Rightarrow> columns | Some pk \<Rightarrow> columns @ [''  PRIMARY KEY ('' @ quoted pk @ '')''])
         in Inr (''CREATE TABLE '' @ quoted schema @ ''.'' @ quoted table @ '' ('' @ newline @
                 join ('','' @ newline) columns @ newline @ '');'')))"

definition create_tables :: "entity_model list \<Rightarrow> string \<Rightarrow> store_error + string list" where
  "create_tables models schema = collect (\<lambda>m. create_table m schema) models"

text \<open>The key of the table the statement makes: what the loop ends with.\<close>

definition primary_key :: "entity_model \<Rightarrow> string option" where
  "primary_key model = fold next_key (em_fields model) None"

lemma table_columns_key: "table_columns fs cols pk = Inr (cols', pk') \<Longrightarrow> pk' = fold next_key fs pk"
  by (induction fs cols pk rule: table_columns.induct) (auto simp: Let_def rbind_eq_Inr)

lemma fold_next_key:
  "fold next_key fs pk =
     (case filter (\<lambda>f. ef_base_type f = ''ID'') fs of
        [] \<Rightarrow> pk | g # gs \<Rightarrow> Some (underscored (ef_name (last (g # gs)))))"
  by (induction fs arbitrary: pk) (auto simp: next_key_def split: list.split)

section \<open>Rows\<close>

text \<open>A canonical row is a \<open>BTreeMap\<close> from column names to text, \<open>None\<close> being NULL.\<close>

type_synonym canonical_row = "(string, string option) btree"

datatype order_dir = Asc | Desc

fun order_dir_sql :: "order_dir \<Rightarrow> string" where
  "order_dir_sql Asc = ''ASC''"
| "order_dir_sql Desc = ''DESC''"

record query_options =
  qo_order_by :: string
  qo_order_direction :: order_dir
  qo_limit :: int
  qo_offset :: int

record plain_model =
  pl_schema :: string
  pl_table :: string
  pl_fields :: "entity_field list"

definition plain_model_new :: "string \<Rightarrow> entity_model \<Rightarrow> plain_model" where
  "plain_model_new schema model = \<lparr>pl_schema = schema, pl_table = model_to_table_name (em_name model),
     pl_fields = em_fields model\<rparr>"

definition sorted_columns :: "plain_model \<Rightarrow> (entity_field \<times> string) list" where
  "sorted_columns m = sort_key snd (map (\<lambda>f. (f, underscored (ef_name f))) (pl_fields m))"

definition show_nat :: "nat \<Rightarrow> string" where
  "show_nat n = show_radix 10 n"

definition placeholder :: "entity_field \<Rightarrow> nat \<Rightarrow> string" where
  "placeholder f idx =
     (let p = ''$'' @ show_nat idx
      in if ef_is_array f then p @ ''::text::jsonb''
         else if ef_base_type f \<in> {''ID'', ''String''} then p
         else if ef_base_type f = ''Int'' then p @ ''::text::integer''
         else if ef_base_type f = ''BigInt'' then p @ ''::text::numeric''
         else if ef_base_type f = ''Float'' then p @ ''::text::double precision''
         else if ef_base_type f = ''Boolean'' then p @ ''::text::boolean''
         else if ef_base_type f = ''Date'' then p @ ''::text::timestamp''
         else if ef_base_type f = ''Bytes'' then ''decode('' @ p @ ''::text, '' @ [CHR 0x27] @ ''hex'' @ [CHR 0x27] @ '')''
         else if ef_base_type f = ''Json'' then p @ ''::text::jsonb''
         else p)"

definition strip_hex_prefix :: "string \<Rightarrow> string" where
  "strip_hex_prefix s = (case strip_prefix ''0x'' s of Some t \<Rightarrow> t | None \<Rightarrow> s)"

definition encode :: "(json \<Rightarrow> string) \<Rightarrow> entity_field \<Rightarrow> json option \<Rightarrow> string option" where
  "encode js f v =
     (case v of
        None \<Rightarrow> None
      | Some JNull \<Rightarrow> None
      | Some (JString s) \<Rightarrow> Some (if ef_base_type f = ''Bytes'' then strip_hex_prefix s else s)
      | Some (JBool b) \<Rightarrow> Some (if b then ''true'' else ''false'')
      | Some (JNumber n) \<Rightarrow> Some n
      | Some w \<Rightarrow> Some (js w))"

definition select_expr :: "entity_field \<Rightarrow> string \<Rightarrow> string" where
  "select_expr f col =
     (if ef_base_type f = ''Bytes'' \<and> \<not> ef_is_array f
      then ''encode('' @ quoted col @ '', '' @ [CHR 0x27] @ ''hex'' @ [CHR 0x27] @ '') AS '' @ quoted col
      else quoted col @ ''::text AS '' @ quoted col)"

definition projection :: "(entity_field \<times> string) list \<Rightarrow> string" where
  "projection cols = join '', '' (map (\<lambda>(f, c). select_expr f c) cols)"

definition table_ref :: "plain_model \<Rightarrow> string" where
  "table_ref m = quoted (pl_schema m) @ ''.'' @ quoted (pl_table m)"

section \<open>Statements\<close>

definition update_columns :: "(entity_field \<times> string) list \<Rightarrow> string list" where
  "update_columns cols = map snd (filter (\<lambda>(f, c). ef_base_type f \<noteq> ''ID'') cols)"

definition upsert_params :: "(json \<Rightarrow> string) \<Rightarrow> (entity_field \<times> string) list \<Rightarrow> json \<Rightarrow> string option list" where
  "upsert_params js cols entity = map (\<lambda>(f, c). encode js f (json_get entity (ef_name f))) cols"

definition upsert_sql :: "plain_model \<Rightarrow> string" where
  "upsert_sql m =
     (let cols = sorted_columns m;
          col_list = join '', '' (map (\<lambda>(f, c). quoted c) cols);
          update_set = join '', '' (map (\<lambda>c. quoted c @ '' = EXCLUDED.'' @ quoted c) (update_columns cols));
          placeholders = map (\<lambda>(i, (f, c)). placeholder f (i + 1)) (enumerate 0 cols)
      in ''INSERT INTO '' @ table_ref m @ '' ('' @ col_list @ '') VALUES ('' @ join '', '' placeholders @
         '') ON CONFLICT ('' @ quoted ''id'' @ '') DO UPDATE SET '' @ update_set)"

text \<open>
  The table, and what the statement does to it. PostgreSQL refuses a statement that names no
  column to update (its grammar) or a column twice, a conflict target that is not the key, a
  NULL in a column that takes none (the key takes none) and a value its cast refuses. Otherwise
  the row is inserted, or the row of the same key has the listed columns set.
\<close>

record entity_table =
  et_key :: "string option"
  et_rows :: "canonical_row list"

type_synonym pg_cast = "entity_field \<Rightarrow> string \<Rightarrow> string option"

definition pg_value ::
  "pg_cast \<Rightarrow> string option \<Rightarrow> (entity_field \<times> string) \<times> string option \<Rightarrow> store_error + string \<times> string option" where
  "pg_value cast key x =
     (case x of ((f, c), p) \<Rightarrow>
        (case p of
           None \<Rightarrow> if ef_nullable f \<and> key \<noteq> Some c then Inr (c, None)
                   else Inl (Postgres ''null value violates not-null constraint'')
         | Some s \<Rightarrow> (case cast f s of
                        Some v \<Rightarrow> Inr (c, Some v)
                      | None \<Rightarrow> Inl (Postgres ''invalid input syntax''))))"

definition set_columns :: "(string \<times> string option) list \<Rightarrow> canonical_row \<Rightarrow> canonical_row" where
  "set_columns values row = fold (\<lambda>(c, v). bt_insert c v) values row"

definition row_id :: "canonical_row \<Rightarrow> string option" where
  "row_id row = (case bt_get row ''id'' of Some v \<Rightarrow> v | None \<Rightarrow> None)"

fun write_row ::
  "string \<Rightarrow> string list \<Rightarrow> (string \<times> string option) list \<Rightarrow> canonical_row list \<Rightarrow> canonical_row list" where
  "write_row i upd values [] = [set_columns values []]"
| "write_row i upd values (r # rs) =
     (if row_id r = Some i then set_columns (filter (\<lambda>(c, v). c \<in> set upd) values) r # rs
      else r # write_row i upd values rs)"

definition upsert_effect ::
  "pg_cast \<Rightarrow> (entity_field \<times> string) list \<Rightarrow> string option list \<Rightarrow> entity_table \<Rightarrow>
     (store_error + unit) \<times> entity_table" where
  "upsert_effect cast cols params t =
     (if update_columns cols = [] then (Inl (Postgres ''syntax error''), t)
      else if \<not> distinct (map snd cols) then (Inl (Postgres ''column specified more than once''), t)
      else if et_key t \<noteq> Some ''id''
      then (Inl (Postgres ''no unique constraint matching the ON CONFLICT specification''), t)
      else case collect (pg_value cast (et_key t)) (zip cols params) of
             Inl e \<Rightarrow> (Inl e, t)
           | Inr values \<Rightarrow>
               (case map_of values ''id'' of
                  Some (Some i) \<Rightarrow> (Inr (), t\<lparr>et_rows := write_row i (update_columns cols) values (et_rows t)\<rparr>)
                | _ \<Rightarrow> (Inl (Postgres ''null value violates not-null constraint''), t)))"

section \<open>Operations\<close>

fun upsert_each ::
  "pg_cast \<Rightarrow> (json \<Rightarrow> string) \<Rightarrow> (entity_field \<times> string) list \<Rightarrow> json list \<Rightarrow> (entity_table, unit) db_action" where
  "upsert_each cast js cols [] = dreturn ()"
| "upsert_each cast js cols (entity # entities) =
     dbind (dbind (db_execute (upsert_effect cast cols (upsert_params js cols entity))) dlift)
       (\<lambda>_. upsert_each cast js cols entities)"

definition upsert ::
  "pg_cast \<Rightarrow> (json \<Rightarrow> string) \<Rightarrow> plain_model \<Rightarrow> json list \<Rightarrow> (entity_table, unit) db_action" where
  "upsert cast js m entities =
     (if entities = [] then dreturn () else upsert_each cast js (sorted_columns m) entities)"

definition remove_sql :: "plain_model \<Rightarrow> string" where
  "remove_sql m = ''DELETE FROM '' @ table_ref m @ '' WHERE id = ANY($1)''"

definition remove :: "string list \<Rightarrow> (entity_table, unit) db_action" where
  "remove ids =
     (if ids = [] then dreturn ()
      else db_execute (\<lambda>t. ((), t\<lparr>et_rows :=
        filter (\<lambda>r. case row_id r of None \<Rightarrow> True | Some i \<Rightarrow> i \<notin> set ids) (et_rows t)\<rparr>)))"

definition row_to_canonical :: "(entity_field \<times> string) list \<Rightarrow> canonical_row \<Rightarrow> canonical_row" where
  "row_to_canonical cols row =
     fold (\<lambda>(f, c) out. bt_insert c (case bt_get row c of Some v \<Rightarrow> v | None \<Rightarrow> None) out) cols []"

definition get_sql :: "plain_model \<Rightarrow> string" where
  "get_sql m = ''SELECT '' @ projection (sorted_columns m) @ '' FROM '' @ table_ref m @ '' WHERE id = $1''"

definition get :: "plain_model \<Rightarrow> string \<Rightarrow> (entity_table, canonical_row option) db_action" where
  "get m i =
     (let cols = sorted_columns m
      in db_query (\<lambda>t. map_option (row_to_canonical cols)
           (List.find (\<lambda>r. row_id r = Some i) (et_rows t))))"

definition dump_sql :: "plain_model \<Rightarrow> string" where
  "dump_sql m = ''SELECT '' @ projection (sorted_columns m) @ '' FROM '' @ table_ref m @ '' ORDER BY id''"

text \<open>\<open>by_id\<close> orders the rows by the collation of the database.\<close>

definition dump_canonical ::
  "(canonical_row list \<Rightarrow> canonical_row list) \<Rightarrow> plain_model \<Rightarrow> (entity_table, canonical_row list) db_action" where
  "dump_canonical by_id m =
     (let cols = sorted_columns m
      in db_query (\<lambda>t. map (row_to_canonical cols) (by_id (et_rows t))))"

fun where_parts ::
  "(json \<Rightarrow> string) \<Rightarrow> plain_model \<Rightarrow> (string \<times> json) list \<Rightarrow> string list \<Rightarrow> string option list \<Rightarrow>
     store_error + string list \<times> string option list" where
  "where_parts js m [] parts params = Inr (parts, params)"
| "where_parts js m ((field_name, v) # filters) parts params =
     rbind (ok_or (List.find (\<lambda>f. ef_name f = field_name) (pl_fields m))
              (UnsupportedType (''unknown field '' @ field_name))) (\<lambda>f.
       let col = underscored field_name; idx = length params + 1
       in where_parts js m filters (parts @ [quoted col @ '' = '' @ placeholder f idx])
            (params @ [encode js f (Some v)]))"

definition show_int :: "int \<Rightarrow> string" where
  "show_int n = (if n < 0 then ''-'' @ show_radix 10 (nat (- n)) else show_radix 10 (nat n))"

text \<open>The text of the query and its parameters; the rows it selects are those of the database.\<close>

definition get_by_fields_sql ::
  "(json \<Rightarrow> string) \<Rightarrow> plain_model \<Rightarrow> (string \<times> json) list \<Rightarrow> query_options \<Rightarrow>
     store_error + string \<times> string option list" where
  "get_by_fields_sql js m filters opts =
     rbind (where_parts js m filters [] []) (\<lambda>(parts, params).
       let order_col = underscored (qo_order_by opts);
           dir = order_dir_sql (qo_order_direction opts);
           where_clause = (if parts = [] then [] else ''WHERE '' @ join '' AND '' parts)
       in Inr (''SELECT '' @ projection (sorted_columns m) @ '' FROM '' @ table_ref m @ '' '' @ where_clause @
               '' ORDER BY '' @ quoted order_col @ '' '' @ dir @ '' LIMIT '' @ show_int (qo_limit opts) @
               '' OFFSET '' @ show_int (qo_offset opts), params))"

section \<open>The vocabulary of the entity store\<close>

datatype field_operator = OpEq | OpNe | OpIn | OpNotIn | OpLt | OpLte | OpGt | OpGte

fun field_operator_sql :: "field_operator \<Rightarrow> string" where
  "field_operator_sql OpEq = ''=''"
| "field_operator_sql OpNe = ''!=''"
| "field_operator_sql OpLt = ''<''"
| "field_operator_sql OpLte = ''<=''"
| "field_operator_sql OpGt = ''>''"
| "field_operator_sql OpGte = ''>=''"
| "field_operator_sql OpIn = ''IN''"
| "field_operator_sql OpNotIn = ''NOT IN''"

record field_expression =
  fe_field :: string
  fe_operator :: field_operator
  fe_value :: json

record get_options =
  gt_offset :: u32
  gt_limit :: u32
  gt_order_by :: string
  gt_order_direction :: order_dir

definition get_options_default :: get_options where
  "get_options_default = \<lparr>gt_offset = 0, gt_limit = 100, gt_order_by = ''id'', gt_order_direction = Asc\<rparr>"

datatype operation_type = OpSet | OpRemove

fun operation_type_as_str :: "operation_type \<Rightarrow> string" where
  "operation_type_as_str OpSet = ''Set''"
| "operation_type_as_str OpRemove = ''Remove''"

record operation =
  op_operation :: operation_type
  op_entity_type :: string
  op_data :: json

end
