(* ===== verification/Sq_Files.thy ===== *)
theory Sq_Files
  imports Sq_Strings
begin

text \<open>
  Paths and the file system, as \<open>crates/config/src/project.rs\<close> and
  \<open>vendor/sdk/manifest/src/reader.rs\<close> use them. The file system is a parameter, the record
  \<open>files\<close>; it does not change while a project is loaded. A path is the list of its components
  below the root of the file system, with \<open>..\<close> and symbolic links still in it before it is resolved.
\<close>

section \<open>Paths\<close>

type_synonym path = "string list"

text \<open>A relative path in text, the way \<open>Path::components\<close> reads it.\<close>

fun split_path :: "string \<Rightarrow> path" where
  "split_path [] = [[]]"
| "split_path (c # cs) =
     (if c = CHR ''/'' then [] # split_path cs
      else (case split_path cs of [] \<Rightarrow> [[c]] | p # ps \<Rightarrow> (c # p) # ps))"

definition path_components :: "string \<Rightarrow> path" where
  "path_components s = filter (\<lambda>p. p \<noteq> [] \<and> p \<noteq> ''.'') (split_path s)"

definition is_absolute :: "string \<Rightarrow> bool" where
  "is_absolute s = (strip_prefix ''/'' s \<noteq> None)"

definition path_starts_with :: "path \<Rightarrow> path \<Rightarrow> bool" where
  "path_starts_with p base = (take (length base) p = base)"

lemma path_starts_with_iff: "path_starts_with p base \<longleftrightarrow> (\<exists>rest. p = base @ rest)"
  by (auto simp: path_starts_with_def) (metis append_take_drop_id)

text \<open>
  \<open>fs_directory\<close> resolves the directory named on the command line, \<open>fs_canonicalize\<close> a path
  from the root, through all its links. \<open>fs_is_file\<close> follows links as well. \<open>fs_content\<close> is what a
  file holds, by its path without links.
\<close>

record files =
  fs_directory :: "string \<Rightarrow> string + path"
  fs_canonicalize :: "path \<Rightarrow> string + path"
  fs_is_file :: "path \<Rightarrow> bool"
  fs_content :: "path \<Rightarrow> string + string"

text \<open>Opening a file follows the links in its path: \<open>std::fs::read\<close>, and \<open>read_to_string\<close>, which
  refuses bytes that are not UTF-8.\<close>

definition fs_read :: "files \<Rightarrow> path \<Rightarrow> string + string" where
  "fs_read fs path = rbind (fs_canonicalize fs path) (fs_content fs)"

definition read_to_string :: "(string \<Rightarrow> bool) \<Rightarrow> files \<Rightarrow> path \<Rightarrow> string + string" where
  "read_to_string utf8 fs path =
     rbind (fs_read fs path) (\<lambda>bytes.
       if utf8 bytes then Inr bytes else Inl ''stream did not contain valid UTF-8'')"

end
