(* ===== verification/Sq_Reader.thy ===== *)
theory Sq_Reader
  imports Sq_Manifest Sq_Files Sq_Errors
begin

text \<open>
  Reading a manifest with a place for its errors, \<open>vendor/sdk/manifest/src/reader.rs\<close> and
  \<open>error.rs\<close>. A source is its bytes. The YAML parser is a parameter: it gives the manifest, or a
  message with the line and the column of the failure. Shown: for a source with plain line ends
  the byte offset is the very position the parser meant, and the nearest manifest is found.
\<close>

section \<open>Lines\<close>

definition line_feed :: char where
  "line_feed = CHR 0x0A"

fun split_inclusive :: "string \<Rightarrow> string list" where
  "split_inclusive [] = []"
| "split_inclusive (c # cs) =
     (if c = line_feed then [c] # split_inclusive cs
      else (case split_inclusive cs of [] \<Rightarrow> [[c]] | l # ls \<Rightarrow> (c # l) # ls))"

definition strip_last :: "char \<Rightarrow> string \<Rightarrow> string option" where
  "strip_last c s = (if s \<noteq> [] \<and> last s = c then Some (butlast s) else None)"

text \<open>\<open>str::lines\<close>: the line feed goes, and a carriage return before it.\<close>

definition source_lines :: "string \<Rightarrow> string list" where
  "source_lines source =
     map (\<lambda>l. case strip_last line_feed l of
            None \<Rightarrow> l
          | Some t \<Rightarrow> (case strip_last (CHR 0x0D) t of None \<Rightarrow> t | Some u \<Rightarrow> u))
       (split_inclusive source)"

section \<open>Spans\<close>

fun offset_from :: "nat \<Rightarrow> nat \<Rightarrow> nat \<Rightarrow> nat \<Rightarrow> string list \<Rightarrow> nat option" where
  "offset_from line column i offset [] = None"
| "offset_from line column i offset (l # ls) =
     (if i + 1 = line then Some (offset + min (column - 1) (length l))
      else offset_from line column (i + 1) (offset + length l + 1) ls)"

definition byte_offset :: "string \<Rightarrow> nat \<Rightarrow> nat \<Rightarrow> nat" where
  "byte_offset source line column =
     (case offset_from line column 0 0 (source_lines source) of Some n \<Rightarrow> n | None \<Rightarrow> length source)"

text \<open>A slice may begin at the end, or at a byte that does not continue a character.\<close>

definition is_char_boundary :: "string \<Rightarrow> nat \<Rightarrow> bool" where
  "is_char_boundary s n =
     (n = length s \<or> n < length s \<and> \<not> (128 \<le> (of_char (s ! n) :: nat) \<and> (of_char (s ! n) :: nat) < 192))"

definition line_len_from :: "string \<Rightarrow> nat \<Rightarrow> nat outcome" where
  "line_len_from source start =
     (if \<not> is_char_boundary source start then Panics ''byte index is not a char boundary''
      else let rest = drop start source
           in Returns (max (length (takeWhile (\<lambda>c. c \<noteq> line_feed) rest)) 1))"

section \<open>Reading\<close>

datatype manifest_error =
    Unreadable path string
  | NotFound path
  | Yaml string string string "(nat \<times> nat) option"
  | InvalidManifest nat "diagnostic list"

type_synonym yaml_parser = "string \<Rightarrow> string \<times> (nat \<times> nat) option + project_manifest"

definition from_str :: "yaml_parser \<Rightarrow> string \<Rightarrow> string \<Rightarrow> (manifest_error + project_manifest) outcome" where
  "from_str parse source name =
     (case parse source of
        Inr m \<Rightarrow> Returns (Inr m)
      | Inl (message, None) \<Rightarrow> Returns (Inl (Yaml message name source None))
      | Inl (message, Some (line, column)) \<Rightarrow>
          (let start = byte_offset source line column
           in case line_len_from source start of
                Panics p \<Rightarrow> Panics p
              | Returns len \<Rightarrow> Returns (Inl (Yaml message name source (Some (start, len))))))"

text \<open>\<open>Display\<close> of an error; a path prints with its slashes.\<close>

definition show_path :: "path \<Rightarrow> string" where
  "show_path p = concat (map (\<lambda>c. ''/'' @ c) p)"

fun manifest_error_display :: "manifest_error \<Rightarrow> string" where
  "manifest_error_display (Unreadable p _) = ''could not read manifest at `'' @ show_path p @ ''`''"
| "manifest_error_display (NotFound dir) =
     ''no `project.yaml` found in `'' @ show_path dir @ ''` or any parent directory''"
| "manifest_error_display (Yaml message _ _ _) = message"
| "manifest_error_display (InvalidManifest count _) =
     ''manifest failed validation with '' @ show_radix 10 count @ '' error(s)''"

definition from_path ::
  "yaml_parser \<Rightarrow> (string \<Rightarrow> bool) \<Rightarrow> files \<Rightarrow> path \<Rightarrow> (manifest_error + project_manifest) outcome" where
  "from_path parse utf8 fs p =
     (case read_to_string utf8 fs p of
        Inl e \<Rightarrow> Returns (Inl (Unreadable p e))
      | Inr source \<Rightarrow> from_str parse source (show_path p))"

fun ancestors :: "path \<Rightarrow> path list" where
  "ancestors p = (if p = [] then [[]] else p # ancestors (butlast p))"

declare ancestors.simps [simp del]

definition candidates_upward :: "path \<Rightarrow> path list" where
  "candidates_upward dir = concat (map (\<lambda>a. [a @ [''project.yaml''], a @ [''project.yml'']]) (ancestors dir))"

definition discover :: "files \<Rightarrow> path \<Rightarrow> manifest_error + path" where
  "discover fs dir = ok_or (List.find (fs_is_file fs) (candidates_upward dir)) (NotFound dir)"

section \<open>The offset is the position\<close>

definition line_of :: "string \<Rightarrow> nat \<Rightarrow> nat" where
  "line_of source p = Suc (length (filter (\<lambda>c. c = line_feed) (take p source)))"

definition column_of :: "string \<Rightarrow> nat \<Rightarrow> nat" where
  "column_of source p = Suc (length (takeWhile (\<lambda>c. c \<noteq> line_feed) (rev (take p source))))"

lemma split_inclusive_line:
  "line_feed \<notin> set l \<Longrightarrow> split_inclusive (l @ line_feed # rest) = (l @ [line_feed]) # split_inclusive rest"
  by (induction l) auto

lemma split_inclusive_last: "line_feed \<notin> set l \<Longrightarrow> split_inclusive l = (if l = [] then [] else [l])"
  by (induction l) auto

lemma last_not: "c \<notin> set l \<Longrightarrow> l \<noteq> [] \<Longrightarrow> last l \<noteq> c"
  by (metis last_in_set)

lemma source_lines_line:
  assumes "line_feed \<notin> set l" "CHR 0x0D \<notin> set l"
  shows "source_lines (l @ line_feed # rest) = l # source_lines rest"
  using assms(2) by (auto simp: last_not source_lines_def split_inclusive_line [OF assms(1)] strip_last_def)

lemma source_lines_last: "line_feed \<notin> set l \<Longrightarrow> l \<noteq> [] \<Longrightarrow> source_lines l = [l]"
  by (auto simp: source_lines_def split_inclusive_last strip_last_def last_not)

text \<open>Positions within the first line.\<close>

lemma first_line:
  assumes "line_feed \<notin> set l" "q \<le> length l"
  shows "line_of (l @ rest) q = 1" "column_of (l @ rest) q = Suc q"
proof -
  have "line_feed \<notin> set (take q l)" using assms(1) by (auto dest: in_set_takeD)
  then have w: "filter (\<lambda>c. c = line_feed) (take q l) = []"
    "takeWhile (\<lambda>c. c \<noteq> line_feed) (rev (take q l)) = rev (take q l)"
    by (auto simp: filter_empty_conv takeWhile_eq_all_conv simp del: rev_take)
  show "line_of (l @ rest) q = 1" "column_of (l @ rest) q = Suc q"
    using assms(2) by (simp_all add: line_of_def column_of_def w del: rev_take)
qed

lemma later_line:
  assumes "line_feed \<notin> set l"
  shows "line_of (l @ line_feed # rest) (Suc (length l) + q) = Suc (line_of rest q)"
    "column_of (l @ line_feed # rest) (Suc (length l) + q) = column_of rest q"
proof -
  have "filter (\<lambda>c. c = line_feed) l = []" using assms by (auto simp: filter_empty_conv)
  then show "line_of (l @ line_feed # rest) (Suc (length l) + q) = Suc (line_of rest q)"
    "column_of (l @ line_feed # rest) (Suc (length l) + q) = column_of rest q"
    by (simp_all add: line_of_def column_of_def takeWhile_tail)
qed

lemma offset_shift:
  "offset_from (line + k) column (i + k) (offset + n) ls = map_option (\<lambda>m. m + n) (offset_from line column i offset ls)"
proof (induction line column i offset ls rule: offset_from.induct)
  case (2 line column i offset l ls)
  then show ?case by (simp add: ac_simps)
qed simp

text \<open>The place that is shown for an error is the place the parser reported: for a source without
  carriage returns, the byte offset computed from the line and the column of any position is that
  position.\<close>

theorem byte_offset_exact:
  assumes "CHR 0x0D \<notin> set source" "p \<le> length source"
  shows "byte_offset source (line_of source p) (column_of source p) = p"
  using assms
proof (induction source arbitrary: p rule: length_induct)
  case (1 source)
  define l where "l = takeWhile (\<lambda>c. c \<noteq> line_feed) source"
  have l: "line_feed \<notin> set l" unfolding l_def by (auto dest: set_takeWhileD)
  show ?case
  proof (cases "l = source")
    case True
    with 1(3) l first_line [OF l, of p "[]"] source_lines_last [OF l] show ?thesis
      by (cases "source = []") (simp_all add: byte_offset_def source_lines_def)
  next
    case False
    then obtain rest where s: "source = l @ line_feed # rest"
      using takeWhile_dropWhile_id [of "\<lambda>c. c \<noteq> line_feed" source] hd_dropWhile [of "\<lambda>c. c \<noteq> line_feed" source]
      unfolding l_def by (cases "dropWhile (\<lambda>c. c \<noteq> line_feed) source") (auto intro: that dest: sym)
    have cr: "CHR 0x0D \<notin> set l" "CHR 0x0D \<notin> set rest" using 1(2) s by auto
    note sl = source_lines_line [OF l cr(1), of rest]
    show ?thesis
    proof (cases "p \<le> length l")
      case True
      then show ?thesis
        using first_line [OF l True] by (simp add: byte_offset_def s sl)
    next
      case False
      define q where "q = p - Suc (length l)"
      have p: "p = Suc (length l) + q" using False by (simp add: q_def)
      have "length rest < length source" "q \<le> length rest" using 1(3) by (simp_all add: s p)
      then have IH: "byte_offset rest (line_of rest q) (column_of rest q) = q" using 1(1) cr(2) by blast
      have "offset_from (Suc (line_of rest q)) c 1 (length l + 1) ls =
          map_option (\<lambda>m. m + (length l + 1)) (offset_from (line_of rest q) c 0 0 ls)" for c ls
        using offset_shift [of "line_of rest q" 1 c 0 0 "length l + 1" ls] by simp
      moreover have "line_of rest q \<noteq> 0" by (simp add: line_of_def)
      ultimately show ?thesis
        using IH later_line [OF l, of rest q] unfolding s p byte_offset_def sl
        by (simp del: add_Suc split: option.splits)
    qed
  qed
qed

lemma byte_offset_exact_witness:
  "byte_offset ([CHR ''a'', line_feed] @ ''bc'') (line_of ([CHR ''a'', line_feed] @ ''bc'') 3) 2 = 3"
proof -
  have "CHR 0x0D \<notin> set ([CHR ''a'', line_feed] @ ''bc'')" "3 \<le> length ([CHR ''a'', line_feed] @ ''bc'')"
    "column_of ([CHR ''a'', line_feed] @ ''bc'') 3 = 2"
    by code_simp+
  from byte_offset_exact [OF this(1,2)] this(3) show ?thesis by metis
qed

text \<open>With carriage returns each line before the position is counted one byte short; a column
  counted in characters can point into the middle of one, where the slice panics.\<close>

lemma carriage_return_drifts:
  "byte_offset [CHR ''a'', CHR 0x0D, line_feed, CHR ''b''] 2 1 = 2"
  "byte_offset [CHR ''a'', CHR 0x0D, line_feed, CHR ''b''] (line_of [CHR ''a'', CHR 0x0D, line_feed, CHR ''b''] 3) 1 = 2"
  by code_simp+

lemma wide_character_panics:
  "from_str (\<lambda>_. Inl (''unexpected end'', Some (1, 2))) [char_of (195 :: nat), char_of (169 :: nat)] ''project.yaml'' =
     Panics ''byte index is not a char boundary''"
  by code_simp

section \<open>The nearest manifest\<close>

lemma ancestors_take: "ancestors p = map (\<lambda>k. take k p) (rev [0..<Suc (length p)])"
proof (induction p rule: ancestors.induct)
  case (1 p)
  show ?case
  proof (cases "p = []")
    case False
    then obtain q x where p: "p = q @ [x]" by (metis append_butlast_last_id)
    have "map (\<lambda>k. take k p) (rev [0..<Suc (length q)]) = map (\<lambda>k. take k q) (rev [0..<Suc (length q)])"
      by (simp add: p)
    with 1 [OF False] p show ?thesis by (subst ancestors.simps) simp
  qed (simp add: ancestors.simps)
qed

lemma find_concat:
  "List.find P (concat xss) =
     (case List.find (\<lambda>xs. List.find P xs \<noteq> None) xss of None \<Rightarrow> None | Some xs \<Rightarrow> List.find P xs)"
proof (induction xss)
  case (Cons xs xss)
  have "List.find P (xs @ ys) = (case List.find P xs of None \<Rightarrow> List.find P ys | Some y \<Rightarrow> Some y)" for ys
    by (induction xs) auto
  with Cons show ?case by (auto split: option.splits)
qed simp

text \<open>\<open>discover\<close> takes the manifest of the closest directory that has one, and prefers
  \<open>project.yaml\<close> there.\<close>

lemma discover_nearest:
  assumes "discover fs dir = Inr p"
  obtains k where "k \<le> length dir" "fs_is_file fs p"
    "p = take k dir @ [''project.yaml''] \<or>
       p = take k dir @ [''project.yml''] \<and> \<not> fs_is_file fs (take k dir @ [''project.yaml''])"
    "\<And>j name. k < j \<Longrightarrow> j \<le> length dir \<Longrightarrow> name \<in> {''project.yaml'', ''project.yml''} \<Longrightarrow>
       \<not> fs_is_file fs (take j dir @ [name])"
proof -
  let ?has = "\<lambda>k. List.find (fs_is_file fs) [take k dir @ [''project.yaml''], take k dir @ [''project.yml'']]"
  let ?n = "length dir"
  have "List.find (fs_is_file fs) (concat (map (\<lambda>k. [take k dir @ [''project.yaml''], take k dir @ [''project.yml'']])
      (rev [0..<Suc ?n]))) = Some p"
    using assms by (auto simp: discover_def candidates_upward_def ancestors_take comp_def split: option.splits)
  then obtain xs where xs: "List.find (\<lambda>xs. List.find (fs_is_file fs) xs \<noteq> None)
      (map (\<lambda>k. [take k dir @ [''project.yaml''], take k dir @ [''project.yml'']]) (rev [0..<Suc ?n])) = Some xs"
    "List.find (fs_is_file fs) xs = Some p"
    unfolding find_concat by (auto split: option.splits)
  from this(1) [unfolded find_Some_iff] obtain i where i: "i < Suc ?n" "xs = [take (?n - i) dir @ [''project.yaml''], take (?n - i) dir @ [''project.yml'']]"
    "\<And>j. j < i \<Longrightarrow> ?has (?n - j) = None"
    by (auto simp: rev_nth simp del: upt_Suc List.find.simps not_None_eq)
  have none: "\<not> fs_is_file fs (take j dir @ [name])" if "?n - i < j" "j \<le> ?n" "name \<in> {''project.yaml'', ''project.yml''}" for j name
  proof -
    have "?n - j < i" using that(1,2) i(1) by linarith
    from i(3) [OF this] that(2,3) show ?thesis by (auto split: if_splits)
  qed
  show thesis
    using xs(2) i(1,2) none by (intro that [of "?n - i"]) (auto split: if_splits)
qed

end
