(* ===== verification/Sq_ManifestJson.thy ===== *)
theory Sq_ManifestJson
  imports Sq_Manifest
begin

text \<open>
  The JSON value of a manifest: the \<open>Serialize\<close> implementations of
  \<open>vendor/sdk/manifest/src/{project,network,datasource,handler,filter}.rs\<close> and
  \<open>vendor/sdk/types/src/{spec_version,chain}.rs\<close>, derived by serde from the attributes there. Members
  come in the order of the fields, with camel case names; an optional field that is \<open>None\<close> is left
  out where its attribute says so; an untagged enum is the value of its variant. The text of a URL
  (the \<open>url\<close> package) is the parameter \<open>url_text\<close>. Shown: no two manifests have the same value.
\<close>

section \<open>Values\<close>

definition opt_member :: "string \<Rightarrow> ('a \<Rightarrow> json) \<Rightarrow> 'a option \<Rightarrow> (string \<times> json) list" where
  "opt_member k f v = (case v of None \<Rightarrow> [] | Some x \<Rightarrow> [(k, f x)])"

definition u64_json :: "u64 \<Rightarrow> json" where
  "u64_json n = JNumber (show_u64 n)"

definition spec_version_json :: "spec_version \<Rightarrow> json" where
  "spec_version_json v = JString (spec_version_as_str v)"

text \<open>\<open>rename_all = "lowercase"\<close>.\<close>

fun family_json :: "chain_family \<Rightarrow> json" where
  "family_json Evm = JString ''evm''"
| "family_json Stellar = JString ''stellar''"
| "family_json Solana = JString ''solana''"

fun endpoints_json :: "(url \<Rightarrow> string) \<Rightarrow> endpoints \<Rightarrow> json" where
  "endpoints_json url_text NoEndpoints = JNull"
| "endpoints_json url_text (OneEndpoint u) = JString (url_text u)"
| "endpoints_json url_text (ManyEndpoints us) = JArray (map (\<lambda>u. JString (url_text u)) us)"

definition network_json :: "(url \<Rightarrow> string) \<Rightarrow> network_config \<Rightarrow> json" where
  "network_json url_text n = JObject
     ([(''family'', family_json (nw_family n)), (''chainId'', JString (nw_chain_id n)),
       (''endpoint'', endpoints_json url_text (nw_endpoint n))] @
      opt_member ''dictionary'' (\<lambda>u. JString (url_text u)) (nw_dictionary n) @
      opt_member ''chaintypes'' JString (nw_chaintypes n))"

definition log_filter_json :: "log_filter \<Rightarrow> json" where
  "log_filter_json f = JObject
     ((''event'', JString (mf_event f)) #
      (if mf_topics f = [] then [] else [(''topics'', JArray (map JString (mf_topics f)))]))"

definition transaction_filter_json :: "transaction_filter \<Rightarrow> json" where
  "transaction_filter_json f = JObject
     ((''function'', JString (mf_function f)) #
      opt_member ''from'' JString (mf_from f) @ opt_member ''to'' JString (mf_to f))"

definition block_filter_json :: "block_filter \<Rightarrow> json" where
  "block_filter_json f = JObject
     (opt_member ''modulo'' u64_json (bf_modulo f) @ opt_member ''timestamp'' JString (bf_timestamp f))"

fun handler_filter_json :: "handler_filter \<Rightarrow> json" where
  "handler_filter_json (FilterLog f) = log_filter_json f"
| "handler_filter_json (FilterTransaction f) = transaction_filter_json f"
| "handler_filter_json (FilterBlock f) = block_filter_json f"

definition handler_json :: "handler \<Rightarrow> json" where
  "handler_json h = JObject
     ([(''handler'', JString (ha_handler h)), (''kind'', JString (ha_kind h))] @
      opt_member ''filter'' handler_filter_json (ha_filter h))"

text \<open>A \<open>SchemaRef\<close> or an \<open>AssetRef\<close>.\<close>

definition file_json :: "string \<Rightarrow> json" where
  "file_json file = JObject [(''file'', JString file)]"

definition data_source_json :: "data_source \<Rightarrow> json" where
  "data_source_json ds = JObject
     ((''kind'', JString (ds_kind ds)) #
      opt_member ''name'' JString (ds_name ds) @
      opt_member ''startBlock'' u64_json (ds_start_block ds) @
      opt_member ''endBlock'' u64_json (ds_end_block ds) @
      (''options'', JObject (ds_options ds)) #
      (if ds_assets ds = [] then []
       else [(''assets'', JObject (map (\<lambda>(name, file). (name, file_json file)) (ds_assets ds)))]) @
      [(''handlers'', JArray (map handler_json (ds_handlers ds)))])"

definition manifest_json :: "(url \<Rightarrow> string) \<Rightarrow> project_manifest \<Rightarrow> json" where
  "manifest_json url_text m = JObject
     ([(''specVersion'', spec_version_json (pm_spec_version m)), (''name'', JString (pm_name m)),
       (''version'', JString (pm_version m))] @
      opt_member ''description'' JString (pm_description m) @
      opt_member ''license'' JString (pm_license m) @
      [(''network'', network_json url_text (pm_network m)), (''schema'', file_json (pm_schema m))] @
      opt_member ''startBlock'' u64_json (pm_start_block m) @
      [(''dataSources'', JArray (map data_source_json (pm_data_sources m)))])"

section \<open>The value determines the manifest\<close>

text \<open>An object is compared member by member, by its names.\<close>

lemma map_of_opt_member [simp]:
  "j \<noteq> k \<Longrightarrow> map_of (opt_member k f v @ xs) j = map_of xs j"
  "map_of xs k = None \<Longrightarrow> map_of (opt_member k f v @ xs) k = map_option f v"
  "map_of (opt_member k f v) j = (if j = k then map_option f v else None)"
  by (auto simp: opt_member_def split: option.split)

lemma object_eqD: "JObject xs = JObject ys \<Longrightarrow> map_of xs k = map_of ys k"
  by simp

lemma u64_json_inject [simp]: "u64_json a = u64_json b \<longleftrightarrow> a = b"
  by (auto simp: u64_json_def dest: arg_cong [of _ _ parse_u64])

lemma opt_inject:
  "map_option JString a = map_option JString b \<longleftrightarrow> a = b"
  "map_option u64_json c = map_option u64_json d \<longleftrightarrow> c = d"
  by (cases a; cases b; auto) (cases c; cases d; auto)

lemma map_JString_inject: "map JString xs = map JString ys \<longleftrightarrow> xs = ys"
  by (metis inj_def inj_map_eq_map json.inject(3))

lemma spec_version_json_inject: "spec_version_json a = spec_version_json b \<longleftrightarrow> a = b"
  by (cases a; cases b) simp

lemma family_json_inject: "family_json a = family_json b \<longleftrightarrow> a = b"
  by (cases a; cases b) simp_all

lemma urls_inject:
  assumes "inj_on url_text A" "map (\<lambda>u. JString (url_text u)) us = map (\<lambda>u. JString (url_text u)) vs"
    "set us \<union> set vs \<subseteq> A"
  shows "us = vs"
proof (rule map_inj_on [OF assms(2)])
  show "inj_on (\<lambda>u. JString (url_text u)) (set us \<union> set vs)"
    using inj_on_subset [OF assms(1,3)] by (simp add: inj_on_def)
qed

lemma endpoints_json_inject:
  assumes inj: "inj_on url_text A" and eq: "endpoints_json url_text a = endpoints_json url_text b"
    and sub: "set (endpoints_as_slice a) \<union> set (endpoints_as_slice b) \<subseteq> A"
  shows "a = b"
proof (cases a)
  case (OneEndpoint u)
  with eq obtain v where b: "b = OneEndpoint v" by (cases b) auto
  with OneEndpoint eq sub have "url_text u = url_text v" "u \<in> A" "v \<in> A" by auto
  then have "u = v" by (rule inj_onD [OF inj])
  with OneEndpoint b show ?thesis by simp
next
  case (ManyEndpoints us)
  with eq obtain vs where b: "b = ManyEndpoints vs" by (cases b) auto
  with ManyEndpoints eq sub have "us = vs" by (intro urls_inject [OF inj]) auto
  with ManyEndpoints b show ?thesis by simp
next
  case NoEndpoints
  with eq show ?thesis by (cases b) auto
qed

lemma network_json_inject:
  assumes inj: "inj_on url_text A" and eq: "network_json url_text a = network_json url_text b"
    and sub: "set (endpoints_as_slice (nw_endpoint a)) \<union> set_option (nw_dictionary a) \<union>
      set (endpoints_as_slice (nw_endpoint b)) \<union> set_option (nw_dictionary b) \<subseteq> A"
  shows "a = b"
proof -
  note member = object_eqD [OF eq [unfolded network_json_def]]
  have "nw_family a = nw_family b" using member [of "''family''"] by (simp add: family_json_inject del: map_of_append)
  moreover have "nw_chain_id a = nw_chain_id b" using member [of "''chainId''"] by (simp del: map_of_append)
  moreover have "nw_endpoint a = nw_endpoint b"
  proof (rule endpoints_json_inject [OF inj])
    show "endpoints_json url_text (nw_endpoint a) = endpoints_json url_text (nw_endpoint b)"
      using member [of "''endpoint''"] by (simp del: map_of_append)
  qed (use sub in auto)
  moreover have "nw_dictionary a = nw_dictionary b"
  proof -
    have eq: "map_option (\<lambda>u. JString (url_text u)) (nw_dictionary a) = map_option (\<lambda>u. JString (url_text u)) (nw_dictionary b)"
      using member [of "''dictionary''"] by (simp del: map_of_append)
    show ?thesis
    proof (cases "nw_dictionary a")
      case (Some u)
      with eq obtain v where v: "nw_dictionary b = Some v" "url_text u = url_text v"
        by (cases "nw_dictionary b") auto
      with Some sub have "u = v" by (intro inj_onD [OF inj]) auto
      with Some v show ?thesis by simp
    qed (use eq in simp)
  qed
  moreover have "nw_chaintypes a = nw_chaintypes b"
    using member [of "''chaintypes''"] by (simp add: opt_inject del: map_of_append)
  ultimately show ?thesis by (simp add: network_config.equality)
qed

lemma log_filter_json_inject: "log_filter_json a = log_filter_json b \<longleftrightarrow> a = b"
proof
  assume eq: "log_filter_json a = log_filter_json b"
  then have "mf_event a = mf_event b" by (simp add: log_filter_json_def)
  moreover have "mf_topics a = mf_topics b"
    using eq map_JString_inject [of "mf_topics a" "mf_topics b"] by (simp add: log_filter_json_def split: if_splits)
  ultimately show "a = b" by (simp add: log_filter.equality)
qed simp

lemma transaction_filter_json_inject: "transaction_filter_json a = transaction_filter_json b \<longleftrightarrow> a = b"
proof
  assume eq: "transaction_filter_json a = transaction_filter_json b"
  note member = object_eqD [OF eq [unfolded transaction_filter_json_def]]
  show "a = b"
    using member [of "''function''"] member [of "''from''"] member [of "''to''"]
    by (intro transaction_filter.equality) (simp_all add: opt_inject del: map_of_append)
qed simp

lemma block_filter_json_inject: "block_filter_json a = block_filter_json b \<longleftrightarrow> a = b"
proof
  assume eq: "block_filter_json a = block_filter_json b"
  note member = object_eqD [OF eq [unfolded block_filter_json_def]]
  show "a = b"
    using member [of "''modulo''"] member [of "''timestamp''"]
    by (intro block_filter.equality) (simp_all add: opt_inject del: map_of_append)
qed simp

text \<open>The three shapes of a filter are told apart by a member of their own.\<close>

lemma filter_shapes:
  "log_filter_json a \<noteq> transaction_filter_json b" "log_filter_json a \<noteq> block_filter_json c"
  "transaction_filter_json b \<noteq> block_filter_json c"
  by (auto simp: log_filter_json_def transaction_filter_json_def block_filter_json_def opt_member_def
      split: option.splits)

lemma handler_filter_json_inject: "handler_filter_json a = handler_filter_json b \<longleftrightarrow> a = b"
  by (cases a; cases b)
    (auto simp: log_filter_json_inject transaction_filter_json_inject block_filter_json_inject
      filter_shapes filter_shapes [symmetric])

lemma handler_json_inject: "handler_json a = handler_json b \<longleftrightarrow> a = b"
proof
  assume eq: "handler_json a = handler_json b"
  note member = object_eqD [OF eq [unfolded handler_json_def]]
  have "ha_filter a = ha_filter b"
    using member [of "''filter''"]
    by (cases "ha_filter a"; cases "ha_filter b") (auto simp: handler_filter_json_inject simp del: map_of_append)
  then show "a = b" using member [of "''handler''"] member [of "''kind''"]
    by (intro handler.equality) (simp_all del: map_of_append)
qed simp

lemma assets_json_inject:
  "map (\<lambda>(name, file). (name, file_json file)) as = map (\<lambda>(name, file). (name, file_json file)) bs \<longleftrightarrow> as = bs"
  by (rule inj_map_eq_map) (auto simp: inj_def file_json_def)

lemma data_source_json_inject: "data_source_json a = data_source_json b \<longleftrightarrow> a = b"
proof
  assume eq: "data_source_json a = data_source_json b"
  note member = object_eqD [OF eq [unfolded data_source_json_def]]
  have "ds_kind a = ds_kind b" using member [of "''kind''"] by (simp del: map_of_append)
  moreover have "ds_name a = ds_name b"
    using member [of "''name''"] by (simp add: opt_inject del: map_of_append split: if_splits)
  moreover have "ds_start_block a = ds_start_block b"
    using member [of "''startBlock''"] by (simp add: opt_inject del: map_of_append split: if_splits)
  moreover have "ds_end_block a = ds_end_block b"
    using member [of "''endBlock''"] by (simp add: opt_inject del: map_of_append split: if_splits)
  moreover have "ds_options a = ds_options b"
    using member [of "''options''"] by (simp del: map_of_append)
  moreover have "ds_assets a = ds_assets b"
    using member [of "''assets''"] by (simp add: assets_json_inject del: map_of_append split: if_splits)
  moreover have "ds_handlers a = ds_handlers b"
    using member [of "''handlers''"] by (simp add: handler_json_inject inj_map_eq_map inj_def del: map_of_append split: if_splits)
  ultimately show "a = b" by (simp add: data_source.equality)
qed simp

definition manifest_urls :: "project_manifest \<Rightarrow> url set" where
  "manifest_urls m =
     set (endpoints_as_slice (nw_endpoint (pm_network m))) \<union> set_option (nw_dictionary (pm_network m))"

lemma manifest_json_inject:
  assumes "inj_on url_text (manifest_urls a \<union> manifest_urls b)"
  shows "manifest_json url_text a = manifest_json url_text b \<longleftrightarrow> a = b"
proof
  assume eq: "manifest_json url_text a = manifest_json url_text b"
  note member = object_eqD [OF eq [unfolded manifest_json_def]]
  have "pm_spec_version a = pm_spec_version b"
    using member [of "''specVersion''"] by (simp add: spec_version_json_inject del: map_of_append)
  moreover have "pm_name a = pm_name b" using member [of "''name''"] by (simp del: map_of_append)
  moreover have "pm_version a = pm_version b" using member [of "''version''"] by (simp del: map_of_append)
  moreover have "pm_description a = pm_description b"
    using member [of "''description''"] by (simp add: opt_inject del: map_of_append)
  moreover have "pm_license a = pm_license b"
    using member [of "''license''"] by (simp add: opt_inject del: map_of_append)
  moreover have "pm_network a = pm_network b"
  proof (rule network_json_inject [OF assms])
    show "network_json url_text (pm_network a) = network_json url_text (pm_network b)"
      using member [of "''network''"] by (simp del: map_of_append)
  qed (auto simp: manifest_urls_def)
  moreover have "pm_schema a = pm_schema b"
    using member [of "''schema''"] by (simp add: file_json_def del: map_of_append)
  moreover have "pm_start_block a = pm_start_block b"
    using member [of "''startBlock''"] by (simp add: opt_inject del: map_of_append)
  moreover have "pm_data_sources a = pm_data_sources b"
    using member [of "''dataSources''"] by (simp add: data_source_json_inject inj_map_eq_map inj_def del: map_of_append)
  ultimately show "a = b" by (simp add: project_manifest.equality)
qed simp

end
