(* ===== verification/Sq_Project.thy ===== *)
theory Sq_Project
  imports Sq_Entities Sq_Reader Sq_ManifestJson
begin

text \<open>
  Loading a project directory, \<open>crates/config/src/project.rs\<close>. The file system is the parameter
  \<open>files\<close>. The manifest is read by the reader of the SDK, which may panic, and serialised by its
  \<open>Serialize\<close> implementations; the YAML parser, the printing of a JSON value and of a URL, the hash
  and the test for UTF-8 are parameters. Shown: the bytes that are hashed determine the project,
  and no file outside the project is read except through a link in the place of the manifest.
\<close>

section \<open>Inputs\<close>

text \<open>The path is resolved before it is compared and read: \<open>fs_content\<close>, no further link is followed.\<close>

definition read_input :: "files \<Rightarrow> path \<Rightarrow> string \<Rightarrow> string + string" where
  "read_input fs root relative =
     (if is_absolute relative then Inl ''project input paths must be relative''
      else rbind (map_err (\<lambda>e. ''input '' @ relative @ '': '' @ e)
                   (fs_canonicalize fs (root @ path_components relative))) (\<lambda>path.
        if \<not> path_starts_with path root then Inl (''input '' @ relative @ '' escapes project directory'')
        else map_err (\<lambda>e. ''input '' @ relative @ '': '' @ e) (fs_content fs path)))"

text \<open>
  What a read depends on: the one file it opens, if it opens any. A file is opened only when
  it lies below the root.
\<close>

definition opened :: "files \<Rightarrow> path \<Rightarrow> string \<Rightarrow> path option" where
  "opened fs root relative =
     (if is_absolute relative then None
      else case fs_canonicalize fs (root @ path_components relative) of
             Inl _ \<Rightarrow> None
           | Inr path \<Rightarrow> if path_starts_with path root then Some path else None)"

lemma read_input_Inr:
  "read_input fs root relative = Inr bytes \<longleftrightarrow>
     (\<exists>path. opened fs root relative = Some path \<and> fs_content fs path = Inr bytes)"
  by (cases "fs_canonicalize fs (root @ path_components relative)")
    (auto simp: read_input_def opened_def)

lemma opened_below_root: "opened fs root relative = Some path \<Longrightarrow> path_starts_with path root"
  by (auto simp: opened_def split: if_splits sum.splits)

section \<open>The fingerprint\<close>

text \<open>\<open>u64::to_be_bytes\<close> and lower case hexadecimal.\<close>

fun be_bytes :: "nat \<Rightarrow> nat \<Rightarrow> string" where
  "be_bytes 0 n = []"
| "be_bytes (Suc k) n = be_bytes k (n div 256) @ [char_of (n mod 256)]"

definition to_be_bytes :: "u64 \<Rightarrow> string" where
  "to_be_bytes w = be_bytes 8 (unat w)"

definition add_chunk :: "string \<Rightarrow> string" where
  "add_chunk bytes = to_be_bytes (of_nat (length bytes)) @ bytes"

definition hex_lower :: "string \<Rightarrow> string" where
  "hex_lower bytes =
     concat (map (\<lambda>c. [from_digit (of_char c div 16), from_digit (of_char c mod 16)]) bytes)"

record project_codec =
  pc_yaml :: yaml_parser
  pc_url_text :: "url \<Rightarrow> string"
  pc_to_vec :: "json \<Rightarrow> string + string"
  pc_sha256 :: "string \<Rightarrow> string"
  pc_utf8 :: "string \<Rightarrow> bool"
  pc_semver :: "string \<Rightarrow> bool"

definition asset_chunks :: "files \<Rightarrow> path \<Rightarrow> data_source \<Rightarrow> string + string list" where
  "asset_chunks fs root ds =
     rbind (collect (\<lambda>(name, asset). rbind (read_input fs root asset) (\<lambda>bytes. Inr [name, bytes])) (ds_assets ds))
       (\<lambda>xss. Inr (concat xss))"

definition fingerprint_chunks ::
  "project_codec \<Rightarrow> files \<Rightarrow> project_manifest \<Rightarrow> path \<Rightarrow> string + string list" where
  "fingerprint_chunks cd fs m root =
     rbind (pc_to_vec cd (manifest_json (pc_url_text cd) m)) (\<lambda>json.
     rbind (read_input fs root (pm_schema m)) (\<lambda>schema.
     rbind (collect (asset_chunks fs root) (pm_data_sources m)) (\<lambda>xss.
       Inr (''superquery-project-v1'' # json # schema # concat xss))))"

definition fingerprint :: "project_codec \<Rightarrow> files \<Rightarrow> project_manifest \<Rightarrow> path \<Rightarrow> string + string" where
  "fingerprint cd fs m root =
     rbind (fingerprint_chunks cd fs m root) (\<lambda>chunks.
       Inr (hex_lower (pc_sha256 cd (concat (map add_chunk chunks)))))"

section \<open>The bytes that are hashed\<close>

definition framed :: "string list \<Rightarrow> string" where
  "framed chunks = concat (map add_chunk chunks)"

lemma framed_simps [simp]: "framed [] = []" "framed (c # cs) = add_chunk c @ framed cs"
  by (simp_all add: framed_def)

lemma length_be_bytes [simp]: "length (be_bytes k n) = k"
  by (induction k arbitrary: n) simp_all

lemma be_bytes_inject: "be_bytes k m = be_bytes k n \<Longrightarrow> m < 256 ^ k \<Longrightarrow> n < 256 ^ k \<Longrightarrow> m = n"
proof (induction k arbitrary: m n)
  case (Suc k)
  have "char_of (m mod 256) = (char_of (n mod 256) :: char)" "be_bytes k (m div 256) = be_bytes k (n div 256)"
    using Suc.prems(1) by simp_all
  moreover have "m div 256 < 256 ^ k" "n div 256 < 256 ^ k"
    using Suc.prems(2,3) by (simp_all add: less_mult_imp_div_less mult.commute)
  ultimately have "m div 256 = n div 256"
    using Suc.IH by simp
  moreover have "m mod 256 = n mod 256"
    using arg_cong [OF \<open>char_of (m mod 256) = char_of (n mod 256)\<close>, of "of_char :: char \<Rightarrow> nat"] by simp
  ultimately show ?case by (metis mult_div_mod_eq)
qed simp

lemma to_be_bytes_inject: "to_be_bytes a = to_be_bytes b \<longleftrightarrow> a = b"
  using be_bytes_inject [of 8 "unat a" "unat b"] unat_u64_bound [of a] unat_u64_bound [of b]
  by (auto simp: to_be_bytes_def word_unat_eq_iff)

lemma add_chunk_append_inject:
  assumes "add_chunk a @ as = add_chunk b @ bs" "length a < 2 ^ 64" "length b < 2 ^ 64"
  shows "a = b \<and> as = bs"
proof -
  have "to_be_bytes (of_nat (length a)) = to_be_bytes (of_nat (length b))"
    using arg_cong [OF assms(1), of "take 8"] by (simp add: add_chunk_def to_be_bytes_def)
  then have "(of_nat (length a) :: u64) = of_nat (length b)" by (simp add: to_be_bytes_inject)
  then have "length a = length b"
    using assms(2,3) by (metis unat_of_nat_u64)
  with assms(1) show ?thesis by (simp add: add_chunk_def to_be_bytes_def)
qed

lemma framed_inject:
  "framed xs = framed ys \<Longrightarrow> length (framed xs) < 2 ^ 64 \<Longrightarrow> xs = ys"
proof (induction xs arbitrary: ys)
  case Nil
  then show ?case by (cases ys) (auto simp: add_chunk_def to_be_bytes_def dest: arg_cong [of _ _ length])
next
  case (Cons x xs)
  then obtain y ys' where ys: "ys = y # ys'"
    by (cases ys) (auto simp: add_chunk_def to_be_bytes_def dest: arg_cong [of _ _ length])
  have "length (framed (x # xs)) = length (framed (y # ys'))" using Cons.prems(1) ys by simp
  then have "length y < 2 ^ 64" "length x < 2 ^ 64" "length (framed xs) < 2 ^ 64"
    using Cons.prems(2) by (simp_all add: add_chunk_def)
  moreover from this add_chunk_append_inject [of x "framed xs" y "framed ys'"] Cons.prems(1) ys
  have "x = y" "framed xs = framed ys'" by simp_all
  ultimately show ?case using Cons.IH ys by simp
qed

lemma from_digit_inject: "d < 16 \<Longrightarrow> e < 16 \<Longrightarrow> from_digit d = from_digit e \<longleftrightarrow> d = e"
  by (auto simp: from_digit_eq_iff of_char_from_digit split: if_splits)

lemma hex_lower_inject: "hex_lower a = hex_lower b \<Longrightarrow> a = b"
proof (induction a arbitrary: b)
  case Nil
  then show ?case by (cases b) (simp_all add: hex_lower_def)
next
  case (Cons x a)
  then obtain y b' where b: "b = y # b'" by (cases b) (simp_all add: hex_lower_def)
  have bound: "(of_char c :: nat) div 16 < 16" for c :: char
    using nat_of_char_less_256 [of c] by (simp add: less_mult_imp_div_less)
  have "(of_char x :: nat) div 16 = of_char y div 16" "(of_char x :: nat) mod 16 = of_char y mod 16"
    "hex_lower a = hex_lower b'"
    using Cons.prems bound by (simp_all add: b hex_lower_def from_digit_inject)
  then have "(of_char x :: nat) = of_char y" "a = b'"
    using Cons.IH by (metis mult_div_mod_eq, simp)
  then show ?case by (simp add: b)
qed

section \<open>Loading\<close>

record loaded_project =
  lp_manifest :: project_manifest
  lp_root :: path
  lp_fingerprint :: string
  lp_schema :: string

text \<open>\<open>load\<close> fails with a message, or the reader of the manifest panics on the way.\<close>

datatype load_error = LoadFailed string | LoadPanics string

text \<open>\<open>Display\<close> of a finding.\<close>

definition diagnostic_display :: "diagnostic \<Rightarrow> string" where
  "diagnostic_display d = dg_field d @ '': '' @ dg_message d"

definition read_manifest :: "project_codec \<Rightarrow> string \<Rightarrow> load_error + project_manifest" where
  "read_manifest cd source =
     (case from_str (pc_yaml cd) source ''project.yaml'' of
        Panics p \<Rightarrow> Inl (LoadPanics p)
      | Returns r \<Rightarrow> map_err (\<lambda>e. LoadFailed (manifest_error_display e)) r)"

definition check_handler_kind :: "handler \<Rightarrow> string + unit" where
  "check_handler_kind h =
     (if ha_kind h \<notin> {''evm/LogHandler'', ''evm/TransactionHandler'', ''evm/BlockHandler''}
      then Inl (''unsupported handler kind: '' @ ha_kind h) else Inr ())"

definition load_source :: "files \<Rightarrow> path \<Rightarrow> data_source \<Rightarrow> string + unit" where
  "load_source fs root ds =
     (if ds_kind ds \<noteq> ''evm/Runtime'' then Inl (''unsupported datasource kind: '' @ ds_kind ds)
      else rbind (collect check_handler_kind (ds_handlers ds)) (\<lambda>_.
           rbind (collect (\<lambda>(name, asset). read_input fs root asset) (ds_assets ds)) (\<lambda>_. Inr ())))"

definition manifest_candidates :: "files \<Rightarrow> path \<Rightarrow> path list" where
  "manifest_candidates fs root =
     filter (fs_is_file fs) (map (\<lambda>name. root @ [name]) [''project.yaml'', ''project.yml''])"

definition load_project :: "project_codec \<Rightarrow> files \<Rightarrow> string \<Rightarrow> load_error + loaded_project" where
  "load_project cd fs directory =
     rbind (map_err (\<lambda>e. LoadFailed (''project directory: '' @ e)) (fs_directory fs directory)) (\<lambda>root.
       case manifest_candidates fs root of
         [candidate] \<Rightarrow>
           rbind (map_err (\<lambda>e. LoadFailed (''manifest: '' @ e)) (read_to_string (pc_utf8 cd) fs candidate)) (\<lambda>source.
           rbind (read_manifest cd source) (\<lambda>manifest.
             let report = validate (pc_semver cd) manifest None
             in if has_errors report
                then Inl (LoadFailed (join ''; '' (map diagnostic_display (report_errors report))))
                else rbind (map_err LoadFailed (collect (load_source fs root) (pm_data_sources manifest))) (\<lambda>_.
                     rbind (map_err LoadFailed (read_input fs root (pm_schema manifest))) (\<lambda>bytes.
                       if \<not> pc_utf8 cd bytes then Inl (LoadFailed ''schema must be UTF-8'')
                       else rbind (map_err LoadFailed (fingerprint cd fs manifest root)) (\<lambda>fp.
                         Inr \<lparr>lp_manifest = manifest, lp_root = root, lp_fingerprint = fp,
                              lp_schema = bytes\<rparr>)))))
       | _ \<Rightarrow> Inl (LoadFailed ''project must contain exactly one project.yaml or project.yml''))"

section \<open>What the fingerprint identifies\<close>

lemma fingerprint_eq:
  "fingerprint cd fs m root =
     rbind (fingerprint_chunks cd fs m root) (\<lambda>chunks. Inr (hex_lower (pc_sha256 cd (framed chunks))))"
  by (simp add: fingerprint_def framed_def)

lemma collect_pairs_inject:
  assumes "collect (\<lambda>(n, a). rbind (f a) (\<lambda>b. Inr [n, b])) xs = Inr yss"
    "collect (\<lambda>(n, a). rbind (g a) (\<lambda>b. Inr [n, b])) xs = Inr zss"
  shows "length (concat yss) = length (concat zss)"
    and "concat yss = concat zss \<longleftrightarrow> (\<forall>x\<in>set xs. f (snd x) = g (snd x))"
proof -
  show "length (concat yss) = length (concat zss)"
    using assms by (induction xs arbitrary: yss zss) (auto simp: rbind_eq_Inr)
  show "concat yss = concat zss \<longleftrightarrow> (\<forall>x\<in>set xs. f (snd x) = g (snd x))"
    using assms
  proof (induction xs arbitrary: yss zss)
    case (Cons x xs)
    then obtain b c yss' zss' where "f (snd x) = Inr b" "g (snd x) = Inr c"
      "yss = [fst x, b] # yss'" "zss = [fst x, c] # zss'"
      "collect (\<lambda>(n, a). rbind (f a) (\<lambda>b. Inr [n, b])) xs = Inr yss'"
      "collect (\<lambda>(n, a). rbind (g a) (\<lambda>b. Inr [n, b])) xs = Inr zss'"
      by (auto simp: rbind_eq_Inr split: prod.splits)
    with Cons.IH show ?case by simp
  qed simp
qed

lemma asset_chunks_inject:
  assumes "asset_chunks fs1 root1 ds = Inr c1" "asset_chunks fs2 root2 ds = Inr c2"
  shows "length c1 = length c2"
    and "c1 = c2 \<longleftrightarrow> (\<forall>a\<in>set (ds_assets ds). read_input fs1 root1 (snd a) = read_input fs2 root2 (snd a))"
proof -
  obtain yss zss where
    "collect (\<lambda>(n, a). rbind (read_input fs1 root1 a) (\<lambda>b. Inr [n, b])) (ds_assets ds) = Inr yss" "c1 = concat yss"
    "collect (\<lambda>(n, a). rbind (read_input fs2 root2 a) (\<lambda>b. Inr [n, b])) (ds_assets ds) = Inr zss" "c2 = concat zss"
    using assms by (auto simp: asset_chunks_def rbind_eq_Inr)
  with collect_pairs_inject [of "read_input fs1 root1" "ds_assets ds" yss "read_input fs2 root2" zss]
  show "length c1 = length c2"
    "c1 = c2 \<longleftrightarrow> (\<forall>a\<in>set (ds_assets ds). read_input fs1 root1 (snd a) = read_input fs2 root2 (snd a))"
    by blast+
qed

lemma sources_chunks_inject:
  assumes "collect (asset_chunks fs1 root1) dss = Inr xss1" "collect (asset_chunks fs2 root2) dss = Inr xss2"
  shows "concat xss1 = concat xss2 \<longleftrightarrow>
    (\<forall>ds\<in>set dss. \<forall>a\<in>set (ds_assets ds). read_input fs1 root1 (snd a) = read_input fs2 root2 (snd a))"
  using assms
proof (induction dss arbitrary: xss1 xss2)
  case (Cons ds dss)
  then obtain c1 c2 yss1 yss2 where c: "asset_chunks fs1 root1 ds = Inr c1" "asset_chunks fs2 root2 ds = Inr c2"
    and ys: "collect (asset_chunks fs1 root1) dss = Inr yss1" "collect (asset_chunks fs2 root2) dss = Inr yss2"
    and xss: "xss1 = c1 # yss1" "xss2 = c2 # yss2"
    by (auto simp: rbind_eq_Inr)
  show ?case
    using Cons.IH [OF ys] asset_chunks_inject [OF c] by (simp add: xss)
qed simp

lemma fingerprint_identifies_ok:
  assumes c1: "fingerprint_chunks cd fs1 m1 root1 = Inr c1"
    and c2: "fingerprint_chunks cd fs2 m2 root2 = Inr c2"
    and small: "length (framed c1) < 2 ^ 64"
    and sha: "inj_on (pc_sha256 cd) {framed c1, framed c2}"
    and vec: "inj_on (pc_to_vec cd) {manifest_json (pc_url_text cd) m1, manifest_json (pc_url_text cd) m2}"
    and urls: "inj_on (pc_url_text cd) (manifest_urls m1 \<union> manifest_urls m2)"
  shows "fingerprint cd fs1 m1 root1 = fingerprint cd fs2 m2 root2 \<longleftrightarrow>
     m1 = m2 \<and> read_input fs1 root1 (pm_schema m1) = read_input fs2 root2 (pm_schema m2) \<and>
     (\<forall>ds\<in>set (pm_data_sources m1). \<forall>a\<in>set (ds_assets ds).
        read_input fs1 root1 (snd a) = read_input fs2 root2 (snd a))"
proof -
  have "fingerprint cd fs1 m1 root1 = fingerprint cd fs2 m2 root2 \<longleftrightarrow> c1 = c2"
    using sha framed_inject [OF _ small, of c2] hex_lower_inject
    by (auto simp: fingerprint_eq c1 c2 inj_on_def)
  also have "c1 = c2 \<longleftrightarrow> m1 = m2 \<and> c1 = c2"
    using c1 c2 vec manifest_json_inject [OF urls] by (auto simp: fingerprint_chunks_def rbind_eq_Inr inj_on_def)
  also have "\<dots> \<longleftrightarrow> m1 = m2 \<and> read_input fs1 root1 (pm_schema m1) = read_input fs2 root2 (pm_schema m2) \<and>
     (\<forall>ds\<in>set (pm_data_sources m1). \<forall>a\<in>set (ds_assets ds).
        read_input fs1 root1 (snd a) = read_input fs2 root2 (snd a))"
  proof (rule conj_cong [OF refl])
    assume m: "m1 = m2"
    obtain j s1 xss1 s2 xss2 where
      "read_input fs1 root1 (pm_schema m1) = Inr s1" "collect (asset_chunks fs1 root1) (pm_data_sources m1) = Inr xss1"
      "c1 = ''superquery-project-v1'' # j # s1 # concat xss1"
      "read_input fs2 root2 (pm_schema m1) = Inr s2" "collect (asset_chunks fs2 root2) (pm_data_sources m1) = Inr xss2"
      "c2 = ''superquery-project-v1'' # j # s2 # concat xss2"
      using c1 c2 by (auto simp: fingerprint_chunks_def rbind_eq_Inr m)
    then show "c1 = c2 \<longleftrightarrow> read_input fs1 root1 (pm_schema m1) = read_input fs2 root2 (pm_schema m2) \<and>
     (\<forall>ds\<in>set (pm_data_sources m1). \<forall>a\<in>set (ds_assets ds).
        read_input fs1 root1 (snd a) = read_input fs2 root2 (snd a))"
      using sources_chunks_inject [of fs1 root1 "pm_data_sources m1" xss1 fs2 root2 xss2]
      by (simp add: m)
  qed
  finally show ?thesis .
qed

text \<open>The fingerprint identifies a project. Two projects have the same fingerprint exactly when
  they have the same manifest, in every field, and the same bytes in the schema file and in every
  asset. The JSON value the SDK serialises a manifest to determines it, and the length in front of
  every piece keeps pieces from running into each other. What is assumed is of the packages under
  it: on these two inputs the hash does not collide, the text \<open>C22: C22: C22: C22: serde_json\<close> prints determines the
  value, and the text of a URL the URL.\<close>

theorem fingerprint_identifies:
  assumes "fingerprint_chunks cd fs1 m1 root1 = Inr c1" "fingerprint_chunks cd fs2 m2 root2 = Inr c2"
    and "length (framed c1) < 2 ^ 64"
    and "inj_on (pc_sha256 cd) {framed c1, framed c2}"
    and "inj_on (pc_to_vec cd) {manifest_json (pc_url_text cd) m1, manifest_json (pc_url_text cd) m2}"
    and "inj_on (pc_url_text cd) (manifest_urls m1 \<union> manifest_urls m2)"
  shows "fingerprint cd fs1 m1 root1 = fingerprint cd fs2 m2 root2 \<longleftrightarrow>
     m1 = m2 \<and> read_input fs1 root1 (pm_schema m1) = read_input fs2 root2 (pm_schema m2) \<and>
     (\<forall>ds\<in>set (pm_data_sources m1). \<forall>a\<in>set (ds_assets ds).
        read_input fs1 root1 (snd a) = read_input fs2 root2 (snd a))"
  using assms by (rule fingerprint_identifies_ok)

definition demo_erc20 :: project_manifest where
  "demo_erc20 = \<lparr>pm_spec_version = V1_0, pm_name = ''demo'', pm_version = ''1.0.0'',
     pm_description = None, pm_license = None,
     pm_network = \<lparr>nw_family = Evm, nw_chain_id = ''1'', nw_endpoint = NoEndpoints, nw_dictionary = None,
       nw_chaintypes = None\<rparr>,
     pm_schema = ''schema.graphql'', pm_start_block = None,
     pm_data_sources = [\<lparr>ds_kind = ''evm/Runtime'', ds_name = None, ds_start_block = None, ds_end_block = None,
       ds_options = [], ds_assets = [(''erc20'', ''abis/erc20.json'')],
       ds_handlers = [\<lparr>ha_handler = ''handle'', ha_kind = ''evm/BlockHandler'', ha_filter = None\<rparr>]\<rparr>]\<rparr>"

definition demo_files :: "string \<Rightarrow> files" where
  "demo_files abi = \<lparr>fs_directory = (\<lambda>d. Inr [''srv'', d]), fs_canonicalize = Inr,
     fs_is_file = (\<lambda>p. p = [''srv'', ''demo'', ''project.yaml'']),
     fs_content = (\<lambda>p. if p = [''srv'', ''demo'', ''abis'', ''erc20.json''] then Inr abi
                     else if p = [''srv'', ''demo'', ''schema.graphql''] then Inr ''type A''
                     else if p = [''srv'', ''demo'', ''project.yaml''] then Inr ''name: demo''
                     else Inl ''no such file'')\<rparr>"

text \<open>JSON as it is printed, for names and values without characters to escape.\<close>

fun demo_json_text :: "json \<Rightarrow> string" where
  "demo_json_text JNull = ''null''"
| "demo_json_text (JBool b) = (if b then ''true'' else ''false'')"
| "demo_json_text (JNumber n) = n"
| "demo_json_text (JString s) = quoted s"
| "demo_json_text (JArray vs) = ''['' @ join '','' (map demo_json_text vs) @ '']''"
| "demo_json_text (JObject kvs) = ''{'' @ join '','' (map (\<lambda>(k, v). quoted k @ '':'' @ demo_json_text v) kvs) @ ''}''"

definition demo_project_codec :: project_codec where
  "demo_project_codec = \<lparr>pc_yaml = (\<lambda>_. Inr demo_erc20), pc_url_text = url_origin,
     pc_to_vec = (\<lambda>v. Inr (demo_json_text v)),
     pc_sha256 = (\<lambda>x. x), pc_utf8 = (\<lambda>_. True), pc_semver = (\<lambda>_. True)\<rparr>"

definition demo_manifest_text :: "string option \<Rightarrow> string" where
  "demo_manifest_text license = demo_json_text (manifest_json url_origin (demo_erc20\<lparr>pm_license := license\<rparr>))"

lemma length_framed: "length (framed cs) = sum_list (map (\<lambda>c. 8 + length c) cs)"
  by (induction cs) (simp_all add: add_chunk_def to_be_bytes_def)

lemma demo_chunks:
  "fingerprint_chunks demo_project_codec (demo_files abi) (demo_erc20\<lparr>pm_license := license\<rparr>) [''srv'', ''demo''] =
     Inr [''superquery-project-v1'', demo_manifest_text license, ''type A'', ''erc20'', abi]"
proof -
  have inputs: "read_input (demo_files abi) [''srv'', ''demo''] ''schema.graphql'' = Inr ''type A''"
    "read_input (demo_files abi) [''srv'', ''demo''] ''abis/erc20.json'' = Inr abi"
    by code_simp+
  show ?thesis
    by (simp add: fingerprint_chunks_def asset_chunks_def demo_project_codec_def demo_manifest_text_def inputs
        demo_erc20_def)
qed

text \<open>A license added to the manifest, or another byte in an ABI, is another project.\<close>

theorem fingerprint_identifies_witness:
  "fingerprint demo_project_codec (demo_files ''[]'') (demo_erc20\<lparr>pm_license := None\<rparr>) [''srv'', ''demo''] \<noteq>
   fingerprint demo_project_codec (demo_files ''[]'') (demo_erc20\<lparr>pm_license := Some ''MIT''\<rparr>) [''srv'', ''demo''] \<and>
   fingerprint demo_project_codec (demo_files ''[]'') (demo_erc20\<lparr>pm_license := None\<rparr>) [''srv'', ''demo''] \<noteq>
   fingerprint demo_project_codec (demo_files ''[{}]'') (demo_erc20\<lparr>pm_license := None\<rparr>) [''srv'', ''demo'']"
proof -
  have sha: "inj_on (pc_sha256 demo_project_codec) A" for A
    by (simp add: demo_project_codec_def)
  have "demo_manifest_text None \<noteq> demo_manifest_text (Some ''MIT'')" by code_simp
  then have vec: "inj_on (pc_to_vec demo_project_codec)
      {manifest_json (pc_url_text demo_project_codec) (demo_erc20\<lparr>pm_license := a\<rparr>),
       manifest_json (pc_url_text demo_project_codec) (demo_erc20\<lparr>pm_license := b\<rparr>)}"
    if "a \<in> {None, Some ''MIT''}" "b \<in> {None, Some ''MIT''}" for a b
    using that by (auto simp: demo_project_codec_def demo_manifest_text_def)
  have urls: "inj_on (pc_url_text demo_project_codec)
      (manifest_urls (demo_erc20\<lparr>pm_license := a\<rparr>) \<union> manifest_urls (demo_erc20\<lparr>pm_license := b\<rparr>))" for a b
    by (simp add: manifest_urls_def demo_erc20_def)
  have "length (demo_manifest_text None) < 1000" by code_simp
  then have len: "length (framed [''superquery-project-v1'', demo_manifest_text None, ''type A'', ''erc20'', ''[]'']) < 2 ^ 64"
    by (simp add: length_framed del: framed_simps)
  let ?m = "\<lambda>l. demo_erc20\<lparr>pm_license := l\<rparr>" and ?root = "[''srv'', ''demo'']"
  have fp: "fingerprint demo_project_codec (demo_files ''[]'') (?m None) ?root =
      fingerprint demo_project_codec (demo_files abi) (?m l) ?root \<Longrightarrow>
      ?m None = ?m l \<and> (\<forall>ds\<in>set (pm_data_sources (?m None)). \<forall>a\<in>set (ds_assets ds).
        read_input (demo_files ''[]'') ?root (snd a) = read_input (demo_files abi) ?root (snd a))"
    if "l \<in> {None, Some ''MIT''}" for l abi
    using fingerprint_identifies [OF demo_chunks demo_chunks len sha vec urls] that by blast
  have "read_input (demo_files abi) [''srv'', ''demo''] ''abis/erc20.json'' = Inr abi" for abi
    by code_simp
  then have "read_input (demo_files ''[]'') [''srv'', ''demo''] ''abis/erc20.json'' \<noteq>
      read_input (demo_files ''[{}]'') [''srv'', ''demo''] ''abis/erc20.json''" by simp
  then show ?thesis
    using fp [of "Some ''MIT''" "''[]''"] fp [of None "''[{}]''"] by (auto simp: demo_erc20_def)
qed

section \<open>What loading reads and accepts\<close>

lemma read_input_local:
  assumes "\<And>path. path_starts_with path root \<Longrightarrow>
      fs_canonicalize fs1 path = fs_canonicalize fs2 path \<and> fs_content fs1 path = fs_content fs2 path"
  shows "read_input fs1 root = read_input fs2 root"
proof
  fix relative
  have "path_starts_with (root @ path_components relative) root" by (simp add: path_starts_with_def)
  with assms show "read_input fs1 root relative = read_input fs2 root relative"
    by (cases "fs_canonicalize fs2 (root @ path_components relative)") (simp_all add: read_input_def)
qed

text \<open>The files that stand where the manifest is expected, with their links followed.\<close>

definition manifest_targets :: "files \<Rightarrow> path \<Rightarrow> path set" where
  "manifest_targets fs root = {path. \<exists>c\<in>set (manifest_candidates fs root). fs_canonicalize fs c = Inr path}"

text \<open>C23: What loading reads. Its result depends on the bytes of the files in the project directory
  and on those of the file that \<open>project.yaml\<close> (or \<open>project.yml\<close>) resolves to, and on no other: two
  file systems in which these hold the same, and in which the paths that begin in the directory
  are resolved alike, load alike, whatever the manifest names as schema and assets. Absolute paths,
  parent directories and links of an input that lead out are refused before anything is read.
  The manifest itself is not checked so: when \<open>project.yaml\<close> is a link, its target is read wherever
  it is (\<open>manifest_link_leads_out\<close>).\<close>

theorem load_reads_project_only:
  assumes "fs_directory fs1 directory = fs_directory fs2 directory"
    and "\<And>root path. fs_directory fs1 directory = Inr root \<Longrightarrow> path_starts_with path root \<Longrightarrow>
      fs_canonicalize fs1 path = fs_canonicalize fs2 path \<and> fs_is_file fs1 path = fs_is_file fs2 path"
    and "\<And>root path. fs_directory fs1 directory = Inr root \<Longrightarrow>
      path_starts_with path root \<or> path \<in> manifest_targets fs1 root \<Longrightarrow>
      fs_content fs1 path = fs_content fs2 path"
  shows "load_project cd fs1 directory = load_project cd fs2 directory"
proof (cases "fs_directory fs2 directory")
  case (Inr root)
  then have root: "fs_directory fs1 directory = Inr root" using assms(1) by simp
  have inputs: "read_input fs1 root = read_input fs2 root"
    using assms(2,3) [OF root] by (intro read_input_local) simp
  have candidates: "manifest_candidates fs1 root = manifest_candidates fs2 root"
    using assms(2) [OF root] by (auto simp: manifest_candidates_def path_starts_with_def)
  have below: "c \<in> set (manifest_candidates fs1 root) \<Longrightarrow> path_starts_with c root" for c
    by (auto simp: manifest_candidates_def path_starts_with_def split: if_splits)
  have "fs_read fs1 c = fs_read fs2 c" if c: "manifest_candidates fs2 root = [c]" for c
  proof (cases "fs_canonicalize fs1 c")
    case (Inr path)
    then have "path \<in> manifest_targets fs1 root" using c by (auto simp: manifest_targets_def candidates)
    then have "fs_content fs1 path = fs_content fs2 path" using assms(3) [OF root] by blast
    moreover have "fs_canonicalize fs2 c = Inr path" using assms(2) [OF root below] c Inr by (simp add: candidates)
    ultimately show ?thesis by (simp add: fs_read_def Inr)
  next
    case (Inl e)
    moreover have "fs_canonicalize fs2 c = Inl e" using assms(2) [OF root below] c Inl by (simp add: candidates)
    ultimately show ?thesis by (simp add: fs_read_def)
  qed
  then have source: "manifest_candidates fs2 root = [c] \<Longrightarrow>
      read_to_string (pc_utf8 cd) fs1 c = read_to_string (pc_utf8 cd) fs2 c" for c
    by (simp add: read_to_string_def)
  have sources: "load_source fs1 root = load_source fs2 root"
    by (simp add: load_source_def inputs fun_eq_iff)
  have prints: "fingerprint cd fs1 m root = fingerprint cd fs2 m root" for m
    by (simp add: fingerprint_def fingerprint_chunks_def asset_chunks_def [abs_def] inputs)
  consider "manifest_candidates fs2 root = []" | c where "manifest_candidates fs2 root = [c]"
    | c d cs where "manifest_candidates fs2 root = c # d # cs"
    by (cases "manifest_candidates fs2 root" rule: remdups_adj.cases) auto
  then show ?thesis
    by cases (simp_all add: load_project_def root Inr candidates inputs source sources prints cong: if_cong)
qed (simp add: load_project_def assms(1))

text \<open>A machine with a secret outside the project: it does not matter what the secret is, and not
  even whether it can be read.\<close>

definition demo_secret_files :: files where
  "demo_secret_files = (demo_files ''[]'')\<lparr>fs_content :=
     (\<lambda>p. if p = [''etc'', ''passwd''] then Inr ''secret'' else fs_content (demo_files ''[]'') p)\<rparr>"

theorem load_reads_project_only_witness:
  "load_project demo_project_codec (demo_files ''[]'') ''demo'' = load_project demo_project_codec demo_secret_files ''demo'' \<and>
   fs_content (demo_files ''[]'') [''etc'', ''passwd''] \<noteq> fs_content demo_secret_files [''etc'', ''passwd'']"
proof (rule conjI, rule load_reads_project_only)
  fix root path
  assume root: "fs_directory (demo_files ''[]'') ''demo'' = Inr root"
    and path: "path_starts_with path root \<or> path \<in> manifest_targets (demo_files ''[]'') root"
  have "path_starts_with path root"
    using path
  proof
    assume "path \<in> manifest_targets (demo_files ''[]'') root"
    then show ?thesis
      by (auto simp: manifest_targets_def manifest_candidates_def demo_files_def path_starts_with_def split: if_splits)
  qed
  with root have "path \<noteq> [''etc'', ''passwd'']"
    by (auto simp: demo_files_def path_starts_with_def)
  then show "fs_content (demo_files ''[]'') path = fs_content demo_secret_files path"
    by (simp add: demo_secret_files_def)
qed (simp_all add: demo_secret_files_def demo_files_def)

text \<open>\<open>project.yaml\<close> as a link to the secret: it is read, and the parser's message shows it.\<close>

definition demo_link_files :: "string \<Rightarrow> files" where
  "demo_link_files secret = (demo_files ''[]'')\<lparr>
     fs_canonicalize := (\<lambda>p. Inr (if p = [''srv'', ''demo'', ''project.yaml''] then [''etc'', ''passwd''] else p)),
     fs_content := (\<lambda>p. if p = [''etc'', ''passwd''] then Inr secret else Inl ''no such file'')\<rparr>"

lemma manifest_link_leads_out:
  "load_project (demo_project_codec\<lparr>pc_yaml := \<lambda>text. Inl (text, None)\<rparr>) (demo_link_files secret) ''demo'' =
     Inl (LoadFailed secret)"
proof -
  have "manifest_candidates (demo_link_files secret) [''srv'', ''demo''] = [[''srv'', ''demo'', ''project.yaml'']]"
    by (simp add: manifest_candidates_def demo_link_files_def demo_files_def)
  then show ?thesis
    by (simp add: load_project_def demo_link_files_def demo_files_def read_to_string_def fs_read_def read_manifest_def
        from_str_def demo_project_codec_def)
qed

lemma collect_member: "collect f xs = Inr ys \<Longrightarrow> x \<in> set xs \<Longrightarrow> \<exists>y. f x = Inr y"
  by (induction xs arbitrary: ys) (auto simp: rbind_eq_Inr)

lemma load_source_Inr:
  "load_source fs root ds = Inr u \<longleftrightarrow> ds_kind ds = ''evm/Runtime'' \<and>
     (\<forall>h\<in>set (ds_handlers ds). ha_kind h \<in> {''evm/LogHandler'', ''evm/TransactionHandler'', ''evm/BlockHandler''}) \<and>
     (\<forall>a\<in>set (ds_assets ds). \<exists>path bytes. opened fs root (snd a) = Some path \<and> fs_content fs path = Inr bytes)"
proof -
  have handlers: "(\<exists>us. collect check_handler_kind hs = Inr us) \<longleftrightarrow>
      (\<forall>h\<in>set hs. ha_kind h \<in> {''evm/LogHandler'', ''evm/TransactionHandler'', ''evm/BlockHandler''})" for hs
    by (induction hs) (auto simp: rbind_eq_Inr check_handler_kind_def)
  have assets: "(\<exists>bs. collect (\<lambda>(name, asset). read_input fs root asset) as = Inr bs) \<longleftrightarrow>
      (\<forall>a\<in>set as. \<exists>path bytes. opened fs root (snd a) = Some path \<and> fs_content fs path = Inr bytes)" for as
    by (induction as) (auto simp: rbind_eq_Inr read_input_Inr)
  show ?thesis
  proof (cases "ds_kind ds = ''evm/Runtime''")
    case True
    then have "load_source fs root ds = Inr u \<longleftrightarrow>
        (\<exists>us. collect check_handler_kind (ds_handlers ds) = Inr us) \<and>
        (\<exists>bs. collect (\<lambda>(name, asset). read_input fs root asset) (ds_assets ds) = Inr bs)"
      by (simp add: load_source_def rbind_eq_Inr)
    with True show ?thesis unfolding handlers assets by simp
  qed (simp add: load_source_def)
qed

text \<open>Everything a loaded project can rely on.\<close>

lemma load_project_Inr:
  assumes "load_project cd fs directory = Inr p"
  shows "fs_directory fs directory = Inr (lp_root p)"
    and "\<exists>candidate. manifest_candidates fs (lp_root p) = [candidate]"
    and "manifest_acceptable (lp_manifest p) None"
    and "ds \<in> set (pm_data_sources (lp_manifest p)) \<Longrightarrow> load_source fs (lp_root p) ds = Inr ()"
    and "read_input fs (lp_root p) (pm_schema (lp_manifest p)) = Inr (lp_schema p)" "pc_utf8 cd (lp_schema p)"
    and "fingerprint cd fs (lp_manifest p) (lp_root p) = Inr (lp_fingerprint p)"
proof -
  obtain root where root: "fs_directory fs directory = Inr root"
    using assms by (auto simp: load_project_def rbind_eq_Inr)
  obtain c where c: "manifest_candidates fs root = [c]"
    using assms root by (auto simp: load_project_def split: list.splits)
  obtain source where source: "read_to_string (pc_utf8 cd) fs c = Inr source"
    using assms by (auto simp: load_project_def root c rbind_eq_Inr)
  obtain m where m: "read_manifest cd source = Inr m"
    using assms by (auto simp: load_project_def root c source rbind_eq_Inr)
  have acceptable: "manifest_acceptable m None"
    using assms validate_errors_iff [of "pc_semver cd" m None]
    by (auto simp: load_project_def root c source m Let_def split: if_splits)
  then have no_errors: "\<not> has_errors (validate (pc_semver cd) m None)" by (simp add: validate_errors_iff)
  obtain us bytes fp where rest: "collect (load_source fs root) (pm_data_sources m) = Inr us"
    "read_input fs root (pm_schema m) = Inr bytes" "pc_utf8 cd bytes" "fingerprint cd fs m root = Inr fp"
    and p: "p = \<lparr>lp_manifest = m, lp_root = root, lp_fingerprint = fp, lp_schema = bytes\<rparr>"
    using assms by (auto simp: load_project_def root c source m no_errors rbind_eq_Inr split: if_splits)
  have "ds \<in> set (pm_data_sources m) \<Longrightarrow> load_source fs root ds = Inr ()" for ds
    using collect_member [OF rest(1)] by auto
  then show "fs_directory fs directory = Inr (lp_root p)"
    and "\<exists>candidate. manifest_candidates fs (lp_root p) = [candidate]"
    and "manifest_acceptable (lp_manifest p) None"
    and "ds \<in> set (pm_data_sources (lp_manifest p)) \<Longrightarrow> load_source fs (lp_root p) ds = Inr ()"
    and "read_input fs (lp_root p) (pm_schema (lp_manifest p)) = Inr (lp_schema p)" "pc_utf8 cd (lp_schema p)"
    and "fingerprint cd fs (lp_manifest p) (lp_root p) = Inr (lp_fingerprint p)"
    using root c acceptable rest by (simp_all add: p)
qed

end
