(* ===== verification/Sq_Startup.thy ===== *)
theory Sq_Startup
  imports Sq_Ingest Sq_EvmAdapter Sq_EvmProject Sq_Project
begin

text \<open>
  Starting the node, \<open>startup.rs\<close>: the checks of \<open>bootstrap\<close> in their order. The record
  \<open>startup_world\<close> holds what is outside: the file system, the parsers, the environment variables,
  the network and whether a connection pool can be built. Shown: what a node that started has
  checked, and that starting writes nothing.
\<close>

record startup_world =
  su_files :: files
  su_exists :: "string \<Rightarrow> bool"
  su_is_dir :: "string \<Rightarrow> bool"
  su_codec :: project_codec
  su_parse_schema :: "string \<Rightarrow> string + gql_object option list"
  su_url_text :: "url \<Rightarrow> string"
  su_abi :: evm_abi
  su_chain :: evm_world
  su_env :: "string \<Rightarrow> string option"
  su_create_pool :: "db_config \<Rightarrow> string + unit"

datatype startup_error =
    StartProject string
  | StartPanics string
  | StartSchema store_error
  | StartEndpoint string
  | StartChain chain_error
  | StartRange
  | StartDbConfig db_config_error
  | StartStore store_error

record node_context =
  cx_adapter :: evm_adapter
  cx_handlers :: "prepared_handler list"
  cx_project :: loaded_project
  cx_db_config :: db_config
  cx_project_path :: string
  cx_rpc_endpoints :: "string list"

definition resolve_project :: "startup_world \<Rightarrow> string \<Rightarrow> string + string" where
  "resolve_project w path =
     (if \<not> su_exists w path then Inl (''project path '' @ path @ '' does not exist'')
      else if \<not> su_is_dir w path
      then Inl (''project path '' @ path @ '' is not a directory (expected a built project)'')
      else Inr path)"

definition resolve_endpoints :: "(string \<Rightarrow> string + url) \<Rightarrow> string list \<Rightarrow> string + string list" where
  "resolve_endpoints parse endpoints =
     (if endpoints = []
      then Inl ''no RPC endpoint configured: pass --rpc-url or set SUPERQUERY_RPC_URL''
      else rbind (collect (validate_endpoint parse) endpoints) (\<lambda>_. Inr endpoints))"

definition configured_endpoints :: "startup_world \<Rightarrow> node_config \<Rightarrow> project_manifest \<Rightarrow> string list" where
  "configured_endpoints w c m =
     (if nc_rpc_urls c = [] then map (su_url_text w) (endpoints_as_slice (nw_endpoint (pm_network m)))
      else nc_rpc_urls c)"

definition effective_start :: "node_config \<Rightarrow> project_manifest \<Rightarrow> u64" where
  "effective_start c m = or_default (nc_start_height c) (min_start_block m)"

definition check_effective_range :: "node_config \<Rightarrow> u64 \<Rightarrow> startup_error + unit" where
  "check_effective_range c start =
     ensure (\<not> (i64_max < start \<or> (case nc_end_height c of Some end \<Rightarrow> end < start | None \<Rightarrow> False))) StartRange"

definition adapter_config :: "node_config \<Rightarrow> project_manifest \<Rightarrow> string list \<Rightarrow> evm_adapter_config" where
  "adapter_config c m endpoints =
     \<lparr>ec_endpoints = endpoints, ec_chain_id = nw_chain_id (pm_network m),
      ec_timeout_secs = nc_rpc_timeout_secs c, ec_max_retries = nc_rpc_max_retries c,
      ec_finality_confirmations = nc_finality_confirmations c\<rparr>"

definition database_connect :: "(db_config \<Rightarrow> string + unit) \<Rightarrow> db_config \<Rightarrow> store_error + unit" where
  "database_connect create_pool cfg =
     rbind (validate_ident (db_schema cfg)) (\<lambda>_. map_err Pool (create_pool cfg))"

text \<open>A panic while the project is loaded ends the start as an error does, with its own variant.\<close>

fun start_load_error :: "load_error \<Rightarrow> startup_error" where
  "start_load_error (LoadFailed e) = StartProject e"
| "start_load_error (LoadPanics p) = StartPanics p"

text \<open>Everything \<open>bootstrap\<close> does before it talks to the database.\<close>

definition bootstrap_checks :: "startup_world \<Rightarrow> node_config \<Rightarrow> startup_error + node_context" where
  "bootstrap_checks w c =
     rbind (map_err StartProject (resolve_project w (nc_project c))) (\<lambda>project_path.
     rbind (map_err start_load_error (load_project (su_codec w) (su_files w) project_path)) (\<lambda>project.
     rbind (map_err StartSchema (parse_entities (su_parse_schema w) (lp_schema project))) (\<lambda>_.
       let m = lp_manifest project; endpoints = configured_endpoints w c m
       in rbind (map_err StartEndpoint (resolve_endpoints (ew_parse_url (su_chain w)) endpoints)) (\<lambda>rpc_endpoints.
          rbind (map_err StartChain (prepare_handlers (su_abi w) m)) (\<lambda>handlers.
          rbind (check_effective_range c (effective_start c m)) (\<lambda>_.
            let adapter = evm_adapter_new (adapter_config c m rpc_endpoints)
            in rbind (map_err StartChain (validate_network (su_chain w) adapter (nw_chain_id (pm_network m)))) (\<lambda>_.
               rbind (map_err StartDbConfig (db_resolve (ew_parse_url (su_chain w)) (pc_utf8 (su_codec w))
                        (su_env w) (nc_database_url c))) (\<lambda>cfg.
               rbind (map_err StartStore (database_connect (su_create_pool w) cfg)) (\<lambda>_.
                 Inr \<lparr>cx_adapter = adapter, cx_handlers = handlers, cx_project = project,
                      cx_db_config = cfg, cx_project_path = project_path,
                      cx_rpc_endpoints = rpc_endpoints\<rparr>)))))))))"

definition bootstrap :: "startup_world \<Rightarrow> node_config \<Rightarrow> db \<Rightarrow> (startup_error + node_context) \<times> db" where
  "bootstrap w c d =
     (case bootstrap_checks w c of
        Inl e \<Rightarrow> (Inl e, d)
      | Inr context \<Rightarrow>
          (case db_ping d of
             (Inl e, d') \<Rightarrow> (Inl (StartStore e), d')
           | (Inr _, d') \<Rightarrow> (Inr context, d')))"

section \<open>What startup has checked\<close>

definition startup_ok :: "startup_world \<Rightarrow> node_config \<Rightarrow> node_context \<Rightarrow> bool" where
  "startup_ok w c x =
     (let m = lp_manifest (cx_project x); start = effective_start c m
      in manifest_acceptable m None \<and>
         fs_directory (su_files w) (nc_project c) = Inr (lp_root (cx_project x)) \<and>
         cx_rpc_endpoints x \<noteq> [] \<and>
         list_all (\<lambda>e. \<exists>u. validate_endpoint (ew_parse_url (su_chain w)) e = Inr u) (cx_rpc_endpoints x) \<and>
         prepare_handlers (su_abi w) m = Inr (cx_handlers x) \<and> cx_handlers x \<noteq> [] \<and>
         start \<le> i64_max \<and> (case nc_end_height c of Some end \<Rightarrow> start \<le> end | None \<Rightarrow> True) \<and>
         cx_adapter x = evm_adapter_new (adapter_config c m (cx_rpc_endpoints x)) \<and>
         validate_network (su_chain w) (cx_adapter x) (nw_chain_id (pm_network m)) = Inr () \<and>
         validate_ident (db_schema (cx_db_config x)) = Inr ())"

lemma collect_list_all: "collect f xs = Inr ys \<Longrightarrow> list_all (\<lambda>x. \<exists>y. f x = Inr y) xs"
  by (induction xs arbitrary: ys) (auto simp: rbind_eq_Inr)

lemma resolve_endpoints_Inr:
  "resolve_endpoints parse es = Inr es' \<longleftrightarrow> es' = es \<and> es \<noteq> [] \<and> (\<exists>us. collect (validate_endpoint parse) es = Inr us)"
  by (auto simp: resolve_endpoints_def rbind_eq_Inr)

lemma check_effective_range_Inr:
  "check_effective_range c start = Inr u \<longleftrightarrow>
     start \<le> i64_max \<and> (case nc_end_height c of Some end \<Rightarrow> start \<le> end | None \<Rightarrow> True)"
  by (auto simp: check_effective_range_def not_less split: option.splits)

lemma prepared_nonempty:
  assumes "manifest_acceptable m None" "prepare_handlers abi m = Inr hs"
  shows "hs \<noteq> []"
proof -
  obtain ds dss where ds: "pm_data_sources m = ds # dss" and "source_acceptable m None ds"
    using assms(1) by (cases "pm_data_sources m") (auto simp: manifest_acceptable_def)
  then have "ds_handlers ds \<noteq> []" by (simp add: source_acceptable_def)
  with ds prepare_handlers_ranges [OF assms(2)] show ?thesis by auto
qed

lemma bootstrap_checks_ok:
  assumes "bootstrap_checks w c = Inr x"
  shows "startup_ok w c x"
proof -
  obtain path project models endpoints handlers cfg where
    path: "resolve_project w (nc_project c) = Inr path"
    and project: "load_project (su_codec w) (su_files w) path = Inr project"
    and endpoints: "resolve_endpoints (ew_parse_url (su_chain w)) (configured_endpoints w c (lp_manifest project)) = Inr endpoints"
    and handlers: "prepare_handlers (su_abi w) (lp_manifest project) = Inr handlers"
    and range: "check_effective_range c (effective_start c (lp_manifest project)) = Inr ()"
    and net: "validate_network (su_chain w) (evm_adapter_new (adapter_config c (lp_manifest project) endpoints))
        (nw_chain_id (pm_network (lp_manifest project))) = Inr ()"
    and cfg: "database_connect (su_create_pool w) cfg = Inr ()"
    and x: "x = \<lparr>cx_adapter = evm_adapter_new (adapter_config c (lp_manifest project) endpoints),
        cx_handlers = handlers, cx_project = project, cx_db_config = cfg, cx_project_path = path,
        cx_rpc_endpoints = endpoints\<rparr>"
    using assms by (auto simp: bootstrap_checks_def rbind_eq_Inr Let_def)
  have "path = nc_project c" using path by (simp add: resolve_project_def split: if_splits)
  moreover have "validate_ident (db_schema cfg) = Inr ()"
    using cfg by (auto simp: database_connect_def rbind_eq_Inr)
  ultimately show ?thesis
    using load_project_Inr(1,3) [OF project] endpoints handlers range net prepared_nonempty [OF _ handlers]
    by (auto simp: startup_ok_def Let_def x resolve_endpoints_Inr check_effective_range_Inr dest: collect_list_all)
qed

lemma db_ping_tables: "db_ping d = (r, d') \<Longrightarrow> db_tables d' = db_tables d"
  unfolding db_ping_def by (rule db_query_tables)

text \<open>C8: A node that started has checked everything, and starting writes nothing. Whatever the
  outcome, no table changes, and until all checks of the project, the configuration and the
  chain have passed the database is not even asked. A start that succeeds has an accepted
  manifest, at least one valid endpoint and one prepared handler, a range of heights that the
  database can hold, an endpoint that answers with the chain the project names, and a schema
  name that is an identifier.\<close>

theorem bootstrap_checked:
  "case bootstrap w c d of
     (Inr x, d') \<Rightarrow> db_tables d' = db_tables d \<and> startup_ok w c x
   | (Inl e, d') \<Rightarrow> db_tables d' = db_tables d \<and> (d' = d \<or> (\<exists>x se. bootstrap_checks w c = Inr x \<and> e = StartStore se))"
proof (cases "bootstrap_checks w c")
  case (Inr x)
  obtain r d' where ping: "db_ping d = (r, d')" by force
  then show ?thesis
    using bootstrap_checks_ok [OF Inr] db_ping_tables [OF ping]
    by (cases r) (simp_all add: bootstrap_def Inr)
qed (simp add: bootstrap_def)

section \<open>What is logged at startup\<close>

datatype log_line =
    NodeStarting string string string nat
  | RpcEndpointLine nat string

definition log_summary :: "startup_world \<Rightarrow> node_context \<Rightarrow> log_line list" where
  "log_summary w x =
     NodeStarting (cx_project_path x) (redacted (cx_db_config x)) (db_schema (cx_db_config x)) (length (cx_rpc_endpoints x)) #
     map (\<lambda>(index, endpoint). RpcEndpointLine index (redact_endpoint (ew_parse_url (su_chain w)) endpoint))
       (enumerate 0 (cx_rpc_endpoints x))"

text \<open>The log shows neither the password nor anything of an endpoint beyond its origin, where
  providers put their keys: it is the same for other ones.\<close>

lemma log_summary_hides_secrets:
  assumes "list_all2 (\<lambda>e e'. redact_endpoint (ew_parse_url (su_chain w)) e = redact_endpoint (ew_parse_url (su_chain w)) e')
      (cx_rpc_endpoints x) endpoints"
  shows "log_summary w (x\<lparr>cx_rpc_endpoints := endpoints, cx_db_config := (cx_db_config x)\<lparr>db_password := pw\<rparr>\<rparr>) =
    log_summary w x"
proof -
  let ?line = "\<lambda>(i, e). RpcEndpointLine i (redact_endpoint (ew_parse_url (su_chain w)) e)"
  have "map ?line (enumerate 0 endpoints) = map ?line (enumerate 0 (cx_rpc_endpoints x))"
    using list_all2_lengthD [OF assms] list_all2_nthD [OF assms]
    by (intro nth_equalityI) (simp_all add: nth_enumerate_eq)
  then show ?thesis using list_all2_lengthD [OF assms] by (simp add: log_summary_def redacted_def)
qed

section \<open>A node that starts\<close>

lemma demo_parse_one: "parse_u64 ''1'' = Some 1"
  by (simp add: parse_u64_def from_str_radix_def to_digit_def)

lemma demo_erc20_acceptable: "manifest_acceptable demo_erc20 None"
proof -
  have "project_name_ok ''demo''" "\<not> trim_is_empty ''handle''" "kind_belongs_to ''evm/Runtime'' Evm"
    "kind_belongs_to ''evm/BlockHandler'' Evm"
    by code_simp+
  then show ?thesis
    by (simp add: manifest_acceptable_def demo_erc20_def network_acceptable_def demo_parse_one
        source_acceptable_def handler_acceptable_def)
qed

definition demo_loaded :: loaded_project where
  "demo_loaded = \<lparr>lp_manifest = demo_erc20, lp_root = [''srv'', ''demo''],
     lp_fingerprint = hex_lower (framed [''superquery-project-v1'', demo_manifest_text None, ''type A'', ''erc20'', ''[]'']),
     lp_schema = ''type A''\<rparr>"

lemma demo_load: "load_project demo_project_codec (demo_files ''[]'') ''demo'' = Inr demo_loaded"
proof -
  have valid: "\<not> has_errors (validate semver demo_erc20 None)" for semver
    using demo_erc20_acceptable by (simp add: validate_errors_iff)
  have dir: "fs_directory (demo_files ''[]'') ''demo'' = Inr [''srv'', ''demo'']"
    by (simp add: demo_files_def)
  have candidates: "manifest_candidates (demo_files ''[]'') [''srv'', ''demo''] = [[''srv'', ''demo'', ''project.yaml'']]"
    by code_simp
  have source: "read_to_string (pc_utf8 demo_project_codec) (demo_files ''[]'') [''srv'', ''demo'', ''project.yaml''] = Inr ''name: demo''"
    by code_simp
  have sources: "collect (load_source (demo_files ''[]'') [''srv'', ''demo'']) (pm_data_sources demo_erc20) = Inr [()]"
    by code_simp
  have schema: "read_input (demo_files ''[]'') [''srv'', ''demo''] (pm_schema demo_erc20) = Inr ''type A''"
    by code_simp
  have fp: "fingerprint demo_project_codec (demo_files ''[]'') demo_erc20 [''srv'', ''demo''] =
      Inr (lp_fingerprint demo_loaded)"
  proof -
    have "demo_erc20\<lparr>pm_license := None\<rparr> = demo_erc20" by (simp add: demo_erc20_def)
    with demo_chunks [of "''[]''" None] show ?thesis
      by (simp add: fingerprint_eq demo_loaded_def demo_project_codec_def del: framed_simps)
  qed
  have codec: "read_manifest demo_project_codec x = Inr demo_erc20" "pc_utf8 demo_project_codec x" for x
    by (simp_all add: demo_project_codec_def read_manifest_def from_str_def)
  show ?thesis
    by (simp add: load_project_def dir candidates source sources schema fp codec valid) (simp add: demo_loaded_def)
qed

definition demo_startup :: startup_world where
  "demo_startup =
     \<lparr>su_files = demo_files ''[]'', su_exists = (\<lambda>p. p = ''demo''), su_is_dir = (\<lambda>p. p = ''demo''),
      su_codec = demo_project_codec, su_parse_schema = (\<lambda>_. Inr []), su_url_text = url_origin,
      su_abi = demo_abi,
      su_chain = \<lparr>ew_parse_url = (\<lambda>s. Inr (demo_url s)), ew_codec = demo_codec,
        ew_network = (\<lambda>_ _ _ _. \<lparr>ae_chain_id = ReplyValue (JString ''0x1''),
          ae_reply = ReplyValue (JString ''0x1''), ae_timed_out = False\<rparr>)\<rparr>,
      su_env = (\<lambda>_. None), su_create_pool = (\<lambda>_. Inr ())\<rparr>"

definition demo_start_config :: node_config where
  "demo_start_config = (node_config_with_defaults ''demo'')
     \<lparr>nc_rpc_urls := [''node''], nc_ingest_only := True, nc_start_height := Some 2, nc_end_height := Some 2\<rparr>"

definition demo_context :: node_context where
  "demo_context =
     \<lparr>cx_adapter = evm_adapter_new (adapter_config demo_start_config demo_erc20 [''node'']),
      cx_handlers = [\<lparr>ph_function = ''handle'', ph_start = 0, ph_end = None, ph_filter = InputBlock None\<rparr>],
      cx_project = demo_loaded, cx_db_config = db_config_default, cx_project_path = ''demo'',
      cx_rpc_endpoints = [''node'']\<rparr>"

lemma demo_bootstrap: "bootstrap_checks demo_startup demo_start_config = Inr demo_context"
proof -
  have config: "nc_project demo_start_config = ''demo''" "nc_rpc_urls demo_start_config = [''node'']"
    "nc_database_url demo_start_config = None" "nc_end_height demo_start_config = Some 2"
    "nc_start_height demo_start_config = Some 2" "nc_rpc_max_retries demo_start_config = 5"
    "nc_rpc_timeout_secs demo_start_config = 30"
    by (simp_all add: demo_start_config_def node_config_with_defaults_def)
  have world: "su_files demo_startup = demo_files ''[]''" "su_codec demo_startup = demo_project_codec"
    "su_parse_schema demo_startup = (\<lambda>_. Inr [])" "su_abi demo_startup = demo_abi"
    "ew_parse_url (su_chain demo_startup) = (\<lambda>s. Inr (demo_url s))" "su_env demo_startup = (\<lambda>_. None)"
    "su_create_pool demo_startup = (\<lambda>_. Inr ())"
    by (simp_all add: demo_startup_def)
  have path: "resolve_project demo_startup ''demo'' = Inr ''demo''"
    by (simp add: resolve_project_def demo_startup_def)
  have loaded: "lp_manifest demo_loaded = demo_erc20" "lp_schema demo_loaded = ''type A''"
    by (simp_all add: demo_loaded_def)
  have schema: "parse_entities (\<lambda>_. Inr []) s = Inr []" for s by (simp add: parse_entities_def)
  have endpoints: "configured_endpoints demo_startup demo_start_config demo_erc20 = [''node'']"
    "resolve_endpoints (\<lambda>s. Inr (demo_url s)) [''node''] = Inr [''node'']"
    by (simp_all add: configured_endpoints_def config resolve_endpoints_def validate_endpoint_def demo_url_def)
  have handlers: "prepare_handlers demo_abi demo_erc20 = Inr (cx_handlers demo_context)"
    by (simp add: prepare_handlers_def prepare_source_def demo_erc20_def unsupported_option_def options_keys_def
        options_get_str_def options_contains_def manifest_address_def prepare_filter_def prepare_block_def
        effective_start_block_def option_or_def demo_context_def)
  have range: "check_effective_range demo_start_config (effective_start demo_start_config demo_erc20) = Inr ()"
    by (simp add: check_effective_range_def effective_start_def config i64_max_def)
  have chain: "nw_chain_id (pm_network demo_erc20) = ''1''" by (simp add: demo_erc20_def)
  have net: "validate_network (su_chain demo_startup)
      (evm_adapter_new (adapter_config demo_start_config demo_erc20 [''node''])) ''1'' = Inr ()"
    by (simp add: validate_network_def evm_request_def evm_adapter_new_def adapter_config_def rpc_client_new_def
        config chain demo_startup_def demo_parse_one validate_endpoint_def demo_url_def rpc_request_def upt_rec
        rpc_attempt_def rpc_call_def demo_quantities)
  have db: "db_resolve p u (\<lambda>_. None) None = Inr db_config_default" for p u
    by (simp add: db_resolve_def db_from_env_def db_config_default_def)
  have connect: "database_connect (\<lambda>_. Inr ()) db_config_default = Inr ()"
    by (simp add: database_connect_def validate_ident_def db_config_default_def is_ascii_alphanumeric_def
        is_ascii_digit_def is_ascii_lowercase_def is_ascii_uppercase_def)
  show ?thesis
    by (simp add: bootstrap_checks_def config world path demo_load loaded schema endpoints handlers range chain
        net db connect) (simp add: demo_context_def)
qed

end
