(* ===== verification/Sq_Sourced.thy ===== *)
theory Sq_Sourced
  imports Sq_Ingest
begin

text \<open>
  Where the journal of a run comes from. Whatever sink the scheduler drives, a header that
  entered its journal was returned by the chain for its own height in a turn of the run, and the
  chain had called that height final in this or an earlier turn. The invariant is stated for
  arbitrary predicates on heights and headers, so that the turns keep their own answers.
\<close>

section \<open>What a turn vouches for\<close>

definition turn_serves :: "'b turn \<Rightarrow> header \<Rightarrow> bool" where
  "turn_serves t x = (\<exists>b. tn_fetch t (hd_height x) = Inr b \<and> gb_header b = x)"

definition turn_finalizes :: "'b turn \<Rightarrow> u64 \<Rightarrow> bool" where
  "turn_finalizes t h =
     (\<exists>latest finalized. tn_latest t = Inr latest \<and> tn_finalized t = Inr finalized \<and>
        h \<le> latest \<and> h \<le> finalized)"

lemma batch_below_head:
  assumes "next_batch p n head b e = Some r" "br_start r \<le> h" "h \<le> br_end r"
  shows "h \<le> head"
proof -
  have "h \<le> batch_ceiling head e" using next_batch_Some(3) [OF assms(1)] assms(3) by (rule order.trans [rotated])
  then show ?thesis by (simp add: batch_ceiling_def split: option.splits)
qed

lemma planned_finalized:
  assumes "next_heights (tn_latest t) (tn_finalized t) f q s = (r, s')"
    "\<not> index_unfinalized (fs_config s)"
  shows "fs_config s' = fs_config s"
    "h \<in> set (fs_pending s') \<Longrightarrow> h \<in> set (fs_pending s) \<or> turn_finalizes t h"
    "r = Inr hs \<Longrightarrow> set hs \<subseteq> set (fs_pending s')"
proof -
  have head: "scheduler_safe_head (tn_latest t) (tn_finalized t) s = Inr head \<Longrightarrow>
      x \<le> head \<Longrightarrow> turn_finalizes t x" for head x
    using assms(2) by (auto simp: scheduler_safe_head_def safe_head_def rbind_eq_Inr map_err_def
        turn_finalizes_def split: sum.splits)
  have batch: "scheduler_safe_head (tn_latest t) (tn_finalized t) s = Inr head \<Longrightarrow>
      next_batch (fs_plan s) n head b e = Some br \<Longrightarrow> br_start br \<le> x \<Longrightarrow> x \<le> br_end br \<Longrightarrow>
      turn_finalizes t x" for head n b e br x
    using batch_below_head head by blast
  have "fs_config s' = fs_config s \<and>
      (\<forall>h \<in> set (fs_pending s'). h \<in> set (fs_pending s) \<or> turn_finalizes t h) \<and>
      (\<forall>hs. r = Inr hs \<longrightarrow> set hs \<subseteq> set (fs_pending s'))"
    using assms(1) unfolding next_heights_def Let_def
    by (auto simp: set_heights_in dest: in_set_takeD batch
        split: if_splits sum.splits option.splits)
  then show "fs_config s' = fs_config s"
    "h \<in> set (fs_pending s') \<Longrightarrow> h \<in> set (fs_pending s) \<or> turn_finalizes t h"
    "r = Inr hs \<Longrightarrow> set hs \<subseteq> set (fs_pending s')" by auto
qed

lemma fetch_next_sourced:
  assumes "fetch_next t s = (r, s')" "\<not> index_unfinalized (fs_config s)"
  shows "fs_config s' = fs_config s"
    "h \<in> set (fs_pending s') \<Longrightarrow> h \<in> set (fs_pending s) \<or> turn_finalizes t h"
    "r = Inr blocks \<Longrightarrow> b \<in> set blocks \<Longrightarrow>
       turn_serves t (gb_header b) \<and> hd_height (gb_header b) \<in> set (fs_pending s')"
proof -
  obtain q s1 where n: "next_heights (tn_latest t) (tn_finalized t) 0 0 s = (q, s1)" by force
  have s1: "s1 = s'" using assms(1) n by (auto simp: fetch_next_def split: sum.splits if_splits)
  note p = planned_finalized [OF n [unfolded s1] assms(2)]
  show "fs_config s' = fs_config s"
    "h \<in> set (fs_pending s') \<Longrightarrow> h \<in> set (fs_pending s) \<or> turn_finalizes t h"
    using p(1,2) .
  assume r: "r = Inr blocks" and b: "b \<in> set blocks"
  obtain hs where hs: "q = Inr hs" "collect (fetch_checked (tn_fetch t)) hs = Inr blocks"
    using assms(1) r by (auto simp: fetch_next_def n split: sum.splits if_splits)
  note cf = collect_fetch_checked [OF hs(2)]
  obtain i where i: "i < length blocks" "b = blocks ! i" using b by (metis in_set_conv_nth)
  have h: "hd_height (gb_header b) = hs ! i" "i < length hs"
    using cf(1) i by (metis length_map nth_map)+
  have "tn_fetch t (hs ! i) = Inr b" using cf(2) i by (auto simp: list_all2_conv_all_nth)
  moreover have "hs ! i \<in> set (fs_pending s')" using p(3) [OF hs(1)] h(2) by (meson nth_mem subsetD)
  ultimately show "turn_serves t (gb_header b) \<and> hd_height (gb_header b) \<in> set (fs_pending s')"
    by (auto simp: turn_serves_def h(1))
qed

section \<open>The invariant of the loop\<close>

context block_sink
begin

lemma accept_sourced:
  assumes "sink_ok k" "accept b k = (a, k')" "\<forall>x \<in> set (journal k). P x" "P (gb_header b)"
  shows "sink_ok k'" "\<forall>x \<in> set (journal k'). P x"
proof -
  have "sink_ok k' \<and> (journal k' = journal k \<or> journal k' = journal k @ [gb_header b])"
    using accept_Inl [OF assms(1)] accept_Inr [OF assms(1)] assms(2) by (cases a) blast+
  with assms(3,4) show "sink_ok k'" "\<forall>x \<in> set (journal k'). P x" by auto
qed

lemma deliver_sourced:
  assumes "sink_ok k" "deliver accept c i blocks s k = (r, s', k')" "\<forall>x \<in> set (journal k). P x"
    "\<forall>b \<in> set blocks. P (gb_header b)"
  shows "sink_ok k' \<and> (\<forall>x \<in> set (journal k'). P x) \<and> fs_config s' = fs_config s \<and>
    set (fs_pending s') \<subseteq> set (fs_pending s)"
  using assms
proof (induction blocks arbitrary: i s k)
  case (Cons b blocks)
  obtain a k1 where a: "accept b k = (a, k1)" by force
  note k1 = accept_sourced [OF Cons.prems(1) a Cons.prems(3)]
  obtain q s1 where q: "acknowledge (hd_height (gb_header b)) s = (q, s1)" by force
  then have s1: "fs_config s1 = fs_config s" "set (fs_pending s1) \<subseteq> set (fs_pending s)"
    by (auto simp: acknowledge_def split: list.splits if_splits)
  show ?case
  proof (cases "c i \<or> (\<exists>e. a = Inl e) \<or> (\<exists>e. q = Inl e)")
    case True
    then show ?thesis
      using Cons.prems k1 a q s1 by (auto split: sum.splits if_splits)
  next
    case False
    then have "deliver accept c (Suc i) blocks s1 k1 = (r, s', k')"
      using Cons.prems(2) a q by (auto split: sum.splits)
    from Cons.IH [OF _ this] k1 Cons.prems(4) s1 show ?thesis by auto
  qed
qed auto

text \<open>\<open>F\<close> holds of every planned height, \<open>P\<close> of every header of the journal.\<close>

lemma run_loop_sourced:
  assumes "sink_ok k" "run_loop accept ts s k = (r, s', k')" "\<not> index_unfinalized (fs_config s)"
    "\<forall>h \<in> set (fs_pending s). F h" "\<forall>x \<in> set (journal k). P x"
    "\<And>t h. t \<in> set ts \<Longrightarrow> turn_finalizes t h \<Longrightarrow> F h"
    "\<And>t x. t \<in> set ts \<Longrightarrow> turn_serves t x \<Longrightarrow> F (hd_height x) \<Longrightarrow> P x"
  shows "\<forall>x \<in> set (journal k'). P x"
  using assms
proof (induction ts arbitrary: s k)
  case (Cons t ts)
  note ff = Cons.prems(6) and pp = Cons.prems(7)
  show ?case
  proof (cases "is_complete s \<or> tn_cancel_fetch t \<noteq> NotCancelled")
    case True
    then show ?thesis using Cons.prems(2,5) by (cases "tn_cancel_fetch t") (auto split: if_splits)
  next
    case False
    then have nc: "\<not> is_complete s" "tn_cancel_fetch t = NotCancelled" by simp_all
    obtain q s1 where q: "fetch_next t s = (q, s1)" by force
    note fs = fetch_next_sourced [OF q Cons.prems(3)]
    have F: "\<forall>h \<in> set (fs_pending s1). F h" using fs(2) Cons.prems(4) ff by force
    show ?thesis
    proof (cases q)
      case (Inl e)
      then show ?thesis using Cons.prems(2,5) nc q by simp
    next
      case (Inr blocks)
      obtain r2 s2 k2 where dv: "deliver accept (tn_cancel_block t) 0 blocks s1 k = (r2, s2, k2)"
        by (metis prod_cases3)
      have "\<forall>b \<in> set blocks. P (gb_header b)" using fs(3) [OF Inr] F pp [of t] by auto
      note d = deliver_sourced [OF Cons.prems(1) dv Cons.prems(5) this]
      have "k' = k2 \<or> run_loop accept ts s2 k2 = (r, s', k')"
        using Cons.prems(2) run_loop_unfold [OF nc q [unfolded Inr] dv, of ts]
        by (auto split: if_splits option.splits)
      then show ?thesis
      proof
        assume "run_loop accept ts s2 k2 = (r, s', k')"
        from Cons.IH [OF _ this] d F fs(1) Cons.prems(3) ff pp show ?thesis by force
      qed (use d in simp)
    qed
  qed
qed (auto split: if_splits)

end

section \<open>The journal of an ingestion run\<close>

lemma ingest_run_sourced:
  assumes "journal_ok (db_tables d)" "ingest_run canonical ts c p d = (r, d')"
    "x \<in> set (journal (db_tables d'))" "x \<notin> set (journal (db_tables d))"
  shows "\<exists>t \<in> set ts. turn_serves t x" "\<exists>t \<in> set ts. turn_finalizes t (hd_height x)"
proof -
  define F where "F h = (\<exists>t \<in> set ts. turn_finalizes t h)" for h
  define P where "P y = (y \<in> set (journal (db_tables d)) \<or> (\<exists>t \<in> set ts. turn_serves t y) \<and> F (hd_height y))" for y
  have "P x"
  proof (cases rule: ingest_run_cases [OF assms(1,2)])
    case 1
    then show ?thesis using assms(3,4) by simp
  next
    case (2 d1 s r1 s')
    have s: "s = ingest_scheduler c p \<or> (\<exists>h. s = resume_from h (ingest_scheduler c p))"
      using 2(3) by (auto simp: ingest_position_def rbind_eq_Inr split: if_splits option.splits)
    then have pend: "fs_pending s = []" "\<not> index_unfinalized (fs_config s)"
      by (auto simp: ingest_scheduler_def scheduler_new_def resume_from_def)
    have old: "\<forall>y \<in> set (db_journal d1). P y" using 2(1) by (simp add: P_def db_journal_def)
    show ?thesis
    proof (cases "batch_size (fs_config s) = 0")
      case True
      then show ?thesis using 2(1,4) assms(3,4) by (simp add: run_def)
    next
      case False
      then have loop: "run_loop ingest_accept ts s d1 = (r1, s', d')" using 2(4) by (simp add: run_def)
      have "db_journal_ok d1" using 2(2) by (simp add: db_journal_ok_def)
      from ingest.run_loop_sourced [OF this loop pend(2) _ old, of F] pend(1) assms(3)
      show ?thesis by (auto simp: F_def P_def db_journal_def)
    qed
  qed
  with assms(4) show "\<exists>t \<in> set ts. turn_serves t x" "\<exists>t \<in> set ts. turn_finalizes t (hd_height x)"
    by (auto simp: P_def F_def)
qed

end
