(* ===== verification/Sq_Node.thy ===== *)
theory Sq_Node
  imports Sq_Startup Sq_Sourced
begin

text \<open>
  The run of the node, \<open>main.rs\<close>: the configuration is validated, the node is started, and the
  scheduler of \<open>ingest.rs\<close> is driven by the EVM adapter that startup built. Every request of a
  run has an answer of its own in the schedule, so that endpoints may change their mind from one
  request to the next. Shown: what a whole run may do to the journal, and where each header it
  added comes from.
\<close>

section \<open>The schedule\<close>

text \<open>
  One turn of the fetch loop: the network as it is asked for the head, for the finalized height
  and for the block at each height, and the points at which the shutdown token fires.
\<close>

type_synonym requests = "string \<Rightarrow> json \<Rightarrow> network"

record evm_step =
  es_head :: requests
  es_final :: requests
  es_block :: "u64 \<Rightarrow> requests"
  es_cancel_fetch :: fetch_cancel
  es_cancel_block :: "nat \<Rightarrow> bool"
  es_cancel_sleep :: bool

text \<open>\<open>rs_canonical\<close> is \<open>None\<close> when the shutdown signal comes before the canonical check of the
  last ingested block is answered.\<close>

record run_schedule =
  rs_shut_start :: bool
  rs_canonical :: "requests option"
  rs_steps :: "evm_step list"

definition asking :: "evm_world \<Rightarrow> requests \<Rightarrow> evm_world" where
  "asking w net = w\<lparr>ew_network := net\<rparr>"

definition evm_turn :: "evm_world \<Rightarrow> evm_adapter \<Rightarrow> evm_step \<Rightarrow> evm_block turn" where
  "evm_turn w a st =
     \<lparr>tn_latest = evm_latest_height (asking w (es_head st)) a,
      tn_finalized = evm_finalized_height (asking w (es_final st)) a,
      tn_fetch = (\<lambda>h. evm_fetch_block (asking w (es_block st h)) a h),
      tn_cancel_fetch = es_cancel_fetch st, tn_cancel_block = es_cancel_block st,
      tn_cancel_sleep = es_cancel_sleep st\<rparr>"

section \<open>The run\<close>

text \<open>What the context says about the project's identity in the database.\<close>

definition context_identity :: "node_context \<Rightarrow> project_identity" where
  "context_identity x =
     (let m = lp_manifest (cx_project x)
      in \<lparr>pi_schema = db_schema (cx_db_config x), pi_name = pm_name m, pi_chain_id = nw_chain_id (pm_network m),
         pi_fingerprint = lp_fingerprint (cx_project x), pi_min_start = min_start_block m\<rparr>)"

datatype run_error =
    InvalidConfig string
  | NotIngestOnly
  | RunStart startup_error
  | RunIngest ingest_error

definition canonical_header :: "evm_world \<Rightarrow> requests option \<Rightarrow> evm_adapter \<Rightarrow> u64 \<Rightarrow> (chain_error + header) option" where
  "canonical_header w answers a height = map_option (\<lambda>net. evm_header_at (asking w net) a height) answers"

text \<open>\<open>None\<close> is a run that is still going when the schedule ends.\<close>

definition node_run ::
  "startup_world \<Rightarrow> run_schedule \<Rightarrow> node_config \<Rightarrow> db \<Rightarrow> (run_error + unit) option \<times> db" where
  "node_run w sch c d =
     (if \<not> nc_ingest_only c then (Some (Inl NotIngestOnly), d)
      else if rs_shut_start sch then (Some (Inr ()), d)
      else case bootstrap w c d of
             (Inl e, d1) \<Rightarrow> (Some (Inl (RunStart e)), d1)
           | (Inr x, d1) \<Rightarrow>
               (case ingest_run (canonical_header (su_chain w) (rs_canonical sch) (cx_adapter x))
                       (map (evm_turn (su_chain w) (cx_adapter x)) (rs_steps sch)) c (context_identity x) d1 of
                  (r, d2) \<Rightarrow> (map_option (map_err RunIngest) r, d2)))"

text \<open>\<open>parallelism\<close> is what the operating system says of the processors, for the worker count.\<close>

definition node_main ::
  "usize option \<Rightarrow> startup_world \<Rightarrow> run_schedule \<Rightarrow> node_config \<Rightarrow> db \<Rightarrow> (run_error + unit) option \<times> db" where
  "node_main parallelism w sch c d =
     (case node_config_validate parallelism c of
        Inl e \<Rightarrow> (Some (Inl (InvalidConfig e)), d)
      | Inr _ \<Rightarrow> node_run w sch c d)"

section \<open>The ways a run can go\<close>

lemma node_main_cases:
  assumes "node_main parallelism w sch c d = (r, d')"
  obtains (idle) "db_tables d' = db_tables d" "r = Some (Inr ()) \<Longrightarrow> rs_shut_start sch"
    | (ran) x d1 q where "node_config_validate parallelism c = Inr ()" "nc_ingest_only c"
      "bootstrap_checks w c = Inr x" "startup_ok w c x" "db_tables d1 = db_tables d"
      "ingest_run (canonical_header (su_chain w) (rs_canonical sch) (cx_adapter x))
         (map (evm_turn (su_chain w) (cx_adapter x)) (rs_steps sch)) c (context_identity x) d1 = (q, d')"
      "r = map_option (map_err RunIngest) q"
proof (cases "node_config_validate parallelism c")
  case valid: (Inr u)
  show thesis
  proof (cases "nc_ingest_only c \<and> \<not> rs_shut_start sch")
    case True
    obtain r1 d1 where boot: "bootstrap w c d = (r1, d1)" by force
    have tables: "db_tables d1 = db_tables d"
      using boot by (auto simp: bootstrap_def split: sum.splits prod.splits dest: db_ping_tables)
    show thesis
    proof (cases r1)
      case (Inl e)
      then show thesis using idle assms valid True boot tables by (auto simp: node_main_def node_run_def)
    next
      case (Inr x)
      then have x: "bootstrap_checks w c = Inr x"
        using boot by (auto simp: bootstrap_def split: sum.splits prod.splits)
      show thesis
        using ran [OF _ _ x bootstrap_checks_ok [OF x] tables] assms valid True boot Inr
        by (auto simp: node_main_def node_run_def split: prod.splits)
    qed
  qed (use idle assms valid in \<open>auto simp: node_main_def node_run_def split: if_splits\<close>)
qed (use idle assms in \<open>auto simp: node_main_def\<close>)

lemma context_start:
  "ingest_start c (context_identity x) = effective_start c (lp_manifest (cx_project x))"
  by (simp add: ingest_start_def effective_start_def context_identity_def Let_def split: option.split)

section \<open>Properties\<close>

text \<open>C1: What a whole run of the node may do. Whatever the chain answers, the database fails to do
  and the operator interrupts, the journal stays linked and gapless and only grows at its end. It
  grows only with a valid configuration, in ingest-only mode and after every startup check has
  passed, and then only by headers of heights between the effective start and the end height of
  the configuration; a journal that was empty then begins at that start.\<close>

theorem node_run_safe:
  assumes "journal_ok (db_tables d)"
  shows "case node_main parallelism w sch c d of
    (r, d') \<Rightarrow> journal_ok (db_tables d') \<and>
      (\<exists>new. journal (db_tables d') = journal (db_tables d) @ new \<and>
        (new = [] \<or> node_config_validate parallelism c = Inr () \<and> nc_ingest_only c \<and>
          (\<exists>x. bootstrap_checks w c = Inr x \<and> startup_ok w c x \<and>
             hd_height ` set new \<subseteq> {effective_start c (lp_manifest (cx_project x)) ..
               (case nc_end_height c of Some e \<Rightarrow> e | None \<Rightarrow> u64_max)} \<and>
             (journal (db_tables d) \<noteq> [] \<or> hd_height (hd new) = effective_start c (lp_manifest (cx_project x))))))"
proof -
  obtain r d' where run: "node_main parallelism w sch c d = (r, d')" by force
  show ?thesis
  proof (cases rule: node_main_cases [OF run])
    case 1
    with run assms show ?thesis by (simp add: journal_ok_def journal_def)
  next
    case (2 x d1 q)
    then have "journal_ok (db_tables d1)" using assms by simp
    from ingest_run_extends_ok [OF this, where c = c and p = "context_identity x"
        and canonical = "canonical_header (su_chain w) (rs_canonical sch) (cx_adapter x)"
        and ts = "map (evm_turn (su_chain w) (cx_adapter x)) (rs_steps sch)"] 2(6) run
    have "journal_ok (db_tables d') \<and> (\<exists>new. journal (db_tables d') = journal (db_tables d1) @ new \<and>
      hd_height ` set new \<subseteq> {effective_start c (lp_manifest (cx_project x)) ..
        (case nc_end_height c of Some e \<Rightarrow> e | None \<Rightarrow> u64_max)} \<and>
      (journal (db_tables d1) = [] \<longrightarrow> new = [] \<or> hd_height (hd new) = effective_start c (lp_manifest (cx_project x))))"
      by (simp add: context_start)
    with 2 run show ?thesis by auto
  qed
qed

text \<open>A value that one of the configured endpoints sent in time, after it had named the
  configured chain.\<close>

definition sent :: "evm_adapter_config \<Rightarrow> requests \<Rightarrow> string \<Rightarrow> json \<Rightarrow> json \<Rightarrow> bool" where
  "sent config net meth params v =
     (\<exists>k named env. answered_by config (net meth params) k named env \<and> ae_reply env = ReplyValue v)"

lemma request_sent:
  "evm_request (asking w net) a meth params = Inr v \<Longrightarrow> meth \<noteq> ''eth_chainId'' \<Longrightarrow>
     sent (ea_config a) net meth params v"
  by (erule evm_request_answered) (auto simp: sent_def asking_def)

lemma served_header:
  assumes "turn_serves (evm_turn w a st) h"
  obtains v logs body where
    "sent (ea_config a) (es_block st (hd_height h)) ''eth_getBlockByNumber'' (JArray [height_param (hd_height h), JBool True]) v"
    "sent (ea_config a) (es_block st (hd_height h)) ''eth_getLogs'' (JArray [JObject [(''blockHash'', JString (hd_hash h))]]) logs"
    "decode_block (ew_codec w) v logs (hd_height h) = Inr body" "block_well_formed body"
    "eb_number body = hd_height h" "evm_block_header (ew_codec w) body = h"
proof -
  let ?w = "asking w (es_block st (hd_height h))"
  obtain b where b: "evm_fetch_block ?w a (hd_height h) = Inr b" "gb_header b = h"
    using assms by (auto simp: turn_serves_def evm_turn_def)
  obtain v logs where r: "evm_request ?w a ''eth_getBlockByNumber'' (JArray [height_param (hd_height h), JBool True]) = Inr v"
    "evm_request ?w a ''eth_getLogs'' (JArray [JObject [(''blockHash'', JString (hd_hash h))]]) = Inr logs"
    "decode_block (ew_codec ?w) v logs (hd_height h) = Inr (gb_inner b)"
    using b by (auto simp: evm_fetch_block_def rbind_eq_Inr generic_block_new_def)
  have codec: "ew_codec ?w = ew_codec w" by (simp add: asking_def)
  have ok: "eb_number (gb_inner b) = hd_height h" "block_well_formed (gb_inner b)"
    "evm_block_header (ew_codec w) (gb_inner b) = h"
    using evm_fetch_block_ok [OF b(1)] by (simp_all add: codec b(2))
  show thesis
    by (rule that [OF request_sent [OF r(1)] request_sent [OF r(2)] r(3) [unfolded codec] ok(2,1,3)]) simp_all
qed

text \<open>C2: Where a header of the journal comes from. A header that a run added was decoded from a
  block, and its body from logs, that an endpoint sent during the run in answer to a request for
  that very height, after that endpoint had named the chain of the project; the block is well
  formed; and in the same or another turn of the run the height was at most the one the chain
  called final. Nothing else the network says reaches the journal.\<close>

theorem node_run_provenance:
  assumes "journal_ok (db_tables d)" "node_main parallelism w sch c d = (r, d')"
    "h \<in> set (journal (db_tables d'))" "h \<notin> set (journal (db_tables d))"
  shows "\<exists>x st final v logs body.
    bootstrap_checks w c = Inr x \<and> st \<in> set (rs_steps sch) \<and> final \<in> set (rs_steps sch) \<and>
    ec_chain_id (ea_config (cx_adapter x)) = nw_chain_id (pm_network (lp_manifest (cx_project x))) \<and>
    sent (ea_config (cx_adapter x)) (es_block st (hd_height h)) ''eth_getBlockByNumber''
      (JArray [height_param (hd_height h), JBool True]) v \<and>
    sent (ea_config (cx_adapter x)) (es_block st (hd_height h)) ''eth_getLogs''
      (JArray [JObject [(''blockHash'', JString (hd_hash h))]]) logs \<and>
    decode_block (ew_codec (su_chain w)) v logs (hd_height h) = Inr body \<and>
    block_well_formed body \<and> eb_number body = hd_height h \<and>
    evm_block_header (ew_codec (su_chain w)) body = h \<and>
    (\<exists>f. evm_finalized_height (asking (su_chain w) (es_final final)) (cx_adapter x) = Inr f \<and> hd_height h \<le> f)"
proof (cases rule: node_main_cases [OF assms(2)])
  case 1
  then show ?thesis using assms(3,4) by (simp add: journal_def)
next
  case (2 x d1 q)
  let ?turn = "evm_turn (su_chain w) (cx_adapter x)"
  have "journal_ok (db_tables d1)" "h \<notin> set (journal (db_tables d1))" using 2(5) assms(1,4) by simp_all
  from ingest_run_sourced [OF this(1) 2(6) assms(3) this(2)] obtain st final where
    st: "st \<in> set (rs_steps sch)" "turn_serves (?turn st) h"
    and final: "final \<in> set (rs_steps sch)" "turn_finalizes (?turn final) (hd_height h)"
    by auto
  have "ec_chain_id (ea_config (cx_adapter x)) = nw_chain_id (pm_network (lp_manifest (cx_project x)))"
    using 2(4) by (simp add: startup_ok_def Let_def evm_adapter_new_def adapter_config_def)
  moreover have "\<exists>f. evm_finalized_height (asking (su_chain w) (es_final final)) (cx_adapter x) = Inr f \<and> hd_height h \<le> f"
    using final(2) by (auto simp: turn_finalizes_def evm_turn_def)
  ultimately show ?thesis
    using st(1) final(1) 2(3) by (rule_tac served_header [OF st(2)]) blast
qed

section \<open>A run that ingests a block\<close>

text \<open>The demonstration project on a fresh database, one turn: the head is at 0x1234, block 2 is final.\<close>

definition demo_step :: evm_step where
  "demo_step =
     \<lparr>es_head = (\<lambda>_ _ _ _. \<lparr>ae_chain_id = ReplyValue (JString ''0x1''),
        ae_reply = ReplyValue (JString ''0x1234''), ae_timed_out = False\<rparr>),
      es_final = demo_evm_network, es_block = (\<lambda>_. demo_evm_network),
      es_cancel_fetch = NotCancelled, es_cancel_block = (\<lambda>_. False), es_cancel_sleep = False\<rparr>"

definition demo_schedule :: run_schedule where
  "demo_schedule = \<lparr>rs_shut_start = False, rs_canonical = None, rs_steps = [demo_step]\<rparr>"

definition demo_fresh :: db where
  "demo_fresh = \<lparr>db_tables = empty_tables, db_faults = []\<rparr>"

lemma demo_node_config:
  "nc_project demo_start_config = ''demo''" "nc_rpc_urls demo_start_config = [''node'']"
  "nc_end_height demo_start_config = Some 2" "nc_start_height demo_start_config = Some 2"
  "nc_rpc_max_retries demo_start_config = 5" "nc_rpc_timeout_secs demo_start_config = 30"
  "nc_ingest_only demo_start_config" "\<not> nc_unfinalized_blocks demo_start_config"
  by (simp_all add: demo_start_config_def node_config_with_defaults_def)

lemma demo_valid: "node_config_validate (Some 4) demo_start_config = Inr ()"
  by (simp add: node_config_validate_Inr positive_settings_def demo_start_config_def
      node_config_with_defaults_def resolved_workers_def i64_max_def)

lemma demo_node_requests:
  "evm_request (asking (su_chain demo_startup) demo_evm_network) (cx_adapter demo_context) ''eth_getLogs'' params =
     Inr (JArray [demo_raw_log ''0x1'', demo_raw_log ''0x0''])"
  "evm_request (asking (su_chain demo_startup) demo_evm_network) (cx_adapter demo_context) ''eth_getBlockByNumber'' params =
     Inr demo_raw_block"
  "evm_request (asking (su_chain demo_startup) (es_head demo_step)) (cx_adapter demo_context) ''eth_blockNumber'' params =
     Inr (JString ''0x1234'')"
  by (simp_all add: evm_request_def asking_def demo_startup_def demo_context_def evm_adapter_new_def adapter_config_def
      rpc_client_new_def demo_node_config demo_erc20_def demo_parse_one validate_endpoint_def demo_url_def
      rpc_request_def upt_rec rpc_attempt_def demo_evm_network_def rpc_call_def demo_quantities demo_step_def)

lemma demo_answers:
  "evm_latest_height (asking (su_chain demo_startup) (es_head demo_step)) (cx_adapter demo_context) = Inr 4660"
  "evm_finalized_height (asking (su_chain demo_startup) demo_evm_network) (cx_adapter demo_context) = Inr 2"
  "evm_fetch_block (asking (su_chain demo_startup) demo_evm_network) (cx_adapter demo_context) 2 =
     Inr demo_generic_block"
proof -
  have "ew_codec (asking (su_chain demo_startup) net) = demo_codec" for net
    by (simp add: asking_def demo_startup_def)
  then show "evm_fetch_block (asking (su_chain demo_startup) demo_evm_network) (cx_adapter demo_context) 2 =
      Inr demo_generic_block"
    by (simp add: evm_fetch_block_def demo_node_requests decode_block_header [OF demo_decode_block]
        demo_decode_block demo_generic_block_def)
  have "json_index demo_raw_block ''number'' = JString ''0x2''" "demo_raw_block \<noteq> JNull"
    by (simp_all add: demo_raw_block_def json_defs)
  then show "evm_finalized_height (asking (su_chain demo_startup) demo_evm_network) (cx_adapter demo_context) = Inr 2"
    by (simp add: evm_finalized_height_def demo_node_requests demo_quantities)
  show "evm_latest_height (asking (su_chain demo_startup) (es_head demo_step)) (cx_adapter demo_context) = Inr 4660"
    by (simp add: evm_latest_height_def demo_node_requests demo_quantities)
qed

definition demo_turn_of_step :: "evm_block turn" where
  "demo_turn_of_step = evm_turn (su_chain demo_startup) (cx_adapter demo_context) demo_step"

definition demo_identity :: "string \<Rightarrow> project_identity" where
  "demo_identity f = \<lparr>pi_schema = ''public'', pi_name = ''demo'', pi_chain_id = ''1'',
     pi_fingerprint = f, pi_min_start = 0\<rparr>"

lemma demo_context_identity: "context_identity demo_context = demo_identity (lp_fingerprint demo_loaded)"
proof -
  have "min_start_block demo_erc20 = 0" by code_simp
  then show ?thesis
    by (simp add: demo_identity_def context_identity_def demo_context_def demo_loaded_def db_config_default_def)
      (simp add: demo_erc20_def)
qed

lemma demo_fresh_prepared: "fst (ingest_prepare (demo_identity f) demo_fresh) = Inr None"
  by code_simp

lemma demo_commit:
  "fst (ingest_accept demo_generic_block (snd (ingest_prepare (demo_identity f) demo_fresh))) = Inr ()"
  "journal (db_tables (snd (ingest_accept demo_generic_block (snd (ingest_prepare (demo_identity f) demo_fresh))))) =
     [gb_header demo_generic_block]"
  by code_simp+

lemma demo_planned:
  "next_heights (Inr 4660) (Inr 2) 0 0 (ingest_scheduler demo_start_config (demo_identity f)) =
     (Inr [2], ingest_scheduler demo_start_config (demo_identity f)\<lparr>fs_pending := [2]\<rparr>)"
  by code_simp

definition demo_ingested :: db where
  "demo_ingested = snd (ingest_accept demo_generic_block
     (snd (ingest_prepare (demo_identity (lp_fingerprint demo_loaded)) demo_fresh)))"

lemma demo_ingest:
  "ingest_run canonical [demo_turn_of_step] demo_start_config (context_identity demo_context) demo_fresh =
     (Some (Inr ()), demo_ingested)"
proof -
  let ?p = "demo_identity (lp_fingerprint demo_loaded)" and ?t = demo_turn_of_step
  let ?s = "ingest_scheduler demo_start_config ?p"
  obtain d1 where prepare: "ingest_prepare ?p demo_fresh = (Inr None, d1)"
    using demo_fresh_prepared by (metis prod.collapse)
  let ?s1 = "?s\<lparr>fs_pending := [2]\<rparr>"
  have turn: "tn_latest ?t = Inr 4660" "tn_finalized ?t = Inr 2" "tn_fetch ?t 2 = Inr demo_generic_block"
    "tn_cancel_fetch ?t = NotCancelled" "tn_cancel_block ?t = (\<lambda>_. False)" "\<not> tn_cancel_sleep ?t"
    by (simp_all add: demo_turn_of_step_def evm_turn_def demo_answers)
      (simp_all add: demo_step_def demo_answers)
  have height: "hd_height (gb_header demo_generic_block) = 2" by code_simp
  have "fetch_checked (tn_fetch ?t) 2 = Inr demo_generic_block"
    using turn(3) height by (simp add: fetch_checked_height)
  then have fetch: "fetch_next ?t ?s = (Inr [demo_generic_block], ?s1)"
    by (simp add: fetch_next_def turn demo_planned windows_linked_def)
  have flags: "\<not> is_complete (ingest_scheduler demo_start_config (demo_identity f))"
    "fst (acknowledge 2 (ingest_scheduler demo_start_config (demo_identity f)\<lparr>fs_pending := [2]\<rparr>)) = Inr ()"
    "is_complete (snd (acknowledge 2 (ingest_scheduler demo_start_config (demo_identity f)\<lparr>fs_pending := [2]\<rparr>)))"
    "batch_size (fs_config (ingest_scheduler demo_start_config (demo_identity f))) = 100" for f
    by code_simp+
  have accept: "ingest_accept demo_generic_block d1 = (Inr (), demo_ingested)"
    using demo_commit(1) [of "lp_fingerprint demo_loaded"] by (simp add: prod_eq_iff demo_ingested_def prepare)
  obtain s2 where ack: "acknowledge 2 ?s1 = (Inr (), s2)" "is_complete s2"
    using flags(2,3) by (metis prod.collapse)
  have "run_loop ingest_accept [?t] ?s d1 = (Some (Inr ()), s2, demo_ingested)"
    by (simp add: flags(1) turn(4-6) fetch accept height ack)
  then show ?thesis
    unfolding demo_context_identity ingest_run_def prepare
    by (simp add: ingest_position_def run_def flags(4))
qed

lemma demo_node_main:
  "node_main (Some 4) demo_startup demo_schedule demo_start_config demo_fresh = (Some (Inr ()), demo_ingested)"
proof -
  have "bootstrap demo_startup demo_start_config demo_fresh = (Inr demo_context, demo_fresh)"
    by (simp add: bootstrap_def demo_bootstrap db_ping_def demo_fresh_def)
  then show ?thesis
    by (simp add: node_main_def node_run_def demo_valid demo_node_config demo_schedule_def
        demo_ingest [unfolded demo_turn_of_step_def])
qed

lemma node_run_safe_witness:
  "\<exists>new. journal (db_tables demo_ingested) = journal (db_tables demo_fresh) @ new \<and>
     (new = [] \<or> hd_height ` set new \<subseteq> {2..2})"
proof -
  have "journal_ok (db_tables demo_fresh)" by (simp add: demo_fresh_def)
  from node_run_safe [OF this, where parallelism = "Some 4" and w = demo_startup and sch = demo_schedule
      and c = demo_start_config] obtain new where
    "journal (db_tables demo_ingested) = journal (db_tables demo_fresh) @ new"
    "new = [] \<or> hd_height ` set new \<subseteq> {effective_start demo_start_config (lp_manifest (cx_project demo_context)) ..2}"
    by (auto simp: demo_node_main demo_bootstrap demo_node_config)
  then show ?thesis by (auto simp: effective_start_def demo_node_config)
qed

lemma node_run_provenance_witness:
  "\<exists>v logs body. sent (ea_config (cx_adapter demo_context)) demo_evm_network ''eth_getBlockByNumber''
      (JArray [height_param 2, JBool True]) v \<and>
    decode_block demo_codec v logs 2 = Inr body \<and> evm_block_header demo_codec body = gb_header demo_generic_block"
proof -
  let ?h = "gb_header demo_generic_block"
  have ok: "journal_ok (db_tables demo_fresh)" by (simp add: demo_fresh_def)
  have new: "?h \<notin> set (journal (db_tables demo_fresh))" by (simp add: demo_fresh_def journal_def empty_tables_def)
  have "?h \<in> set (journal (db_tables demo_ingested))" by (simp add: demo_ingested_def demo_commit(2))
  from node_run_provenance [OF ok demo_node_main this new] obtain x st v logs body where b:
    "bootstrap_checks demo_startup demo_start_config = Inr x" "st \<in> set (rs_steps demo_schedule)"
    "sent (ea_config (cx_adapter x)) (es_block st (hd_height ?h)) ''eth_getBlockByNumber''
      (JArray [height_param (hd_height ?h), JBool True]) v"
    "decode_block (ew_codec (su_chain demo_startup)) v logs (hd_height ?h) = Inr body"
    "evm_block_header (ew_codec (su_chain demo_startup)) body = ?h"
    by (elim exE conjE) (rule that)
  have "x = demo_context" "st = demo_step" using b(1,2) by (simp_all add: demo_bootstrap demo_schedule_def)
  moreover have "hd_height ?h = 2" by code_simp
  moreover have "ew_codec (su_chain demo_startup) = demo_codec" "es_block demo_step h = demo_evm_network" for h
    by (simp_all add: demo_startup_def demo_step_def)
  ultimately show ?thesis using b(3-5) by auto
qed

end
