(* ===== verification/Sq_Healthy.thy ===== *)
theory Sq_Healthy
  imports Sq_Node
begin

text \<open>
  What a run achieves. Against a chain that serves its blocks, with its end height final, and a
  database without faults, a run of the node ends with \<open>Ok\<close> and the journal holds the headers
  of the chain from the start to the end height; and so does a run that starts on what an
  earlier one has left, whatever stopped that one.
\<close>

section \<open>A commit that succeeds\<close>

lemma ingestion_tx_total:
  assumes "db_faults d = []" "journal_ok (db_tables d)" "hd_hash h \<noteq> []" "unat (hd_height h) < 2 ^ 63"
    "journal (db_tables d) = [] \<or> is_child_of h (last (journal (db_tables d)))"
  obtains d' where "ingestion_tx h (uint (hd_height h)) d = (Inr (), d')" "db_faults d' = []"
proof -
  have "\<not> is_child_of h h" using less_add_one [of "hd_height h"] by (auto simp: is_child_of_iff)
  moreover have "bt_get (tb_journal (db_tables d)) (uint (hd_height h)) = None"
    by (rule insert_extends(2) [OF assms(2,5,3,4)])
  then have "\<exists>d'. insert_journal h (uint (hd_height h)) d = (Inr (), d') \<and> db_faults d' = []"
    by (simp add: insert_journal_def dbind_def assms(1))
  ultimately have "\<exists>d'. ingestion_tx h (uint (hd_height h)) d = (Inr (), d') \<and> db_faults d' = []"
    using assms(5)
    by (auto simp: ingestion_tx_def dbind_def dlift_def assms(1) decode_latest_ok [OF assms(2)])
  with that show thesis by blast
qed

lemma ingestion_commit_total:
  assumes "db_faults d = []" "journal_ok (db_tables d)" "hd_hash h \<noteq> []" "unat (hd_height h) < 2 ^ 63"
    "journal (db_tables d) = [] \<or> is_child_of h (last (journal (db_tables d)))"
  obtains d' where "ingestion_commit h d = (Inr (), d')" "db_faults d' = []" "journal_ok (db_tables d')"
    "journal (db_tables d') = journal (db_tables d) @ [h]"
proof -
  obtain d1 where tx: "ingestion_tx h (uint (hd_height h)) d = (Inr (), d1)" "db_faults d1 = []"
    by (rule ingestion_tx_total [OF assms])
  have "sql_height (hd_height h) = Inr (uint (hd_height h))" using assms(4) by (simp add: sql_height_Inr)
  then have commit: "ingestion_commit h d = (Inr (), d1)"
    using assms(1,3) tx by (simp add: ingestion_commit_def in_tx_def dbind_def dlift_def next_fault_def)
  have "\<not> is_child_of h h" using less_add_one [of "hd_height h"] by (auto simp: is_child_of_iff)
  with ingestion_commit_tables [OF assms(2) commit] assms(5)
  have "extends h (db_tables d) (db_tables d1)" by (auto simp: committed_def)
  then show thesis using that commit tx(2) by (simp add: extends_def)
qed

section \<open>A journal that takes the blocks that are owed\<close>

text \<open>\<open>goal\<close> is the journal with the headers that are still to come.\<close>

definition ready :: "(u64 \<Rightarrow> 'b generic_block) \<Rightarrow> header list \<Rightarrow> u64 list \<Rightarrow> db \<Rightarrow> bool" where
  "ready f goal hs k =
     (db_faults k = [] \<and> journal_ok (db_tables k) \<and>
      goal = journal (db_tables k) @ map (gb_header \<circ> f) hs \<and> linked goal \<and>
      list_all (\<lambda>h. hd_hash (gb_header (f h)) \<noteq> [] \<and> unat (hd_height (gb_header (f h))) < 2 ^ 63) hs)"

lemma ready_takes: "takes ingest_accept f (ready f goal)"
  unfolding takes_def
proof (intro allI impI)
  fix h hs k
  assume r: "ready f goal (h # hs) k"
  let ?x = "gb_header (f h)"
  have child: "journal (db_tables k) = [] \<or> is_child_of ?x (last (journal (db_tables k)))"
    using r by (cases "journal (db_tables k) = []") (auto simp: ready_def linked_append)
  obtain k' where "ingestion_commit ?x k = (Inr (), k')" "db_faults k' = []" "journal_ok (db_tables k')"
    "journal (db_tables k') = journal (db_tables k) @ [?x]"
    using r by (auto simp: ready_def intro: ingestion_commit_total [OF _ _ _ _ child])
  with r show "\<exists>k'. ingest_accept (f h) k = (Inr (), k') \<and> ready f goal hs k'"
    by (auto simp: ingest_accept_def ready_def)
qed

section \<open>Preparing without faults\<close>

lemma quiet_check_facts: "quiet.keeps (check_facts schema checks)"
  by (induction schema checks rule: check_facts.induct)
    (auto intro!: quiet_intros split: option.split)

lemma quiet_set_facts: "quiet.keeps (set_facts facts)"
  by (induction facts rule: set_facts.induct)
    (auto simp: metadata_set_tx_def intro!: quiet_intros)

lemma quiet_setup: "quiet.keeps (ingest_setup p)"
  unfolding ingest_setup_def resume_position_def ensure_schema_def checkpoint_ensure_tables_def
    metadata_ensure_table_def checkpoint_load_def ingestion_ensure_table_def verify_project_def
    verify_facts_def verify_body_def
  by (auto intro!: quiet_intros quiet_check_facts quiet_set_facts)

lemma prepare_total:
  assumes "db_faults d = []" "journal_ok (db_tables d)" "fst (ingest_setup p d) = Inr ()"
  obtains d1 where "ingest_prepare p d = (Inr (if journal (db_tables d) = [] then None
      else Some (last (journal (db_tables d)))), d1)" "db_faults d1 = []"
    "journal (db_tables d1) = journal (db_tables d)" "journal_ok (db_tables d1)"
proof -
  obtain d1 where d1: "ingest_setup p d = (Inr (), d1)" using assms(3) by (metis prod.collapse)
  note k = keeps_journal_ok [OF keeps_setup d1]
  have q: "db_faults d1 = []" using quiet.keepsD [OF quiet_setup d1] assms(1) by simp
  then have "ingestion_load d1 = (Inr (if journal (db_tables d1) = [] then None
      else Some (last (journal (db_tables d1)))), d1)"
    using decode_latest_ok assms(2) k by (simp add: ingestion_load_def dbind_def dlift_def dreturn_def)
  with d1 q k assms(2) that show thesis by (simp add: ingest_prepare_def dbind_def)
qed

section \<open>What is owed after a restart\<close>

lemma open_between_plan_new: "open_between plan_new a b = heights_between a b"
  by (simp add: open_between_def is_bypassed_def plan_new_def)

lemma heights_between_rest:
  assumes "n < length (heights_between a e)" "x = heights_between a e ! n"
  shows "x \<noteq> u64_max \<Longrightarrow> heights_between (x + 1) e = drop (Suc n) (heights_between a e)"
    "x = u64_max \<Longrightarrow> drop (Suc n) (heights_between a e) = []"
proof -
  have x: "unat x = unat a + n" using unat_heights_between_nth assms by simp
  show "heights_between (x + 1) e = drop (Suc n) (heights_between a e)" if "x \<noteq> u64_max"
    using unat_Suc_u64 [OF that] x by (simp add: heights_between_def drop_map drop_upt del: upt_Suc)
  show "drop (Suc n) (heights_between a e) = []" if "x = u64_max"
    using x that unat_u64_bound [of e] by (simp add: unat_u64_max)
qed

lemma position_restart:
  assumes "hash_chain a e f" "a = ingest_start c p" "nc_end_height c = Some e"
    "hs = map (gb_header \<circ> f) (take n (heights_between a e))" "n \<le> length (heights_between a e)"
    "hs \<noteq> [] \<Longrightarrow> canonical (hd_height (last hs)) = Some (Inr (last hs))"
  obtains s where "ingest_position canonical c p (if hs = [] then None else Some (last hs)) = Inr (Some s)"
    "owed s = drop n (heights_between a e)" "fs_pending s = []"
proof (cases "hs = []")
  case True
  then have "drop n (heights_between a e) = heights_between a e" using assms(4,5) by auto
  with True assms(2,3) that [of "ingest_scheduler c p"] show thesis
    by (simp add: ingest_position_def owed_ingest open_between_plan_new) (simp add: ingest_scheduler_def scheduler_new_def)
next
  case False
  then obtain m where n: "n = Suc m" "m < length (heights_between a e)" using assms(4,5) by (cases n) auto
  define x where "x = heights_between a e ! m"
  have x: "x \<in> {a..e}" using n(2) nth_mem [of m "heights_between a e"] by (simp add: x_def)
  have l: "last hs = gb_header (f x)" using n by (simp add: assms(4) x_def take_Suc_conv_app_nth)
  then have h: "hd_height (last hs) = x" using x assms(1) by (simp add: hash_chain_def)
  have start: "ingest_start c p \<le> saturating_add x 1"
    using x assms(2) less_add_one [of x] by (cases "x = u64_max") (auto simp: saturating_add_one)
  let ?s = "resume_from x (ingest_scheduler c p)"
  have "ingest_position canonical c p (Some (last hs)) = Inr (Some ?s)"
    using assms(6) [OF False] start by (simp add: ingest_position_def h ensure_def)
  moreover have "owed ?s = drop n (heights_between a e)"
    using start heights_between_rest [OF n(2) x_def] assms(2,3) n(1)
    by (cases "x = u64_max")
      (auto simp: owed_def resume_from_def ingest_scheduler_def scheduler_new_def run_limit_def
        open_between_plan_new saturating_add_one max_def)
  moreover have "fs_pending ?s = []" by (simp add: resume_from_def)
  ultimately show thesis using that False by simp
qed

section \<open>The run reaches its end\<close>

lemma ingest_run_healthy:
  assumes "db_faults d = []" "journal_ok (db_tables d)" "fst (ingest_setup p d) = Inr ()"
    "nc_end_height c = Some e" "unat e < 2 ^ 63" "nc_batch_size c \<noteq> 0"
    "clamp_batch (backpressure_new (nc_max_in_flight c) (nc_queue_capacity c)) (nc_batch_size c) 0 0 \<noteq> 0"
    "a = ingest_start c p" "hash_chain a e f" "\<forall>h \<in> {a..e}. hd_hash (gb_header (f h)) \<noteq> []"
    "journal (db_tables d) = map (gb_header \<circ> f) (take n (heights_between a e))" "n \<le> length (heights_between a e)"
    "journal (db_tables d) \<noteq> [] \<Longrightarrow>
       canonical (hd_height (last (journal (db_tables d)))) = Some (Inr (last (journal (db_tables d))))"
    "list_all (healthy_turn f a e) ts" "length (heights_between a e) \<le> n + length ts"
  shows "\<exists>d'. ingest_run canonical ts c p d = (Some (Inr ()), d') \<and>
    journal (db_tables d') = map (gb_header \<circ> f) (heights_between a e)"
proof -
  let ?j = "journal (db_tables d)" and ?hs = "heights_between a e"
  obtain d1 where d1: "ingest_prepare p d = (Inr (if ?j = [] then None else Some (last ?j)), d1)"
    "db_faults d1 = []" "journal (db_tables d1) = ?j" "journal_ok (db_tables d1)"
    by (rule prepare_total [OF assms(1-3)])
  obtain s where s: "ingest_position canonical c p (if ?j = [] then None else Some (last ?j)) = Inr (Some s)"
    "owed s = drop n ?hs" "fs_pending s = []"
    by (rule position_restart [where canonical = canonical and hs = ?j and n = n, OF assms(9,8,4,11,12,13)])
  note pa = position_ahead [OF d1(4), of canonical c p s, unfolded d1(3), OF s(1)]
  have pos: "sched_ok s" "fs_config s = fs_config (ingest_scheduler c p)" "ingest.ahead s d1"
    using pa(1,2,4) d1(3) by (simp_all add: ingest.ahead_def db_journal_def)
  have cfg: "end_height (fs_config s) = Some e" "batch_size (fs_config s) \<noteq> 0" "fetch_budget 0 0 s \<noteq> 0"
    using assms(4,6,7) by (simp_all add: fetch_budget_def pos(2)) (simp_all add: ingest_scheduler_def scheduler_new_def)
  have goal: "?j @ map (gb_header \<circ> f) (owed s) = map (gb_header \<circ> f) ?hs"
    unfolding s(2) assms(11) by (metis append_take_drop_id map_append)
  have bound: "hd_hash (gb_header (f h)) \<noteq> [] \<and> unat (hd_height (gb_header (f h))) < 2 ^ 63" if "h \<in> {a..e}" for h
    using that assms(5,9,10) by (auto simp: hash_chain_def word_le_nat_alt)
  have sub: "set (owed s) \<subseteq> {a..e}" unfolding s(2) using set_drop_subset [of n ?hs] by simp
  have "linked (map (gb_header \<circ> f) ?hs)"
    using hash_chain_linked [OF assms(9) order_refl order_refl] by (simp add: comp_def)
  moreover have "list_all (\<lambda>h. hd_hash (gb_header (f h)) \<noteq> [] \<and> unat (hd_height (gb_header (f h))) < 2 ^ 63) (owed s)"
    unfolding list_all_iff using bound sub by blast
  ultimately have ready: "ready f (map (gb_header \<circ> f) ?hs) (owed s) d1"
    by (simp only: ready_def d1(2-4) goal simp_thms)
  have ok: "db_journal_ok d1" using d1(4) by (simp add: db_journal_ok_def)
  have len: "length (owed s) \<le> length ts" using assms(15) unfolding s(2) by simp
  obtain s' d' where run: "run_loop ingest_accept ts s d1 = (Some (Inr ()), s', d')"
    "ready f (map (gb_header \<circ> f) ?hs) [] d'"
    using ingest.healthy_run [OF pos(1) s(3) cfg assms(14,9) ready_takes ok pos(3) ready sub len] by blast
  have "ingest_run canonical ts c p d = (Some (Inr ()), d')"
    using run(1) cfg(2) by (simp add: ingest_run_def d1(1) s(1) run_def)
  with run(2) show ?thesis by (simp add: ready_def)
qed

lemma validated_limits:
  assumes "node_config_validate parallelism c = Inr ()"
  shows "nc_batch_size c \<noteq> 0"
    "clamp_batch (backpressure_new (nc_max_in_flight c) (nc_queue_capacity c)) (nc_batch_size c) 0 0 \<noteq> 0"
    "nc_end_height c = Some e \<Longrightarrow> unat e < 2 ^ 63"
proof -
  note ok = assms [unfolded node_config_validate_Inr]
  show batch: "nc_batch_size c \<noteq> 0" using ok by (simp add: positive_settings_def ucast_zero_iff)
  then show "clamp_batch (backpressure_new (nc_max_in_flight c) (nc_queue_capacity c)) (nc_batch_size c) 0 0 \<noteq> 0"
    by (simp add: idle_clamp)
  assume "nc_end_height c = Some e"
  then have "e \<le> i64_max" using ok by blast
  then show "unat e < 2 ^ 63" by (simp add: word_le_nat_alt i64_max_def)
qed

text \<open>A node does its work. Take a valid ingest-only configuration with an end height, a
  project that passes the startup checks, and a database without faults whose metadata belongs
  to the project and whose journal holds the first \<open>n\<close> headers of the chain, from none of them on
  a fresh database to all; the endpoints serve the chain, call its end final, and still have
  the last ingested header. Then as many turns of the fetch loop as heights are missing are
  enough for the run to return \<open>Ok\<close>, with the journal holding the chain from the effective start
  to the end height.\<close>

theorem node_run_reaches_end:
  assumes "node_config_validate parallelism c = Inr ()" "nc_ingest_only c" "\<not> rs_shut_start sch"
    "nc_end_height c = Some e" "bootstrap_checks w c = Inr x"
    "a = effective_start c (lp_manifest (cx_project x))"
    "db_faults d = []" "journal_ok (db_tables d)" "fst (ingest_setup (context_identity x) d) = Inr ()"
    "journal (db_tables d) = map (gb_header \<circ> f) (take n (heights_between a e))"
    "journal (db_tables d) \<noteq> [] \<Longrightarrow>
       canonical_header (su_chain w) (rs_canonical sch) (cx_adapter x) (hd_height (last (journal (db_tables d)))) =
         Some (Inr (last (journal (db_tables d))))"
    "hash_chain a e f" "\<forall>h \<in> {a..e}. hd_hash (gb_header (f h)) \<noteq> []"
    "\<forall>st \<in> set (rs_steps sch). healthy_turn f a e (evm_turn (su_chain w) (cx_adapter x) st)"
    "length (heights_between a e) \<le> n + length (rs_steps sch)"
  shows "\<exists>d'. node_main parallelism w sch c d = (Some (Inr ()), d') \<and>
    journal (db_tables d') = map (gb_header \<circ> f) (heights_between a e)"
proof -
  let ?m = "min n (length (heights_between a e))" and ?turn = "evm_turn (su_chain w) (cx_adapter x)"
  have start: "a = ingest_start c (context_identity x)" by (simp add: assms(6) context_start)
  have j: "journal (db_tables d) = map (gb_header \<circ> f) (take ?m (heights_between a e))"
    using assms(10) by (simp add: min_def)
  have turns: "list_all (healthy_turn f a e) (map ?turn (rs_steps sch))"
    using assms(14) by (simp add: list_all_iff)
  have enough: "length (heights_between a e) \<le> ?m + length (map ?turn (rs_steps sch))"
    using assms(15) by simp
  note limits = validated_limits [OF assms(1)]
  obtain d' where run:
    "ingest_run (canonical_header (su_chain w) (rs_canonical sch) (cx_adapter x)) (map ?turn (rs_steps sch)) c
       (context_identity x) d = (Some (Inr ()), d')"
    "journal (db_tables d') = map (gb_header \<circ> f) (heights_between a e)"
    using ingest_run_healthy [where canonical = "canonical_header (su_chain w) (rs_canonical sch) (cx_adapter x)",
        OF assms(7-9) assms(4) limits(3) [OF assms(4)] limits(1,2) start assms(12,13) j min.cobounded2 assms(11) turns enough]
    by blast
  have "bootstrap w c d = (Inr x, d)" by (simp add: bootstrap_def assms(5,7) db_ping_def)
  then have "node_main parallelism w sch c d = (Some (Inr ()), d')"
    by (simp add: node_main_def node_run_def assms(1-3) run(1))
  with run(2) show ?thesis by blast
qed

lemma demo_setup: "fst (ingest_setup (demo_identity f) demo_fresh) = Inr ()"
  by code_simp

lemma demo_healthy:
  "healthy_turn (\<lambda>_. demo_generic_block) 2 2 (evm_turn (su_chain demo_startup) (cx_adapter demo_context) demo_step)"
proof -
  have "es_final demo_step = demo_evm_network" "es_block demo_step 2 = demo_evm_network"
    "es_cancel_fetch demo_step = NotCancelled" "es_cancel_block demo_step = (\<lambda>_. False)" "\<not> es_cancel_sleep demo_step"
    by (simp_all add: demo_step_def)
  then show ?thesis
    by (simp add: healthy_turn_def evm_turn_def uncancelled_def demo_answers)
qed

lemma node_run_reaches_end_witness:
  "\<exists>d'. node_main (Some 4) demo_startup demo_schedule demo_start_config demo_fresh = (Some (Inr ()), d') \<and>
     journal (db_tables d') = [gb_header demo_generic_block]"
proof -
  have hs: "heights_between 2 2 = [2]" by code_simp
  have header: "hd_height (gb_header demo_generic_block) = 2" "hd_hash (gb_header demo_generic_block) \<noteq> []"
    by code_simp+
  have start: "2 = effective_start demo_start_config (lp_manifest (cx_project demo_context))"
    by (simp add: effective_start_def demo_node_config)
  have chain: "hash_chain 2 2 (\<lambda>_. demo_generic_block)" by (simp add: hash_chain_def header)
  have hashes: "\<forall>h \<in> {2..(2::u64)}. hd_hash (gb_header demo_generic_block) \<noteq> []" using header by simp
  have fresh: "db_faults demo_fresh = []" "journal_ok (db_tables demo_fresh)"
    "fst (ingest_setup (context_identity demo_context) demo_fresh) = Inr ()"
    by (simp add: demo_fresh_def, simp add: demo_fresh_def, simp only: demo_context_identity demo_setup)
  have empty: "journal (db_tables demo_fresh) = []" by (simp add: demo_fresh_def journal_def empty_tables_def)
  have sch: "\<not> rs_shut_start demo_schedule" "rs_steps demo_schedule = [demo_step]" by (simp_all add: demo_schedule_def)
  have "\<exists>d'. node_main (Some 4) demo_startup demo_schedule demo_start_config demo_fresh = (Some (Inr ()), d') \<and>
    journal (db_tables d') = map (gb_header \<circ> (\<lambda>_. demo_generic_block)) (heights_between 2 2)"
    by (rule node_run_reaches_end [OF demo_valid demo_node_config(7) sch(1) demo_node_config(3) demo_bootstrap start
          fresh(1-3) _ _ chain hashes, where n = 0]) (simp_all add: empty sch(2) demo_healthy hs)
  then show ?thesis by (simp add: hs)
qed

end
