(* ===== verification/Sq_Recovery.thy ===== *)
theory Sq_Recovery
  imports Sq_Healthy
begin

text \<open>
  Crash recovery of the node. Runs that are killed, shut down or fail, each with its own
  network, shutdown points and database faults, leave a part of the chain in the journal and
  metadata that belong to the project, as long as the blocks that endpoints send are those of the
  chain; the next run that is left alone brings the journal to the end height.
\<close>

section \<open>A schema that accepts the project\<close>

definition accepts_project :: "project_identity \<Rightarrow> tables \<Rightarrow> bool" where
  "accepts_project p t =
     (agrees (tb_metadata t) (project_facts (pi_name p) (pi_chain_id p) (pi_fingerprint p) ''1'') \<and>
      \<not> isl (decode_checkpoint (tb_metadata t)))"

lemma decode_stamped:
  "decode_checkpoint (m ++ map_of (project_facts i c f a)) = decode_checkpoint m"
proof -
  have "(m ++ map_of (project_facts i c f a)) k = m k"
    if "k \<in> {key_name IndexedHeight, key_name IndexedBlockHash, key_name FinalizedHeight}" for k
    using that by (auto simp: project_facts_def map_add_def)
  then show ?thesis by (simp add: decode_checkpoint_def number_value_def required_value_def)
qed

lemma accepts_stamped:
  assumes "accepts_project p t"
    "tb_metadata t' = tb_metadata t ++ map_of (project_facts (pi_name p) (pi_chain_id p) (pi_fingerprint p) ''1'')"
  shows "accepts_project p t'"
  using assms by (auto simp: accepts_project_def decode_stamped) (simp add: agrees_def project_facts_def map_add_def)

interpretation own: table_relation "\<lambda>t t'. accepts_project p t \<longrightarrow> accepts_project p t'" for p
  by unfold_locales simp_all

lemma own_verify: "own.keeps p (verify_project (pi_name p) (pi_chain_id p) (pi_fingerprint p) ''1'' ms)"
  unfolding own.keeps_def
proof (intro allI impI)
  fix d r d'
  assume v: "verify_project (pi_name p) (pi_chain_id p) (pi_fingerprint p) ''1'' ms d = (r, d')"
    and ok: "accepts_project p (db_tables d)"
  from verify_facts_tables [OF project_facts_distinct v [unfolded verify_project_def]]
  show "accepts_project p (db_tables d')" using accepts_stamped [OF ok] ok by (cases r) auto
qed

lemma own_prepare: "own.keeps p (ingest_prepare p)"
  unfolding ingest_prepare_def ingest_setup_def resume_position_def ensure_schema_def checkpoint_ensure_tables_def
    metadata_ensure_table_def checkpoint_load_def ingestion_ensure_table_def ingestion_load_def
  by (intro own.keeps_bind own.keeps_query own.keeps_lift own_verify)

lemma setup_total:
  assumes "db_faults d = []" "validate_ident (pi_schema p) = Inr ()" "accepts_project p (db_tables d)"
  shows "fst (ingest_setup p d) = Inr ()"
proof -
  let ?facts = "project_facts (pi_name p) (pi_chain_id p) (pi_fingerprint p) ''1''"
  let ?v = "verify_project (pi_name p) (pi_chain_id p) (pi_fingerprint p) ''1''"
  have ag: "agrees (tb_metadata (db_tables d)) ?facts" using assms(3) by (simp add: accepts_project_def)
  obtain out d1 where v: "?v \<lparr>ms_schema = pi_schema p\<rparr> d = (Inr out, d1)" "db_faults d1 = []"
    using verify_no_faults [OF assms(1) ag] by blast
  have "accepts_project p (db_tables d1)" using own.keepsD [OF own_verify v(1)] assms(3) by simp
  then obtain cp where "decode_checkpoint (tb_metadata (db_tables d1)) = Inr cp"
    by (cases "decode_checkpoint (tb_metadata (db_tables d1))") (auto simp: accepts_project_def)
  with v assms(1,2) show ?thesis
    by (simp add: ingest_setup_def resume_position_def ensure_schema_def checkpoint_ensure_tables_def
        metadata_ensure_table_def checkpoint_load_def ingestion_ensure_table_def checkpoint_new_def
        metadata_new_def ingestion_new_def dbind_def dlift_def dreturn_def)
qed

text \<open>A journal that takes blocks stays in the hands of its project.\<close>

interpretation owner: block_sink ingest_accept db_journal
    "\<lambda>k. db_journal_ok k \<and> accepts_project p (db_tables k)" True for p
proof -
  have m: "accepts_project p (db_tables k')"
    if k: "db_journal_ok k" "accepts_project p (db_tables k)" "ingest_accept b k = (r, k')"
    for k k' r and b :: "'b generic_block"
  proof -
    obtain q where q: "ingestion_commit (gb_header b) k = (q, k')"
      using k(3) by (auto simp: ingest_accept_def split: prod.splits)
    have "tb_metadata (db_tables k') = tb_metadata (db_tables k)"
      using ingestion_commit_tables [OF _ q] k(1)
      by (auto simp: db_journal_ok_def committed_def extends_def split: sum.splits)
    with k(2) show ?thesis by (simp add: accepts_project_def)
  qed
  show "block_sink ingest_accept db_journal (\<lambda>k. db_journal_ok k \<and> accepts_project p (db_tables k)) True"
    using ingest.accept_Inr ingest.accept_Inl m by unfold_locales blast+
qed

section \<open>A journal of the chain\<close>

definition follows_chain :: "(u64 \<Rightarrow> 'b generic_block) \<Rightarrow> u64 \<Rightarrow> u64 \<Rightarrow> tables \<Rightarrow> bool" where
  "follows_chain f a e t =
     (journal_ok t \<and> (\<forall>x \<in> set (journal t). x = gb_header (f (hd_height x)) \<and> hd_height x \<in> {a..e}) \<and>
      (journal t = [] \<or> hd_height (hd (journal t)) = a))"

lemma follows_prefix:
  assumes "follows_chain f a e t"
  shows "journal t = map (gb_header \<circ> f) (take (length (journal t)) (heights_between a e))"
proof (cases "journal t = []")
  case False
  let ?j = "journal t" and ?hs = "heights_between a e"
  have l: "linked ?j" and a: "hd_height (?j ! 0) = a" using assms False by (simp_all add: follows_chain_def journal_ok_def hd_conv_nth)
  have h: "unat (hd_height (?j ! i)) = unat a + i" if "i < length ?j" for i
    using linked_heights [OF l that] a by simp
  have "?j ! (length ?j - 1) \<in> set ?j" using False by simp
  then have "hd_height (?j ! (length ?j - 1)) \<le> e" using assms by (auto simp: follows_chain_def)
  then have len: "length ?j \<le> length ?hs"
    using h [of "length ?j - 1"] False by (simp add: word_le_nat_alt)
  show ?thesis
  proof (rule nth_equalityI)
    fix i
    assume i: "i < length ?j"
    have "unat (?hs ! i) = unat a + i" using i len by (intro unat_heights_between_nth) simp
    then have "hd_height (?j ! i) = ?hs ! i" using h [OF i] by (simp add: word_unat_eq_iff)
    moreover have "?j ! i = gb_header (f (hd_height (?j ! i)))" using assms nth_mem [OF i] by (auto simp: follows_chain_def)
    ultimately show "?j ! i = map (gb_header \<circ> f) (take (length ?j) ?hs) ! i" using i len by simp
  qed (use len in simp)
qed simp

lemma follows_run:
  assumes "follows_chain f (ingest_start c p) e (db_tables d)" "nc_end_height c = Some e"
    "ingest_run canonical ts c p d = (r, d')"
    "\<And>t h b. t \<in> set ts \<Longrightarrow> h \<in> {ingest_start c p..e} \<Longrightarrow> tn_fetch t h = Inr b \<Longrightarrow> gb_header b = gb_header (f h)"
  shows "follows_chain f (ingest_start c p) e (db_tables d')"
proof -
  let ?a = "ingest_start c p"
  have ok: "journal_ok (db_tables d)" using assms(1) by (simp add: follows_chain_def)
  from ingest_run_extends_ok [OF ok, where canonical = canonical and ts = ts and c = c and p = p] assms(2,3) obtain new where
    new: "journal_ok (db_tables d')" "journal (db_tables d') = journal (db_tables d) @ new"
      "hd_height ` set new \<subseteq> {?a..e}" "journal (db_tables d) = [] \<Longrightarrow> new = [] \<or> hd_height (hd new) = ?a"
    by auto
  have "x = gb_header (f (hd_height x)) \<and> hd_height x \<in> {?a..e}" if x: "x \<in> set (journal (db_tables d'))" for x
  proof (cases "x \<in> set (journal (db_tables d))")
    case False
    then have h: "hd_height x \<in> {?a..e}" using new(2,3) x by auto
    obtain t where t: "t \<in> set ts" "turn_serves t x" using ingest_run_sourced(1) [OF ok assms(3) x False] by auto
    then obtain b where "tn_fetch t (hd_height x) = Inr b" "gb_header b = x" by (auto simp: turn_serves_def)
    with assms(4) [OF t(1) h] h show ?thesis by simp
  qed (use assms(1) in \<open>simp add: follows_chain_def\<close>)
  moreover have "journal (db_tables d') = [] \<or> hd_height (hd (journal (db_tables d'))) = ?a"
    using assms(1) new(2,4) by (cases "journal (db_tables d) = []") (auto simp: follows_chain_def)
  ultimately show ?thesis using new(1) by (simp add: follows_chain_def)
qed

lemma accepts_run:
  assumes "journal_ok (db_tables d)" "accepts_project p (db_tables d)" "ingest_run canonical ts c p d = (r, d')"
  shows "accepts_project p (db_tables d')"
proof -
  obtain q d1 where q: "ingest_prepare p d = (q, d1)" by force
  have d1: "accepts_project p (db_tables d1)" "journal_ok (db_tables d1)"
    using own.keepsD [OF own_prepare q] keeps_journal_ok [OF keeps_prepare q] assms(1,2) by simp_all
  show ?thesis
  proof (cases "\<exists>stored s. q = Inr stored \<and> ingest_position canonical c p stored = Inr (Some s)")
    case True
    then obtain stored s where s: "q = Inr stored" "ingest_position canonical c p stored = Inr (Some s)" by blast
    have stored: "stored = (if journal (db_tables d1) = [] then None else Some (last (journal (db_tables d1))))"
      by (rule prepare_stored [OF assms(1) q [unfolded s(1)]])
    note pa = position_ahead [OF d1(2) s(2) [unfolded stored]]
    obtain r1 s' where run: "run ingest_accept ts s d1 = (r1, s', d')"
      using assms(3) q s by (auto simp: ingest_run_def split: prod.splits)
    have "owner.ahead s d1" using pa(2) by (simp add: owner.ahead_def db_journal_def)
    from owner.run_spec(3) [OF pa(1) _ this run, of p] d1 show ?thesis by (simp add: db_journal_ok_def)
  next
    case False
    then have "d' = d1" using assms(3) q by (auto simp: ingest_run_def split: sum.splits option.splits)
    with d1(1) show ?thesis by simp
  qed
qed

section \<open>Attempts\<close>

text \<open>An attempt is one start of the node: the world it starts in, its schedule, and what the database
  does to its calls. What an attempt leaves is where the next one starts.\<close>

record attempt =
  at_world :: startup_world
  at_schedule :: run_schedule
  at_faults :: "fault list"

fun attempts :: "usize option \<Rightarrow> node_config \<Rightarrow> attempt list \<Rightarrow> db \<Rightarrow> db" where
  "attempts parallelism c [] d = d"
| "attempts parallelism c (x # xs) d =
     attempts parallelism c xs
       (snd (node_main parallelism (at_world x) (at_schedule x) c (d\<lparr>db_faults := at_faults x\<rparr>)))"

text \<open>Whenever the attempt gets as far as fetching, it is for the project \<open>p\<close>, and the blocks it is
  given for heights up to \<open>e\<close> have the headers of the chain \<open>f\<close>; it may get none.\<close>

definition honest :: "node_config \<Rightarrow> project_identity \<Rightarrow> (u64 \<Rightarrow> evm_block generic_block) \<Rightarrow> u64 \<Rightarrow> attempt \<Rightarrow> bool" where
  "honest c p f e x =
     (\<forall>cx. bootstrap_checks (at_world x) c = Inr cx \<longrightarrow>
        context_identity cx = p \<and>
        (\<forall>st \<in> set (rs_steps (at_schedule x)). \<forall>h \<in> {ingest_start c p..e}. \<forall>b.
           tn_fetch (evm_turn (su_chain (at_world x)) (cx_adapter cx) st) h = Inr b \<longrightarrow>
             gb_header b = gb_header (f h)))"

lemma attempt_keeps:
  assumes "follows_chain f (ingest_start c p) e (db_tables d)" "accepts_project p (db_tables d)"
    "nc_end_height c = Some e" "honest c p f e x"
    "node_main parallelism (at_world x) (at_schedule x) c d = (r, d')"
  shows "follows_chain f (ingest_start c p) e (db_tables d')" "accepts_project p (db_tables d')"
proof -
  have "follows_chain f (ingest_start c p) e (db_tables d') \<and> accepts_project p (db_tables d')"
  proof (cases rule: node_main_cases [OF assms(5)])
    case 1
    then show ?thesis using assms(1,2) by simp
  next
    case (2 cx d1 q)
    let ?ts = "map (evm_turn (su_chain (at_world x)) (cx_adapter cx)) (rs_steps (at_schedule x))"
    have h: "context_identity cx = p" "\<forall>st \<in> set (rs_steps (at_schedule x)). \<forall>h \<in> {ingest_start c p..e}. \<forall>b.
        tn_fetch (evm_turn (su_chain (at_world x)) (cx_adapter cx) st) h = Inr b \<longrightarrow> gb_header b = gb_header (f h)"
      using assms(4) 2(3) unfolding honest_def by blast+
    have served: "gb_header b = gb_header (f i)"
      if t: "t \<in> set ?ts" and b: "i \<in> {ingest_start c p..e}" "tn_fetch t i = Inr b" for t i b
    proof -
      obtain st where "st \<in> set (rs_steps (at_schedule x))" "t = evm_turn (su_chain (at_world x)) (cx_adapter cx) st"
        using t by auto
      with h(2) b show ?thesis by blast
    qed
    have d1: "follows_chain f (ingest_start c p) e (db_tables d1)" "accepts_project p (db_tables d1)"
      using 2(5) assms(1,2) by simp_all
    have "journal_ok (db_tables d1)" using d1(1) by (simp add: follows_chain_def)
    from accepts_run [OF this d1(2) 2(6) [unfolded h(1)]]
    have "accepts_project p (db_tables d')" .
    moreover have "follows_chain f (ingest_start c p) e (db_tables d')"
      by (rule follows_run [OF d1(1) assms(3) 2(6) [unfolded h(1)]]) (rule served)
    ultimately show ?thesis by simp
  qed
  then show "follows_chain f (ingest_start c p) e (db_tables d')" "accepts_project p (db_tables d')" by simp_all
qed

lemma attempts_keep:
  assumes "follows_chain f (ingest_start c p) e (db_tables d)" "accepts_project p (db_tables d)"
    "nc_end_height c = Some e" "list_all (honest c p f e) xs"
  shows "follows_chain f (ingest_start c p) e (db_tables (attempts parallelism c xs d)) \<and>
    accepts_project p (db_tables (attempts parallelism c xs d))"
  using assms
proof (induction xs arbitrary: d)
  case (Cons x xs)
  obtain r d' where run: "node_main parallelism (at_world x) (at_schedule x) c (d\<lparr>db_faults := at_faults x\<rparr>) = (r, d')"
    by force
  have "honest c p f e x" using Cons.prems(4) by simp
  from attempt_keeps [OF _ _ assms(3) this run] Cons.IH [of d'] Cons.prems run show ?case by simp
qed simp

text \<open>C3: The node recovers. On a fresh database the node is started any number of times with one
  configuration; each of these starts may fail, be shut down or killed at any point, and see
  any faults of the database, answers lost after a commit included, but the blocks it is given are
  those of the chain. Then a start that is left alone, against endpoints that serve the chain up
  to the end height and call it final, on a database that works, returns \<open>Ok\<close> within as many turns
  as the range has heights, and the journal holds exactly the headers of the chain from the
  effective start to the end height.\<close>

theorem node_recovers:
  assumes "node_config_validate parallelism c = Inr ()" "nc_ingest_only c" "nc_end_height c = Some e"
    "bootstrap_checks w c = Inr x" "a = effective_start c (lp_manifest (cx_project x))" "\<not> rs_shut_start sch"
    "db_tables d = empty_tables" "list_all (honest c (context_identity x) f e) crashed"
    "hash_chain a e f" "\<forall>h \<in> {a..e}. hd_hash (gb_header (f h)) \<noteq> []"
    "\<forall>h \<in> {a..e}. canonical_header (su_chain w) (rs_canonical sch) (cx_adapter x) h = Some (Inr (gb_header (f h)))"
    "\<forall>st \<in> set (rs_steps sch). healthy_turn f a e (evm_turn (su_chain w) (cx_adapter x) st)"
    "length (heights_between a e) \<le> length (rs_steps sch)"
  shows "\<exists>d'. node_main parallelism w sch c ((attempts parallelism c crashed d)\<lparr>db_faults := []\<rparr>) = (Some (Inr ()), d') \<and>
    journal (db_tables d') = map (gb_header \<circ> f) (heights_between a e)"
proof -
  let ?p = "context_identity x" and ?d = "(attempts parallelism c crashed d)\<lparr>db_faults := []\<rparr>"
  let ?j = "journal (db_tables ?d)"
  have a: "ingest_start c ?p = a" by (simp add: assms(5) context_start)
  have fresh: "follows_chain f a e (db_tables d)" "accepts_project ?p (db_tables d)"
    by (simp add: assms(7) follows_chain_def) (simp add: journal_def empty_tables_def,
       simp add: assms(7) accepts_project_def empty_tables_def agrees_def project_facts_def decode_checkpoint_def)
  have left: "follows_chain f a e (db_tables ?d)" "accepts_project ?p (db_tables ?d)"
    using attempts_keep [OF fresh(1) [folded a] fresh(2) assms(3,8)] by (simp_all add: a)
  have ok: "journal_ok (db_tables ?d)" using left(1) by (simp add: follows_chain_def)
  have schema: "validate_ident (pi_schema ?p) = Inr ()"
    using bootstrap_checks_ok [OF assms(4)] by (simp add: startup_ok_def Let_def context_identity_def)
  have canonical: "canonical_header (su_chain w) (rs_canonical sch) (cx_adapter x) (hd_height (last ?j)) = Some (Inr (last ?j))"
    if "?j \<noteq> []"
    using left(1) last_in_set [OF that] assms(11) by (auto simp: follows_chain_def)
  have faults: "db_faults ?d = []" by simp
  show ?thesis
    by (rule node_run_reaches_end [OF assms(1,2,6,3,4,5) faults ok setup_total [OF faults schema left(2)]
          follows_prefix [OF left(1)] canonical assms(9,10,12)]) (use assms(13) in simp_all)
qed

section \<open>A recovery\<close>

text \<open>The first attempt loses its connection at once, the second one the answer to its commit; the
  third run finds the header in the journal or commits it, as the case may be.\<close>

definition demo_crash :: "fault list \<Rightarrow> attempt" where
  "demo_crash faults = \<lparr>at_world = demo_startup, at_schedule = demo_schedule, at_faults = faults\<rparr>"

definition demo_crashes :: "attempt list" where
  "demo_crashes = [demo_crash [Fails (Postgres ''connection refused'')],
     demo_crash (replicate 30 Fine @ [LostAnswer (Postgres ''connection reset'')])]"

definition demo_resume :: run_schedule where
  "demo_resume = demo_schedule\<lparr>rs_canonical := Some demo_evm_network\<rparr>"

lemma demo_header_at:
  "evm_header_at (asking (su_chain demo_startup) demo_evm_network) (cx_adapter demo_context) 2 =
     Inr (gb_header demo_generic_block)"
proof -
  have "ew_codec (asking (su_chain demo_startup) demo_evm_network) = demo_codec"
    by (simp add: asking_def demo_startup_def)
  then show ?thesis
    by (simp add: evm_header_at_def demo_node_requests decode_block_header [OF demo_decode_block] demo_generic_block_def
        generic_block_new_def)
qed

lemma demo_honest: "honest demo_start_config (context_identity demo_context) (\<lambda>_. demo_generic_block) 2 (demo_crash faults)"
proof -
  have "ingest_start demo_start_config (context_identity demo_context) = 2"
    by (simp add: ingest_start_def demo_node_config)
  moreover have "es_block demo_step 2 = demo_evm_network" by (simp add: demo_step_def)
  ultimately show ?thesis
    by (auto simp: honest_def demo_crash_def demo_bootstrap demo_schedule_def evm_turn_def demo_answers)
qed

lemma node_recovers_witness:
  "\<exists>d'. node_main (Some 4) demo_startup demo_resume demo_start_config
      ((attempts (Some 4) demo_start_config demo_crashes demo_fresh)\<lparr>db_faults := []\<rparr>) = (Some (Inr ()), d') \<and>
    journal (db_tables d') = [gb_header demo_generic_block]"
proof -
  have hs: "heights_between 2 2 = [2]" by code_simp
  have header: "hd_height (gb_header demo_generic_block) = 2" "hd_hash (gb_header demo_generic_block) \<noteq> []"
    by code_simp+
  have start: "2 = effective_start demo_start_config (lp_manifest (cx_project demo_context))"
    by (simp add: effective_start_def demo_node_config)
  have chain: "hash_chain 2 2 (\<lambda>_. demo_generic_block)" by (simp add: hash_chain_def header)
  have fresh: "db_tables demo_fresh = empty_tables" by (simp add: demo_fresh_def)
  have crashed: "list_all (honest demo_start_config (context_identity demo_context) (\<lambda>_. demo_generic_block) 2) demo_crashes"
    by (simp add: demo_crashes_def demo_honest)
  have sch: "\<not> rs_shut_start demo_resume" "rs_steps demo_resume = [demo_step]" "rs_canonical demo_resume = Some demo_evm_network"
    by (simp_all add: demo_resume_def demo_schedule_def)
  have "\<exists>d'. node_main (Some 4) demo_startup demo_resume demo_start_config
      ((attempts (Some 4) demo_start_config demo_crashes demo_fresh)\<lparr>db_faults := []\<rparr>) = (Some (Inr ()), d') \<and>
    journal (db_tables d') = map (gb_header \<circ> (\<lambda>_. demo_generic_block)) (heights_between 2 2)"
    by (rule node_recovers [OF demo_valid demo_node_config(7,3) demo_bootstrap start sch(1) fresh crashed chain])
      (simp_all add: header sch canonical_header_def demo_header_at demo_healthy hs)
  then show ?thesis by (simp add: hs)
qed

end
