(* ===== verification/Sq_Writers.thy ===== *)
theory Sq_Writers
  imports Sq_Ingestion
begin

text \<open>
  Several writers of one journal. \<open>IngestionStore::commit\<close> locks the table for the length of its
  transaction, so that the commits of any number of nodes on one schema happen one after the
  other, in whatever order the locks are granted. The step relation \<open>writers_run\<close> is such an
  order: each commit is of any header, by any node, with the faults of that node's connection,
  and is logged with its answer. Shown: what was answered with \<open>Ok\<close> stays.
\<close>

section \<open>Interleaved commits\<close>

inductive writers_run :: "(header \<times> (store_error + unit)) list \<Rightarrow> db \<Rightarrow> db \<Rightarrow> bool" where
  quiet: "writers_run [] d d"
| commit: "ingestion_commit h (d\<lparr>db_faults := faults\<rparr>) = (r, d1) \<Longrightarrow> writers_run log d1 d2 \<Longrightarrow>
    writers_run ((h, r) # log) d d2"

inductive_cases writers_runE: "writers_run ((h, r) # log) d d2"

lemma commit_grows:
  assumes "journal_ok (db_tables d)" "ingestion_commit h (d\<lparr>db_faults := faults\<rparr>) = (r, d1)"
  obtains new where "journal_ok (db_tables d1)" "journal (db_tables d1) = journal (db_tables d) @ new" "set new \<subseteq> {h}"
    "r = Inr () \<longrightarrow> h \<in> set (journal (db_tables d1))"
proof -
  let ?d = "d\<lparr>db_faults := faults\<rparr>"
  have ok: "journal_ok (db_tables ?d)" using assms(1) by simp
  have c: "db_tables d1 = db_tables d \<or> committed h (db_tables d) (db_tables d1)"
    "r = Inr () \<Longrightarrow> committed h (db_tables d) (db_tables d1)"
    using ingestion_commit_tables [OF ok assms(2)] by (auto split: sum.splits)
  have "journal_ok (db_tables d1)" using c(1) committed_ok [OF assms(1)] assms(1) by auto
  moreover have "journal (db_tables d1) = journal (db_tables d) @ [h] \<or> journal (db_tables d1) = journal (db_tables d) @ []"
    using c(1) committed_journal [OF assms(1), of h "db_tables d1"] by auto
  moreover have "r = Inr () \<longrightarrow> h \<in> set (journal (db_tables d1))"
    using committed_journal [OF assms(1) c(2)] last_in_set [of "journal (db_tables d1)"] by auto
  ultimately show thesis using that [of "[h]"] that [of "[]"] by auto
qed

section \<open>Properties\<close>

text \<open>C15: A journal with many writers. Whatever nodes commit to one journal, in whatever order and with
  whatever faults, it stays linked and gapless, nothing that it held is changed or lost, every
  header that was answered with \<open>Ok\<close> is in it from then on, and it holds nothing else than what
  it held before or some node committed. Two different headers of one height are never both
  answered with \<open>Ok\<close>.\<close>

theorem journal_shared:
  assumes "journal_ok (db_tables d)" "writers_run log d d'"
  shows "journal_ok (db_tables d') \<and> prefix (journal (db_tables d)) (journal (db_tables d')) \<and>
    {h. (h, Inr ()) \<in> set log} \<subseteq> set (journal (db_tables d')) \<and>
    set (journal (db_tables d')) \<subseteq> set (journal (db_tables d)) \<union> fst ` set log \<and>
    inj_on hd_height {h. (h, Inr ()) \<in> set log}"
proof -
  have run: "journal_ok (db_tables d') \<and> prefix (journal (db_tables d)) (journal (db_tables d')) \<and>
    {h. (h, Inr ()) \<in> set log} \<subseteq> set (journal (db_tables d')) \<and>
    set (journal (db_tables d')) \<subseteq> set (journal (db_tables d)) \<union> fst ` set log"
    using assms(2,1)
  proof (induction rule: writers_run.induct)
    case (commit h faults d r d1 log d2)
    obtain new where n: "journal_ok (db_tables d1)" "journal (db_tables d1) = journal (db_tables d) @ new" "set new \<subseteq> {h}"
      "r = Inr () \<longrightarrow> h \<in> set (journal (db_tables d1))"
      by (rule commit_grows [OF commit.prems commit.hyps(1)])
    note ih = commit.IH [OF n(1)]
    have "prefix (journal (db_tables d)) (journal (db_tables d2))"
      using ih n(2) prefix_order.trans [of "journal (db_tables d)" "journal (db_tables d1)"] by simp
    moreover have "set (journal (db_tables d1)) \<subseteq> set (journal (db_tables d2))" using ih set_mono_prefix by blast
    ultimately show ?case using ih n by auto
  qed simp
  have "inj_on hd_height (set (journal (db_tables d')))"
  proof (rule inj_onI)
    fix x y
    assume "x \<in> set (journal (db_tables d'))" "y \<in> set (journal (db_tables d'))" "hd_height x = hd_height y"
    moreover have "linked (journal (db_tables d'))" using run by (simp add: journal_ok_def)
    ultimately show "x = y"
      using linked_heights [of "journal (db_tables d')"] by (metis add_left_cancel in_set_conv_nth)
  qed
  then have "inj_on hd_height {h. (h, Inr ()) \<in> set log}" by (rule inj_on_subset) (use run in blast)
  with run show ?thesis by simp
qed

section \<open>Two nodes\<close>

fun write_all :: "(header \<times> fault list) list \<Rightarrow> db \<Rightarrow> (header \<times> (store_error + unit)) list \<times> db" where
  "write_all [] d = ([], d)"
| "write_all ((h, faults) # ws) d =
     (case ingestion_commit h (d\<lparr>db_faults := faults\<rparr>) of
        (r, d1) \<Rightarrow> (case write_all ws d1 of (log, d2) \<Rightarrow> ((h, r) # log, d2)))"

lemma write_all_run: "write_all ws d = (log, d') \<Longrightarrow> writers_run log d d'"
  by (induction ws d arbitrary: log rule: write_all.induct) (auto split: prod.splits intro: writers_run.intros)

text \<open>The first node loses the answer to its commit of block 7, the second one then finds the block
  in the journal and commits the next, and the first node's fork of that one is refused.\<close>

definition demo_header :: "u64 \<Rightarrow> string \<Rightarrow> string \<Rightarrow> header" where
  "demo_header n hash parent = \<lparr>hd_height = n, hd_hash = hash, hd_parent_hash = Some parent, hd_timestamp = None\<rparr>"

definition demo_writes :: "(header \<times> fault list) list" where
  "demo_writes =
     [(demo_header 7 ''h7'' ''h6'', replicate 5 Fine @ [LostAnswer (Postgres ''connection reset'')]),
      (demo_header 7 ''h7'' ''h6'', []), (demo_header 8 ''h8'' ''h7'', []), (demo_header 8 ''x8'' ''h7'', [])]"

lemma demo_writes_run:
  "map (isl \<circ> snd) (fst (write_all demo_writes demo_db)) = [True, False, False, True]"
  "journal (db_tables (snd (write_all demo_writes demo_db))) = [demo_header 7 ''h7'' ''h6'', demo_header 8 ''h8'' ''h7'']"
  by code_simp+

lemma journal_shared_witness:
  "\<exists>log d'. writers_run log demo_db d' \<and> map (isl \<circ> snd) log = [True, False, False, True] \<and>
     {h. (h, Inr ()) \<in> set log} \<subseteq> {demo_header 7 ''h7'' ''h6'', demo_header 8 ''h8'' ''h7''}"
proof -
  obtain log d' where run: "write_all demo_writes demo_db = (log, d')" by force
  have "journal_ok (db_tables demo_db)" by (simp add: demo_db_def)
  from journal_shared [OF this write_all_run [OF run]]
  have "{h. (h, Inr ()) \<in> set log} \<subseteq> set (journal (db_tables d'))" by blast
  with demo_writes_run run write_all_run [OF run] show ?thesis by auto
qed

end
