(* ===== verification/Sq_EvmParams.thy ===== *)
theory Sq_EvmParams
  imports Sq_EvmAdapter
begin

text \<open>
  The parameters of a handler's filter as JSON: what \<open>serde\<close> derives from the declarations of
  \<open>crates/chains/evm/src/filter.rs\<close>, reading and writing. An object has distinct keys, fields that
  it has in excess are ignored, a field of type \<open>Option\<close> may be absent, and a sequence is read as
  the fields in their order. The variants of \<open>TopicFilter\<close> are untagged and tried in turn. The texts
  of the errors are the parameter \<open>msg\<close>. Shown: a filter that was written into a manifest selects
  what it selected before, and a filter without parameters selects nothing.
\<close>

section \<open>Reading\<close>

fun de_opt_string :: "json \<Rightarrow> string option option" where
  "de_opt_string JNull = Some None"
| "de_opt_string (JString s) = Some (Some s)"
| "de_opt_string _ = None"

definition de_opt_field :: "(string \<times> json) list \<Rightarrow> string \<Rightarrow> string option option" where
  "de_opt_field kvs key = (case map_of kvs key of None \<Rightarrow> Some None | Some v \<Rightarrow> de_opt_string v)"

fun de_topic :: "json \<Rightarrow> topic_filter option" where
  "de_topic JNull = Some AnyTopic"
| "de_topic (JString s) = Some (OneTopic s)"
| "de_topic (JArray vs) = map_option AnyOfTopics (those (map json_as_str vs))"
| "de_topic _ = None"

definition de_topics :: "json \<Rightarrow> topic_filter list option" where
  "de_topics v = Option.bind (json_as_array v) (\<lambda>vs. those (map de_topic vs))"

definition log_filter_of :: "string option option \<Rightarrow> topic_filter list option \<Rightarrow> evm_log_filter option" where
  "log_filter_of address topics =
     Option.bind address (\<lambda>a. map_option (\<lambda>ts. \<lparr>lf_address = a, lf_topics = ts\<rparr>) topics)"

fun de_log_filter :: "json \<Rightarrow> evm_log_filter option" where
  "de_log_filter (JObject kvs) = log_filter_of (de_opt_field kvs ''address'')
     (case map_of kvs ''topics'' of None \<Rightarrow> Some [] | Some v \<Rightarrow> de_topics v)"
| "de_log_filter (JArray [address]) = log_filter_of (de_opt_string address) (Some [])"
| "de_log_filter (JArray [address, topics]) = log_filter_of (de_opt_string address) (de_topics topics)"
| "de_log_filter _ = None"

definition transaction_filter_of ::
  "string option option \<Rightarrow> string option option \<Rightarrow> string option option \<Rightarrow> evm_transaction_filter option" where
  "transaction_filter_of to from func =
     Option.bind to (\<lambda>t. Option.bind from (\<lambda>s. map_option (\<lambda>f. \<lparr>tf_to = t, tf_from = s, tf_function = f\<rparr>) func))"

fun de_transaction_filter :: "json \<Rightarrow> evm_transaction_filter option" where
  "de_transaction_filter (JObject kvs) =
     transaction_filter_of (de_opt_field kvs ''to'') (de_opt_field kvs ''from'') (de_opt_field kvs ''function'')"
| "de_transaction_filter (JArray [t, s, f]) =
     transaction_filter_of (de_opt_string t) (de_opt_string s) (de_opt_string f)"
| "de_transaction_filter _ = None"

definition from_value :: "(json \<Rightarrow> string) \<Rightarrow> (json \<Rightarrow> 'a option) \<Rightarrow> json \<Rightarrow> string + 'a" where
  "from_value msg de v = ok_or (de v) (msg v)"

section \<open>Writing\<close>

definition ser_opt_string :: "string option \<Rightarrow> json" where
  "ser_opt_string x = (case x of None \<Rightarrow> JNull | Some s \<Rightarrow> JString s)"

fun ser_topic :: "topic_filter \<Rightarrow> json" where
  "ser_topic AnyTopic = JNull"
| "ser_topic (OneTopic s) = JString s"
| "ser_topic (AnyOfTopics ss) = JArray (map JString ss)"

definition ser_log_filter :: "evm_log_filter \<Rightarrow> json" where
  "ser_log_filter f = JObject [(''address'', ser_opt_string (lf_address f)), (''topics'', JArray (map ser_topic (lf_topics f)))]"

definition ser_transaction_filter :: "evm_transaction_filter \<Rightarrow> json" where
  "ser_transaction_filter f = JObject [(''to'', ser_opt_string (tf_to f)), (''from'', ser_opt_string (tf_from f)),
     (''function'', ser_opt_string (tf_function f))]"

section \<open>The filter of a handler\<close>

definition event_matches :: "(json \<Rightarrow> string) \<Rightarrow> evm_event \<Rightarrow> chain_filter \<Rightarrow> bool" where
  "event_matches msg = event_matches_filter (from_value msg de_log_filter) (from_value msg de_transaction_filter)"

lemma those_map_Some: "(\<And>x. x \<in> set xs \<Longrightarrow> g (f x) = Some x) \<Longrightarrow> those (map (g \<circ> f) xs) = Some xs"
  by (induction xs) simp_all

lemma de_ser_opt_string [simp]: "de_opt_string (ser_opt_string x) = Some x"
  by (simp add: ser_opt_string_def split: option.split)

lemma de_ser_topic [simp]: "de_topic (ser_topic t) = Some t"
proof (cases t)
  case (AnyOfTopics ss)
  have "those (map (json_as_str \<circ> JString) ss) = Some ss" by (rule those_map_Some) (simp add: json_as_str_def)
  with AnyOfTopics show ?thesis by simp
qed simp_all

lemma de_ser_log_filter: "de_log_filter (ser_log_filter f) = Some f"
proof -
  have "those (map (de_topic \<circ> ser_topic) (lf_topics f)) = Some (lf_topics f)" by (rule those_map_Some) simp
  then show ?thesis
    by (simp add: ser_log_filter_def de_opt_field_def de_topics_def json_as_array_def log_filter_of_def)
qed

lemma de_ser_transaction_filter: "de_transaction_filter (ser_transaction_filter f) = Some f"
  by (simp add: ser_transaction_filter_def de_opt_field_def transaction_filter_of_def)

text \<open>C32: Filters survive JSON. Writing a filter as the parameters of a handler and reading it back
  gives the same filter, so that the handler's events are exactly those the filter selects, and a
  transaction handler's those whose transaction it selects. A filter without parameters, which is
  documented to match everything, selects no event at all.\<close>

theorem filter_params_roundtrip:
  "event_matches msg event (filter_with_params (filter_new KindEvent) (ser_log_filter f)) =
     log_filter_matches f (log_view_of (ee_log event)) \<and>
   event_matches msg event (filter_with_params (filter_new KindTransaction) (ser_transaction_filter g)) =
     (case ee_transaction event of None \<Rightarrow> False
      | Some tx \<Rightarrow> transaction_filter_matches g (transaction_view_of tx)) \<and>
   \<not> event_matches msg event (filter_new kind)"
  by (cases kind; cases "ee_transaction event")
    (simp_all add: event_matches_def event_matches_filter_def parse_params_def from_value_def filter_new_def
      filter_with_params_def de_ser_log_filter de_ser_transaction_filter)

text \<open>An empty object, in contrast, selects every log.\<close>

lemma empty_object_selects_all:
  "event_matches msg event (filter_with_params (filter_new KindEvent) (JObject []))"
  by (simp add: event_matches_def event_matches_filter_def parse_params_def from_value_def filter_new_def
      filter_with_params_def de_opt_field_def log_filter_of_def log_filter_matches_def)

end
