(* ===== verification/Sq_EntityStore.thy ===== *)
theory Sq_EntityStore
  imports Sq_Entities "HOL-Library.Multiset"
begin

text \<open>
  What the entity operations promise. The abstraction of a table is the map from ids to rows;
  the lemmas show that writing, removing and reading are updates, restrictions and lookups of
  that map, that writing twice is writing once, and which schemas cannot be written at all.
\<close>

section \<open>Rows\<close>

lemma set_columns_get:
  "distinct (map fst vals) \<Longrightarrow> bt_get (set_columns vals row) c =
     (case map_of vals c of Some v \<Rightarrow> Some v | None \<Rightarrow> bt_get row c)"
proof (induction vals arbitrary: row)
  case (Cons x vals)
  obtain k v where x: "x = (k, v)" by (cases x)
  have "set_columns (x # vals) row = set_columns vals (bt_insert k v row)"
    by (simp add: set_columns_def x)
  moreover have "c = k \<Longrightarrow> map_of vals c = None"
    using Cons.prems x by (simp add: map_of_eq_None_iff)
  ultimately show ?case
    using Cons x by (cases "c = k") (simp_all split: option.split)
qed (simp add: set_columns_def)

lemma set_columns_ok: "bt_ok row \<Longrightarrow> bt_ok (set_columns vals row)"
  by (induction vals arbitrary: row) (auto simp: set_columns_def)

lemma map_of_filter_key: "map_of (filter (\<lambda>(c, v). P c) xs) c = (if P c then map_of xs c else None)"
  by (induction xs) auto

section \<open>The table as a map\<close>

definition lookup_rows :: "canonical_row list \<Rightarrow> string \<Rightarrow> canonical_row option" where
  "lookup_rows rows i = List.find (\<lambda>r. row_id r = Some i) rows"

definition table_map :: "entity_table \<Rightarrow> string \<Rightarrow> canonical_row option" where
  "table_map t = lookup_rows (et_rows t)"

definition table_ok :: "entity_table \<Rightarrow> bool" where
  "table_ok t = (distinct (map row_id (et_rows t)) \<and> None \<notin> set (map row_id (et_rows t)) \<and> list_all bt_ok (et_rows t))"

lemma lookup_rows_simps [simp]:
  "lookup_rows [] i = None"
  "lookup_rows (r # rs) i = (if row_id r = Some i then Some r else lookup_rows rs i)"
  by (simp_all add: lookup_rows_def)

text \<open>The row a write leaves: the listed columns of the old row are set, or the row is new.\<close>

definition written_row ::
  "string list \<Rightarrow> (string \<times> string option) list \<Rightarrow> canonical_row option \<Rightarrow> canonical_row" where
  "written_row upd vals old =
     (case old of None \<Rightarrow> set_columns vals []
      | Some r \<Rightarrow> set_columns (filter (\<lambda>(c, v). c \<in> set upd) vals) r)"

lemma written_row_id:
  assumes "distinct (map fst vals)" "map_of vals ''id'' = Some (Some i)"
    "old = None \<or> map_option row_id old = Some (Some i)"
  shows "row_id (written_row upd vals old) = Some i"
proof -
  have d: "distinct (map fst (filter (\<lambda>(c, v). c \<in> set upd) vals))"
    using assms(1) by (simp add: distinct_map_filter)
  show ?thesis
    using assms set_columns_get [OF assms(1), of "[]" "''id''"] set_columns_get [OF d, of "the old" "''id''"]
    by (cases old) (auto simp: written_row_def row_id_def map_of_filter_key split: option.splits if_splits)
qed

lemma lookup_write_row:
  assumes "distinct (map fst vals)" "map_of vals ''id'' = Some (Some i)"
  shows "lookup_rows (write_row i upd vals rs) = (lookup_rows rs)(i \<mapsto> written_row upd vals (lookup_rows rs i))"
proof
  fix j show "lookup_rows (write_row i upd vals rs) j =
      ((lookup_rows rs)(i \<mapsto> written_row upd vals (lookup_rows rs i))) j"
  proof (induction rs)
    case Nil
    then show ?case using written_row_id [OF assms, of None upd] by (simp add: written_row_def)
  next
    case (Cons r rs)
    then show ?case using written_row_id [OF assms, of "Some r" upd] by (auto simp: written_row_def)
  qed
qed

lemma write_row_ids:
  assumes "distinct (map fst vals)" "map_of vals ''id'' = Some (Some i)"
  shows "map row_id (write_row i upd vals rs) =
    map row_id rs @ (if Some i \<in> set (map row_id rs) then [] else [Some i])"
proof (induction rs)
  case Nil
  then show ?case using written_row_id [OF assms, of None upd] by (simp add: written_row_def)
next
  case (Cons r rs)
  then show ?case using written_row_id [OF assms, of "Some r" upd] by (auto simp: written_row_def)
qed

lemma write_row_ok: "list_all bt_ok rs \<Longrightarrow> list_all bt_ok (write_row i upd vals rs)"
  by (induction rs) (auto simp: set_columns_ok)

lemma pg_values_columns:
  "collect (pg_value cast key) (zip cols params) = Inr vals \<Longrightarrow> length params = length cols \<Longrightarrow>
     map fst vals = map snd cols"
proof (induction cols params arbitrary: vals rule: list_induct2')
  case (4 c cols p params)
  then show ?case
    by (cases c) (auto simp: rbind_eq_Inr pg_value_def split: option.splits if_splits)
qed auto

lemma upsert_effect_Inr:
  assumes "upsert_effect cast cols params t = (Inr (), t')" "length params = length cols"
  obtains vals i where "collect (pg_value cast (et_key t)) (zip cols params) = Inr vals"
    "map_of vals ''id'' = Some (Some i)" "distinct (map fst vals)" "map fst vals = map snd cols"
    "t' = t\<lparr>et_rows := write_row i (update_columns cols) vals (et_rows t)\<rparr>"
    "update_columns cols \<noteq> []" "distinct (map snd cols)" "et_key t = Some ''id''"
  using assms pg_values_columns [of cast "et_key t" cols params]
  by (auto simp: upsert_effect_def split: if_splits sum.splits option.splits)

lemma upsert_effect_refines:
  assumes "table_ok t" "upsert_effect cast cols params t = (Inr (), t')" "length params = length cols"
  obtains vals i row where "table_ok t'" "collect (pg_value cast (et_key t)) (zip cols params) = Inr vals"
    "distinct (map snd cols)" "map_of vals ''id'' = Some (Some i)" "table_map t' = (table_map t)(i \<mapsto> row)"
    "\<And>c. bt_get row c =
        (case table_map t i of
           None \<Rightarrow> map_of vals c
         | Some old \<Rightarrow> if c \<in> set (update_columns cols) then map_of vals c else bt_get old c)"
proof (rule upsert_effect_Inr [OF assms(2,3)])
  fix vals i
  let ?upd = "update_columns cols"
  assume v: "collect (pg_value cast (et_key t)) (zip cols params) = Inr vals"
    and i: "map_of vals ''id'' = Some (Some i)" and d: "distinct (map fst vals)"
    and cols: "map fst vals = map snd cols" and dc: "distinct (map snd cols)"
    and t': "t' = t\<lparr>et_rows := write_row i ?upd vals (et_rows t)\<rparr>"
  let ?row = "written_row ?upd vals (table_map t i)"
  have "table_ok t'"
    using assms(1) write_row_ok unfolding table_ok_def t'
    by (auto simp add: write_row_ids [OF d i] simp del: set_map)
  moreover have "table_map t' = (table_map t)(i \<mapsto> ?row)"
    by (simp add: table_map_def t' lookup_write_row [OF d i])
  moreover have "bt_get ?row c =
        (case table_map t i of
           None \<Rightarrow> map_of vals c
         | Some old \<Rightarrow> if c \<in> set ?upd then map_of vals c else bt_get old c)" for c
  proof -
    have "set ?upd \<subseteq> set (map fst vals)" unfolding cols by (auto simp: update_columns_def)
    then have "c \<in> set ?upd \<Longrightarrow> map_of vals c \<noteq> None" by (auto simp: map_of_eq_None_iff)
    then show ?thesis
      using d by (auto simp: written_row_def set_columns_get distinct_map_filter map_of_filter_key
          split: option.split)
  qed
  ultimately show ?thesis using that v i dc by blast
qed

section \<open>One entity\<close>

text \<open>What an entity asks to be stored in the column of a field: a string as it is, the hex digits
  of a byte string without their prefix, the text of any other value, and NULL for a value that
  is missing or null. PostgreSQL stores what its cast makes of the text.\<close>

fun value_text :: "(json \<Rightarrow> string) \<Rightarrow> string \<Rightarrow> json \<Rightarrow> string option" where
  "value_text js ty JNull = None"
| "value_text js ty (JBool b) = Some (if b then ''true'' else ''false'')"
| "value_text js ty (JNumber n) = Some n"
| "value_text js ty (JString s) =
     Some (if ty = ''Bytes'' \<and> take 2 s = ''0x'' then drop 2 s else s)"
| "value_text js ty v = Some (js v)"

definition field_value :: "pg_cast \<Rightarrow> (json \<Rightarrow> string) \<Rightarrow> json \<Rightarrow> entity_field \<Rightarrow> string option" where
  "field_value cast js entity f =
     Option.bind (Option.bind (json_get entity (ef_name f)) (value_text js (ef_base_type f))) (cast f)"

lemma encode_value_text: "encode js f v = Option.bind v (value_text js (ef_base_type f))"
proof (cases v)
  case (Some w)
  have "strip_hex_prefix s = (if take 2 s = ''0x'' then drop 2 s else s)" for s
    by (cases s rule: list.exhaust; cases "tl s")
      (auto simp: strip_hex_prefix_def strip_prefix_def)
  with Some show ?thesis by (cases w) (simp_all add: encode_def)
qed (simp add: encode_def)

lemma field_value_encode:
  "field_value cast js entity f = Option.bind (encode js f (json_get entity (ef_name f))) (cast f)"
  by (simp add: field_value_def encode_value_text)

lemma pg_value_entity:
  assumes "pg_value cast key ((f, c), encode js f (json_get entity (ef_name f))) = Inr y"
  shows "y = (c, field_value cast js entity f) \<and> (field_value cast js entity f = None \<longrightarrow> ef_nullable f)"
  using assms by (auto simp: pg_value_def field_value_encode split: option.splits if_splits)

lemma upsert_values:
  assumes "collect (pg_value cast key) (zip cols (upsert_params js cols entity)) = Inr vals"
  shows "vals = map (\<lambda>(f, c). (c, field_value cast js entity f)) cols"
    "(f, c) \<in> set cols \<Longrightarrow> field_value cast js entity f = None \<Longrightarrow> ef_nullable f"
proof -
  have "vals = map (\<lambda>(f, c). (c, field_value cast js entity f)) cols \<and>
     (\<forall>(f, c)\<in>set cols. field_value cast js entity f = None \<longrightarrow> ef_nullable f)"
    using assms
    by (induction cols arbitrary: vals)
      (auto simp: upsert_params_def rbind_eq_Inr dest!: pg_value_entity)
  then show "vals = map (\<lambda>(f, c). (c, field_value cast js entity f)) cols"
    "(f, c) \<in> set cols \<Longrightarrow> field_value cast js entity f = None \<Longrightarrow> ef_nullable f" by auto
qed

lemma write_statement_cases:
  assumes "dbind (db_execute (upsert_effect cast cols params)) dlift d = (r, d')"
  shows "db_tables d' = db_tables d \<and> (\<exists>e. r = Inl e) \<or>
     db_tables d' = snd (upsert_effect cast cols params (db_tables d)) \<and>
       (r = Inr () \<longrightarrow> fst (upsert_effect cast cols params (db_tables d)) = Inr ())"
  using assms
  by (auto simp: dbind_def dlift_def db_execute_def db_call_def split: fault.splits prod.splits sum.splits)

lemma upsert_one:
  assumes "upsert cast js m [entity] d = (Inr (), d')"
  shows "upsert_effect cast (sorted_columns m) (upsert_params js (sorted_columns m) entity) (db_tables d) =
    (Inr (), db_tables d')"
proof -
  have "dbind (db_execute (upsert_effect cast (sorted_columns m) (upsert_params js (sorted_columns m) entity)))
      dlift d = (Inr (), d')"
    using assms by (auto simp: upsert_def dbind_def dreturn_def split: prod.splits sum.splits)
  from write_statement_cases [OF this] show ?thesis by (auto simp: prod_eq_iff)
qed

lemma sorted_columns_set: "(f, c) \<in> set (sorted_columns m) \<longleftrightarrow> f \<in> set (pl_fields m) \<and> c = underscored (ef_name f)"
  by (auto simp: sorted_columns_def)

text \<open>C11: Writing refines the update of a map. A write of an entity that reports success, whatever
  the database did, keeps the table well formed and changes exactly one entry of the map from
  ids to rows: that of the value of the entity's field with the column \<open>id\<close>. In that row the
  column of every field has the value the entity gives the field, NULL only where the field
  takes it; a field of type ID, however, keeps the value it had when the row was there before.
  Every other column is as it was.\<close>

theorem upsert_refines_update:
  assumes "table_ok (db_tables d)" "upsert cast js m [entity] d = (Inr (), d')"
  shows "table_ok (db_tables d') \<and>
    (\<exists>i row key. key \<in> set (pl_fields m) \<and> underscored (ef_name key) = ''id'' \<and>
       field_value cast js entity key = Some i \<and>
       table_map (db_tables d') = (table_map (db_tables d))(i \<mapsto> row) \<and>
       (\<forall>f\<in>set (pl_fields m). field_value cast js entity f = None \<longrightarrow> ef_nullable f) \<and>
       (\<forall>f\<in>set (pl_fields m). bt_get row (underscored (ef_name f)) =
          (case table_map (db_tables d) i of
             None \<Rightarrow> Some (field_value cast js entity f)
           | Some old \<Rightarrow> if ef_base_type f = ''ID'' then bt_get old (underscored (ef_name f))
                         else Some (field_value cast js entity f))) \<and>
       (\<forall>c. c \<notin> (\<lambda>f. underscored (ef_name f)) ` set (pl_fields m) \<longrightarrow>
          bt_get row c = (case table_map (db_tables d) i of None \<Rightarrow> None | Some old \<Rightarrow> bt_get old c)))"
proof (rule upsert_effect_refines [OF assms(1) upsert_one [OF assms(2)]])
  let ?t = "db_tables d" and ?cols = "sorted_columns m"
  fix vals i row
  assume ok: "table_ok (db_tables d')" and d: "distinct (map snd ?cols)"
    and v: "collect (pg_value cast (et_key ?t)) (zip ?cols (upsert_params js ?cols entity)) = Inr vals"
    and i: "map_of vals ''id'' = Some (Some i)" and upd: "table_map (db_tables d') = (table_map ?t)(i \<mapsto> row)"
    and row: "\<And>c. bt_get row c = (case table_map ?t i of None \<Rightarrow> map_of vals c
         | Some old \<Rightarrow> if c \<in> set (update_columns ?cols) then map_of vals c else bt_get old c)"
  note vals = upsert_values(1) [OF v]
  have keys: "map fst vals = map snd ?cols" by (simp add: vals case_prod_unfold)
  have val: "map_of vals (underscored (ef_name f)) = Some (field_value cast js entity f)"
    if "f \<in> set (pl_fields m)" for f
  proof (rule map_of_is_SomeI)
    show "distinct (map fst vals)" using d keys by simp
    show "(underscored (ef_name f), field_value cast js entity f) \<in> set vals"
      using that by (force simp: vals sorted_columns_set)
  qed
  have other: "map_of vals c = None" if "c \<notin> (\<lambda>f. underscored (ef_name f)) ` set (pl_fields m)" for c
  proof -
    have "c \<notin> set (map snd ?cols)" using that by (auto simp: sorted_columns_set)
    then show ?thesis unfolding keys [symmetric] by (simp add: map_of_eq_None_iff)
  qed
  have column: "underscored (ef_name f) \<in> set (update_columns ?cols) \<longleftrightarrow> ef_base_type f \<noteq> ''ID''"
    if "f \<in> set (pl_fields m)" for f
  proof -
    have "(g, underscored (ef_name f)) \<in> set ?cols \<longleftrightarrow> g = f" for g
    proof
      assume "(g, underscored (ef_name f)) \<in> set ?cols"
      moreover have "(f, underscored (ef_name f)) \<in> set ?cols" using that by (simp add: sorted_columns_set)
      ultimately show "g = f" using d by (metis distinct_map inj_onD prod.inject snd_conv)
    qed (use that in \<open>simp add: sorted_columns_set\<close>)
    then show ?thesis by (force simp: update_columns_def)
  qed
  have outside: "c \<notin> set (update_columns ?cols)" if "c \<notin> (\<lambda>f. underscored (ef_name f)) ` set (pl_fields m)" for c
    using that by (auto simp: update_columns_def sorted_columns_set)
  have "(''id'', Some i) \<in> set vals" using i by (rule map_of_SomeD)
  then obtain key where "key \<in> set (pl_fields m)" "underscored (ef_name key) = ''id''"
    "field_value cast js entity key = Some i"
    by (auto simp: vals sorted_columns_set)
  moreover have "\<forall>f\<in>set (pl_fields m). field_value cast js entity f = None \<longrightarrow> ef_nullable f"
    using upsert_values(2) [OF v] by (auto simp: sorted_columns_set)
  ultimately show ?thesis
    using ok upd row val other column outside by (intro conjI exI [of _ i] exI [of _ row] exI [of _ key]) (auto split: option.split)
qed (simp add: upsert_params_def)

definition demo_field :: "string \<Rightarrow> string \<Rightarrow> entity_field" where
  "demo_field name ty = \<lparr>ef_name = name, ef_base_type = ty, ef_is_array = False, ef_nullable = False\<rparr>"

definition demo_account :: entity_model where
  "demo_account = \<lparr>em_name = ''Account'',
     em_fields = [demo_field ''id'' ''ID'', demo_field ''owner'' ''ID'', demo_field ''balance'' ''BigInt'']\<rparr>"

definition demo_transfer_model :: entity_model where
  "demo_transfer_model = \<lparr>em_name = ''Transfer'',
     em_fields = [demo_field ''fromId'' ''ID'', demo_field ''id'' ''ID'', demo_field ''amount'' ''BigInt'']\<rparr>"

definition demo_columns :: "(entity_field \<times> string) list" where
  "demo_columns = [(demo_field ''amount'' ''BigInt'', ''amount''), (demo_field ''fromId'' ''ID'', ''from_id''),
     (demo_field ''id'' ''ID'', ''id'')]"

definition demo_rows :: entity_table where
  "demo_rows = \<lparr>et_key = Some ''id'',
     et_rows = [[(''amount'', Some ''1''), (''from_id'', Some ''a''), (''id'', Some ''x'')]]\<rparr>"

lemma demo_columns: "sorted_columns (plain_model_new ''app'' demo_transfer_model) = demo_columns"
  by code_simp

lemma demo_write:
  "upsert_effect (\<lambda>f s. Some s) demo_columns [Some ''7'', Some ''b'', Some ''x''] demo_rows =
     (Inr (), \<lparr>et_key = Some ''id'',
       et_rows = [[(''amount'', Some ''7''), (''from_id'', Some ''a''), (''id'', Some ''x'')]]\<rparr>)"
  by code_simp

lemma demo_rows_ok: "table_ok demo_rows"
  by code_simp

definition demo_entity :: "string \<Rightarrow> string \<Rightarrow> string \<Rightarrow> json" where
  "demo_entity i from n = JObject [(''id'', JString i), (''fromId'', JString from), (''amount'', JNumber n)]"

lemma demo_upsert:
  "upsert (\<lambda>f s. Some s) (\<lambda>_. []) (plain_model_new ''app'' demo_transfer_model) [demo_entity ''x'' ''b'' ''7'']
     \<lparr>db_tables = demo_rows, db_faults = []\<rparr> =
   (Inr (), \<lparr>db_tables = \<lparr>et_key = Some ''id'',
       et_rows = [[(''amount'', Some ''7''), (''from_id'', Some ''a''), (''id'', Some ''x'')]]\<rparr>, db_faults = []\<rparr>)"
  by code_simp

lemma demo_upsert_values:
  "field_value (\<lambda>f s. Some s) (\<lambda>_. []) (demo_entity ''x'' ''b'' ''7'') (demo_field ''amount'' ''BigInt'') = Some ''7''"
  "underscored ''amount'' = ''amount''" "underscored ''fromId'' = ''from_id''" "underscored ''id'' = ''id''"
  "field_value (\<lambda>f s. Some s) (\<lambda>_. []) (demo_entity ''x'' ''b'' ''7'') (demo_field ''id'' ''ID'') = Some ''x''"
  by code_simp+

lemma demo_transfer_fields:
  "pl_fields (plain_model_new ''app'' demo_transfer_model) =
     [demo_field ''fromId'' ''ID'', demo_field ''id'' ''ID'', demo_field ''amount'' ''BigInt'']"
  by (simp add: plain_model_new_def demo_transfer_model_def)

text \<open>Transfer \<open>x\<close> is written again with another sender and another amount: the amount changes,
  the sender, whose type is ID, does not.\<close>

theorem upsert_refines_update_witness:
  "\<exists>row. table_map (db_tables (snd (upsert (\<lambda>f s. Some s) (\<lambda>_. []) (plain_model_new ''app'' demo_transfer_model)
       [demo_entity ''x'' ''b'' ''7''] \<lparr>db_tables = demo_rows, db_faults = []\<rparr>))) =
     (table_map demo_rows)(''x'' \<mapsto> row) \<and>
     bt_get row ''amount'' = Some (Some ''7'') \<and> bt_get row ''from_id'' = Some (Some ''a'')"
proof -
  let ?d = "\<lparr>db_tables = demo_rows, db_faults = []\<rparr>"
  let ?t = "\<lparr>et_key = Some ''id'',
     et_rows = [[(''amount'', Some ''7''), (''from_id'', Some ''a''), (''id'', Some ''x'')]]\<rparr>"
  let ?val = "field_value (\<lambda>f s. Some s) (\<lambda>_. []) (demo_entity ''x'' ''b'' ''7'')"
  have ok: "table_ok (db_tables ?d)" by (simp add: demo_rows_ok)
  have old: "table_map demo_rows ''x'' = Some [(''amount'', Some ''1''), (''from_id'', Some ''a''), (''id'', Some ''x'')]"
    by code_simp
  obtain i row key where key: "key \<in> set (pl_fields (plain_model_new ''app'' demo_transfer_model))"
    "underscored (ef_name key) = ''id''" "?val key = Some i"
    and row: "table_map ?t = (table_map demo_rows)(i \<mapsto> row)"
    and cols: "\<And>f. f \<in> set (pl_fields (plain_model_new ''app'' demo_transfer_model)) \<Longrightarrow>
      bt_get row (underscored (ef_name f)) =
          (case table_map demo_rows i of
             None \<Rightarrow> Some (?val f)
           | Some old \<Rightarrow> if ef_base_type f = ''ID'' then bt_get old (underscored (ef_name f)) else Some (?val f))"
    using upsert_refines_update [OF ok demo_upsert] by auto
  have names: "ef_name (demo_field n ty) = n" "ef_base_type (demo_field n ty) = ty" for n ty
    by (simp_all add: demo_field_def)
  have i: "i = ''x''" using key unfolding demo_transfer_fields
    by (auto simp: demo_upsert_values names)
  have "bt_get row ''amount'' = Some (Some ''7'')"
    using cols [of "demo_field ''amount'' ''BigInt''"] unfolding demo_transfer_fields i old
    by (simp add: demo_upsert_values names)
  moreover have "bt_get row ''from_id'' = Some (Some ''a'')"
    using cols [of "demo_field ''fromId'' ''ID''"] unfolding demo_transfer_fields i old
    by (simp add: demo_upsert_values names)
  ultimately show ?thesis using row unfolding i demo_upsert by auto
qed

text \<open>Writing converges: repeating a write that succeeded succeeds again and changes
  nothing.\<close>

theorem upsert_idempotent:
  assumes "table_ok t" "upsert_effect cast cols params t = (Inr (), t')" "length params = length cols"
  shows "\<exists>t''. upsert_effect cast cols params t' = (Inr (), t'') \<and> table_map t'' = table_map t'"
proof (rule upsert_effect_Inr [OF assms(2,3)])
  fix vals i
  let ?upd = "update_columns cols"
  assume v: "collect (pg_value cast (et_key t)) (zip cols params) = Inr vals"
    and i: "map_of vals ''id'' = Some (Some i)" and d: "distinct (map fst vals)"
    and cols: "map fst vals = map snd cols"
    and t': "t' = t\<lparr>et_rows := write_row i ?upd vals (et_rows t)\<rparr>"
    and ok: "?upd \<noteq> []" "distinct (map snd cols)" "et_key t = Some ''id''"
  let ?t'' = "t'\<lparr>et_rows := write_row i ?upd vals (et_rows t')\<rparr>"
  have again: "upsert_effect cast cols params t' = (Inr (), ?t'')"
    using v i ok by (simp add: upsert_effect_def t')
  let ?row = "written_row ?upd vals (table_map t i)"
  have row: "bt_ok ?row"
  proof (cases "table_map t i")
    case (Some r)
    then have "r \<in> set (et_rows t)"
      by (auto simp: table_map_def lookup_rows_def find_Some_iff)
    with Some assms(1) show ?thesis
      by (auto simp: written_row_def table_ok_def list_all_iff intro: set_columns_ok)
  qed (simp add: written_row_def set_columns_ok)
  have df: "distinct (map fst (filter (\<lambda>(c, v). c \<in> set ?upd) vals))"
    using d by (simp add: distinct_map_filter)
  have "set_columns (filter (\<lambda>(c, v). c \<in> set ?upd) vals) ?row = ?row"
  proof (rule bt.entries_cong)
    show "bt_get (set_columns (filter (\<lambda>(c, v). c \<in> set ?upd) vals) ?row) = bt_get ?row"
      using d df by (auto simp: fun_eq_iff set_columns_get map_of_filter_key written_row_def
          split: option.split)
  qed (simp_all add: row set_columns_ok)
  then have "table_map ?t'' = table_map t'"
    by (auto simp: table_map_def t' lookup_write_row [OF d i] written_row_def [of _ _ "Some _"]
        fun_eq_iff)
  with again show ?thesis by blast
qed

theorem upsert_idempotent_witness:
  "fst (upsert_effect (\<lambda>f s. Some s) demo_columns [Some ''7'', Some ''b'', Some ''x'']
     (snd (upsert_effect (\<lambda>f s. Some s) demo_columns [Some ''7'', Some ''b'', Some ''x''] demo_rows))) = Inr ()"
  using upsert_idempotent [OF demo_rows_ok demo_write] unfolding demo_write
  by (auto simp: demo_columns_def)

section \<open>Sequences of writes\<close>

text \<open>The tables after the statements of a list of entities, each as it comes out.\<close>

definition apply_writes ::
  "pg_cast \<Rightarrow> (json \<Rightarrow> string) \<Rightarrow> (entity_field \<times> string) list \<Rightarrow> json list \<Rightarrow> entity_table \<Rightarrow> entity_table" where
  "apply_writes cast js cols entities t =
     fold (\<lambda>e t. snd (upsert_effect cast cols (upsert_params js cols e) t)) entities t"

lemma apply_writes_simps [simp]:
  "apply_writes cast js cols [] t = t"
  "apply_writes cast js cols (e # es) t =
     apply_writes cast js cols es (snd (upsert_effect cast cols (upsert_params js cols e) t))"
  by (simp_all add: apply_writes_def)

lemma upsert_each_prefix:
  assumes "upsert_each cast js cols es d = (r, d')"
  shows "\<exists>k\<le>length es. db_tables d' = apply_writes cast js cols (take k es) (db_tables d) \<and>
      (r = Inr () \<longrightarrow> k = length es)"
  using assms
proof (induction es arbitrary: d)
  case Nil
  then show ?case by (simp add: dreturn_def)
next
  case (Cons e es)
  obtain r1 d1 where one:
    "dbind (db_execute (upsert_effect cast cols (upsert_params js cols e))) dlift d = (r1, d1)"
    by fastforce
  show ?case
  proof (cases r1)
    case (Inl err)
    with Cons.prems one have "r = Inl err" "d' = d1" by (auto simp: dbind_def)
    with write_statement_cases [OF one] show ?thesis
      by (auto intro: exI [of _ 0] exI [of _ 1])
  next
    case (Inr u)
    with Cons.prems one have "upsert_each cast js cols es d1 = (r, d')" by (auto simp: dbind_def)
    from Cons.IH [OF this] obtain k where "k \<le> length es"
      "db_tables d' = apply_writes cast js cols (take k es) (db_tables d1)" "r = Inr () \<longrightarrow> k = length es"
      by blast
    with write_statement_cases [OF one] Inr show ?thesis
      by (intro exI [of _ "Suc k"]) auto
  qed
qed

text \<open>A run that is cut after \<open>k\<close> statements: two calls of the driver each, and the next call fails.\<close>

lemma upsert_each_cut:
  assumes "k < length es" "fst (upsert_each cast js cols (take k es) \<lparr>db_tables = t, db_faults = []\<rparr>) = Inr ()"
  shows "upsert_each cast js cols es \<lparr>db_tables = t, db_faults = replicate (2 * k) Fine @ [Fails e]\<rparr> =
    (Inl e, \<lparr>db_tables = apply_writes cast js cols (take k es) t, db_faults = []\<rparr>)"
  using assms
proof (induction k arbitrary: es t)
  case 0
  then show ?case
    by (cases es) (simp_all add: dbind_def db_execute_def db_call_def next_fault_def drop_fault_def)
next
  case (Suc k)
  then obtain x xs where es: "es = x # xs" by (cases es) auto
  let ?e = "upsert_effect cast cols (upsert_params js cols x) t"
  have step: "fst ?e = Inr ()" "fst (upsert_each cast js cols (take k xs) \<lparr>db_tables = snd ?e, db_faults = []\<rparr>) = Inr ()"
    using Suc.prems(2)
    by (auto simp: es dbind_def dlift_def db_execute_def db_call_def next_fault_def drop_fault_def
        split: sum.splits prod.splits)
  with Suc.IH [of xs "snd ?e"] Suc.prems(1) show ?case
    by (simp add: es dbind_def dlift_def db_execute_def db_call_def next_fault_def drop_fault_def)
qed

text \<open>C37: A bulk write is a sequence of writes and no transaction. Whatever the database does,
  the table it leaves is that of the statements of some prefix of the entities, in order; only
  when it reports success is the prefix the whole list. And every proper prefix that can be
  written is left behind by some failure: there is a course of the database under which the bulk
  write reports the error and the table holds exactly the writes of that prefix.\<close>

theorem upsert_writes_prefix:
  "(case upsert cast js m entities d of
      (r, d') \<Rightarrow> \<exists>k\<le>length entities.
        db_tables d' = apply_writes cast js (sorted_columns m) (take k entities) (db_tables d) \<and>
        (r = Inr () \<longrightarrow> k = length entities)) \<and>
   (\<forall>k<length entities. fst (upsert cast js m (take k entities) \<lparr>db_tables = t, db_faults = []\<rparr>) = Inr () \<longrightarrow>
      (\<exists>faults d'. upsert cast js m entities \<lparr>db_tables = t, db_faults = faults\<rparr> = (Inl e, d') \<and>
         db_tables d' = apply_writes cast js (sorted_columns m) (take k entities) t))"
proof (intro conjI allI impI)
  show "case upsert cast js m entities d of (r, d') \<Rightarrow> \<exists>k\<le>length entities.
        db_tables d' = apply_writes cast js (sorted_columns m) (take k entities) (db_tables d) \<and>
        (r = Inr () \<longrightarrow> k = length entities)"
    using upsert_each_prefix [of cast js "sorted_columns m" entities d]
    by (cases "entities = []") (auto simp: upsert_def dreturn_def split: prod.split)
next
  fix k
  assume k: "k < length entities"
    and "fst (upsert cast js m (take k entities) \<lparr>db_tables = t, db_faults = []\<rparr>) = Inr ()"
  then have "fst (upsert_each cast js (sorted_columns m) (take k entities) \<lparr>db_tables = t, db_faults = []\<rparr>) = Inr ()"
    by (cases "k = 0"; cases entities) (auto simp: upsert_def dreturn_def)
  from upsert_each_cut [OF k this, of e] k
  show "\<exists>faults d'. upsert cast js m entities \<lparr>db_tables = t, db_faults = faults\<rparr> = (Inl e, d') \<and>
         db_tables d' = apply_writes cast js (sorted_columns m) (take k entities) t"
    by (intro exI) (auto simp: upsert_def)
qed

text \<open>Two entities, of which only the first is in the table when the answer is an error.\<close>

lemma demo_first_write:
  "fst (upsert (\<lambda>f s. Some s) (\<lambda>_. []) (plain_model_new ''app'' demo_transfer_model)
     (take 1 [demo_entity ''x'' ''a'' ''2'', demo_entity ''y'' ''a'' ''3'']) \<lparr>db_tables = demo_rows, db_faults = []\<rparr>) = Inr ()"
  "apply_writes (\<lambda>f s. Some s) (\<lambda>_. []) (sorted_columns (plain_model_new ''app'' demo_transfer_model))
     (take 1 [demo_entity ''x'' ''a'' ''2'', demo_entity ''y'' ''a'' ''3'']) demo_rows =
   \<lparr>et_key = Some ''id'',
      et_rows = [[(''amount'', Some ''2''), (''from_id'', Some ''a''), (''id'', Some ''x'')]]\<rparr>"
  by code_simp+

theorem upsert_writes_prefix_witness:
  "\<exists>faults d'. upsert (\<lambda>f s. Some s) (\<lambda>_. []) (plain_model_new ''app'' demo_transfer_model)
       [demo_entity ''x'' ''a'' ''2'', demo_entity ''y'' ''a'' ''3''] \<lparr>db_tables = demo_rows, db_faults = faults\<rparr> =
     (Inl (Pool ''down''), d') \<and>
   db_tables d' = \<lparr>et_key = Some ''id'',
      et_rows = [[(''amount'', Some ''2''), (''from_id'', Some ''a''), (''id'', Some ''x'')]]\<rparr>"
  using upsert_writes_prefix [THEN conjunct2, THEN spec, THEN mp, THEN mp, OF _ demo_first_write(1)]
  unfolding demo_first_write(2) by simp

section \<open>Removing and reading\<close>

lemma lookup_filter:
  "(\<And>r. row_id r = Some i \<Longrightarrow> P r) \<Longrightarrow> lookup_rows (filter P rows) i = lookup_rows rows i"
  by (induction rows) auto

lemma lookup_filter_out:
  "(\<And>r. row_id r = Some i \<Longrightarrow> \<not> P r) \<Longrightarrow> lookup_rows (filter P rows) i = None"
  by (induction rows) auto

text \<open>Removing refines the restriction of the map, and reading after a removal that was
  reported done, and not disturbed since, finds none of the removed entities and every other one
  as it was.\<close>

theorem remove_then_get:
  assumes "remove ids d = (Inr (), d')" "get m i d' = (Inr found, d'')"
  shows "found = (if i \<in> set ids then None
     else map_option (row_to_canonical (sorted_columns m)) (table_map (db_tables d) i))"
proof -
  let ?keep = "\<lambda>r. case row_id r of None \<Rightarrow> True | Some i \<Rightarrow> i \<notin> set ids"
  have tables: "db_tables d' = (db_tables d)\<lparr>et_rows := filter ?keep (et_rows (db_tables d))\<rparr>"
  proof (cases "ids = []")
    case True
    then have "?keep = (\<lambda>_. True)" by (auto split: option.split)
    with True assms(1) show ?thesis by (simp add: remove_def dreturn_def)
  next
    case False
    with assms(1) show ?thesis by (auto simp: remove_def dest!: db_execute_Inr)
  qed
  have "found = map_option (row_to_canonical (sorted_columns m)) (table_map (db_tables d') i)"
    using assms(2) by (auto simp: get_def Let_def table_map_def lookup_rows_def dest!: db_query_Inr)
  also have "table_map (db_tables d') i = (if i \<in> set ids then None else table_map (db_tables d) i)"
    using lookup_filter [of i ?keep] lookup_filter_out [of i ?keep] by (simp add: table_map_def tables)
  finally show ?thesis by simp
qed

lemma demo_remove:
  "remove [''y''] \<lparr>db_tables = demo_rows, db_faults = []\<rparr> = (Inr (), \<lparr>db_tables = demo_rows, db_faults = []\<rparr>)"
  by code_simp

lemma demo_get:
  "get (plain_model_new ''app'' demo_transfer_model) ''x'' \<lparr>db_tables = demo_rows, db_faults = []\<rparr> =
     (Inr (Some [(''amount'', Some ''1''), (''from_id'', Some ''a''), (''id'', Some ''x'')]),
      \<lparr>db_tables = demo_rows, db_faults = []\<rparr>)"
  by code_simp

theorem remove_then_get_witness:
  "map_option (row_to_canonical demo_columns) (table_map demo_rows ''x'') =
     Some [(''amount'', Some ''1''), (''from_id'', Some ''a''), (''id'', Some ''x'')]"
  using remove_then_get [OF demo_remove demo_get] unfolding demo_columns by simp

section \<open>Which schemas can be written\<close>

lemma create_table_key:
  assumes "create_table model schema = Inr sql"
  shows "\<exists>cols. table_columns (em_fields model) [] None = Inr (cols, primary_key model)"
  using assms table_columns_key [of "em_fields model" "[]" None]
  by (fastforce simp: create_table_def rbind_eq_Inr primary_key_def Let_def)

text \<open>C38: A table made from a model can be written only when the model's last field of the type
  ID is the one called \<open>id\<close>, some field has another type, and no two fields share a column.
  The table of any other model is created without complaint, but every write to it fails: the
  statement names the column \<open>id\<close> as its conflict target, while the key is the last ID field.\<close>

theorem writable_schemas:
  assumes "et_key t = primary_key model"
    "upsert_effect cast (sorted_columns (plain_model_new schema model)) params t = (Inr (), t')"
  shows "(\<exists>f fs. filter (\<lambda>f. ef_base_type f = ''ID'') (em_fields model) = fs @ [f] \<and>
       underscored (ef_name f) = ''id'') \<and>
     (\<exists>f\<in>set (em_fields model). ef_base_type f \<noteq> ''ID'') \<and>
     distinct (map (\<lambda>f. underscored (ef_name f)) (em_fields model))"
proof -
  let ?cols = "sorted_columns (plain_model_new schema model)"
  have key: "primary_key model = Some ''id''" and upd: "update_columns ?cols \<noteq> []"
    and dist: "distinct (map snd ?cols)"
    using assms by (auto simp: upsert_effect_def split: if_splits)
  have cols: "set ?cols = (\<lambda>f. (f, underscored (ef_name f))) ` set (em_fields model)"
    by (simp add: sorted_columns_def plain_model_new_def)
  have "mset (map snd ?cols) = mset (map (\<lambda>f. underscored (ef_name f)) (em_fields model))"
    by (simp add: sorted_columns_def plain_model_new_def multiset.map_comp comp_def)
  with dist have "distinct (map (\<lambda>f. underscored (ef_name f)) (em_fields model))"
    by (metis mset_eq_imp_distinct_iff)
  moreover have "\<exists>f\<in>set (em_fields model). ef_base_type f \<noteq> ''ID''"
    using upd cols by (fastforce simp: update_columns_def filter_empty_conv)
  moreover have "\<exists>f fs. filter (\<lambda>f. ef_base_type f = ''ID'') (em_fields model) = fs @ [f] \<and>
       underscored (ef_name f) = ''id''"
  proof (cases "filter (\<lambda>f. ef_base_type f = ''ID'') (em_fields model)" rule: rev_cases)
    case Nil
    with key show ?thesis by (simp add: primary_key_def fold_next_key)
  next
    case (snoc fs f)
    then have "primary_key model = Some (underscored (ef_name f))"
      by (cases fs) (simp_all add: primary_key_def fold_next_key)
    with key snoc show ?thesis by simp
  qed
  ultimately show ?thesis by blast
qed

theorem writable_schemas_witness:
  "distinct (map (\<lambda>f. underscored (ef_name f)) (em_fields demo_transfer_model)) \<and>
   fst (upsert_effect (\<lambda>f s. Some s) (sorted_columns (plain_model_new ''app'' demo_account))
      [Some ''5'', Some ''x'', Some ''o''] \<lparr>et_key = primary_key demo_account, et_rows = []\<rparr>) \<noteq> Inr ()"
proof -
  have key: "et_key demo_rows = primary_key demo_transfer_model" by code_simp
  have "primary_key demo_account = Some ''owner''" by code_simp
  then have "fst (upsert_effect (\<lambda>f s. Some s) (sorted_columns (plain_model_new ''app'' demo_account))
      [Some ''5'', Some ''x'', Some ''o''] \<lparr>et_key = primary_key demo_account, et_rows = []\<rparr>) \<noteq> Inr ()"
    by (simp add: upsert_effect_def)
  with writable_schemas [OF key demo_write [folded demo_columns]] show ?thesis by blast
qed

text \<open>The order column of a query is quoted but neither escaped nor looked up in the fields: a
  quote in it ends the column name.\<close>

lemma order_by_unchecked:
  "get_by_fields_sql (\<lambda>_. []) (plain_model_new ''app'' demo_transfer_model) []
      \<lparr>qo_order_by = ''id'' @ [dquote] @ '' desc, '' @ [dquote] @ ''secret'', qo_order_direction = Asc,
       qo_limit = 1, qo_offset = 0\<rparr> =
   Inr (''SELECT '' @ projection demo_columns @ '' FROM '' @ quoted ''app'' @ ''.'' @ quoted ''transfers'' @
     ''  ORDER BY '' @ quoted ''id'' @ '' desc, '' @ quoted ''secret'' @ '' ASC LIMIT 1 OFFSET 0'', [])"
  by code_simp

end
