(* ===== verification/Sq_EntityQuery.thy ===== *)
theory Sq_EntityQuery
  imports Sq_EntityStore
begin

text \<open>
  Queries over entities, \<open>PlainModel::get_by_fields\<close> of \<open>crates/store/src/entity.rs\<close>: which
  rows the statement selects, in which order, and what a caller that pages through them sees.
  What PostgreSQL leaves to the type, the collation and the planner is a parameter: the casts,
  the equality of a type, the sort keys of the collation, the order of rows that tie (it may differ from
  statement to statement), and whether a refused cast of a parameter is noticed when no row
  needs it. The order column is also the name of an output column, and PostgreSQL then sorts by
  the output column, which is the text of the value.
\<close>

section \<open>The statement\<close>

record pg_query =
  pq_cast :: pg_cast
  pq_equal :: "entity_field \<Rightarrow> string \<Rightarrow> string \<Rightarrow> bool"
  pq_key :: "string \<Rightarrow> string"
  pq_arrange :: "string \<Rightarrow> string \<Rightarrow> order_dir \<Rightarrow> canonical_row list \<Rightarrow> canonical_row list"
  pq_notices :: "string \<Rightarrow> entity_table \<Rightarrow> bool"
  pq_other :: "string \<Rightarrow> string option list \<Rightarrow> entity_table \<Rightarrow> store_error + canonical_row list"

definition filter_value :: "(json \<Rightarrow> string) \<Rightarrow> plain_model \<Rightarrow> string \<times> json \<Rightarrow> (entity_field \<times> string) option" where
  "filter_value js m c =
     (case c of (name, v) \<Rightarrow>
        Option.bind (List.find (\<lambda>f. ef_name f = name) (pl_fields m)) (\<lambda>f.
          map_option (\<lambda>s. (f, s)) (encode js f (Some v))))"

text \<open>\<open>col = $n\<close> is not true when either side is NULL.\<close>

definition condition_holds :: "pg_query \<Rightarrow> (json \<Rightarrow> string) \<Rightarrow> plain_model \<Rightarrow> canonical_row \<Rightarrow> string \<times> json \<Rightarrow> bool" where
  "condition_holds pg js m row c =
     (case filter_value js m c of
        None \<Rightarrow> False
      | Some (f, s) \<Rightarrow>
          (case (pq_cast pg f s, bt_get row (underscored (fst c))) of
             (Some w, Some (Some stored)) \<Rightarrow> pq_equal pg f stored w
           | _ \<Rightarrow> False))"

definition refused_condition :: "pg_query \<Rightarrow> (json \<Rightarrow> string) \<Rightarrow> plain_model \<Rightarrow> string \<times> json \<Rightarrow> bool" where
  "refused_condition pg js m c =
     (case filter_value js m c of None \<Rightarrow> False | Some (f, s) \<Rightarrow> pq_cast pg f s = None)"

definition selected_rows ::
  "pg_query \<Rightarrow> (json \<Rightarrow> string) \<Rightarrow> plain_model \<Rightarrow> (string \<times> json) list \<Rightarrow> entity_table \<Rightarrow> canonical_row list" where
  "selected_rows pg js m filters t = filter (\<lambda>row. list_all (condition_holds pg js m row) filters) (et_rows t)"

text \<open>A quote in the order column ends the name: the text is then another statement.\<close>

definition select_effect ::
  "pg_query \<Rightarrow> (json \<Rightarrow> string) \<Rightarrow> plain_model \<Rightarrow> (string \<times> json) list \<Rightarrow> query_options \<Rightarrow>
     string \<Rightarrow> string option list \<Rightarrow> entity_table \<Rightarrow> store_error + canonical_row list" where
  "select_effect pg js m filters opts sql params t =
     (let order_col = underscored (qo_order_by opts)
      in if dquote \<in> set order_col then pq_other pg sql params t
         else if order_col \<notin> set (map snd (sorted_columns m)) then Inl (Postgres ''column does not exist'')
         else if qo_limit opts < 0 then Inl (Postgres ''LIMIT must not be negative'')
         else if qo_offset opts < 0 then Inl (Postgres ''OFFSET must not be negative'')
         else if list_ex (refused_condition pg js m) filters \<and> pq_notices pg sql t
         then Inl (Postgres ''invalid input syntax'')
         else Inr (take (nat (qo_limit opts)) (drop (nat (qo_offset opts))
                (pq_arrange pg sql order_col (qo_order_direction opts) (selected_rows pg js m filters t)))))"

definition get_by_fields ::
  "pg_query \<Rightarrow> (json \<Rightarrow> string) \<Rightarrow> plain_model \<Rightarrow> (string \<times> json) list \<Rightarrow> query_options \<Rightarrow>
     (entity_table, canonical_row list) db_action" where
  "get_by_fields pg js m filters opts =
     (case get_by_fields_sql js m filters opts of
        Inl e \<Rightarrow> dfail e
      | Inr (sql, params) \<Rightarrow>
          dbind (dbind (db_query (select_effect pg js m filters opts sql params)) dlift) (\<lambda>rows.
            dreturn (map (row_to_canonical (sorted_columns m)) rows)))"

section \<open>What PostgreSQL promises of an order\<close>

definition row_text :: "string \<Rightarrow> canonical_row \<Rightarrow> string option" where
  "row_text col row = (case bt_get row col of Some v \<Rightarrow> v | None \<Rightarrow> None)"

text \<open>What a row is sorted by: NULL counts as greater than every text, so that it comes last in
  ascending order and first in descending order.\<close>

datatype sort_value = SortText string | SortNull

instantiation sort_value :: linorder
begin

fun less_eq_sort_value :: "sort_value \<Rightarrow> sort_value \<Rightarrow> bool" where
  "less_eq_sort_value _ SortNull = True"
| "less_eq_sort_value SortNull (SortText _) = False"
| "less_eq_sort_value (SortText a) (SortText b) = (a \<le> b)"

definition less_sort_value :: "sort_value \<Rightarrow> sort_value \<Rightarrow> bool" where
  "less_sort_value a b = (a \<le> b \<and> \<not> b \<le> a)"

instance
proof
  fix a b c :: sort_value
  show "a < b \<longleftrightarrow> a \<le> b \<and> \<not> b \<le> a" by (rule less_sort_value_def)
  show "a \<le> a" by (cases a) simp_all
  show "a \<le> c" if "a \<le> b" "b \<le> c" using that by (cases a; cases b; cases c) auto
  show "a = b" if "a \<le> b" "b \<le> a" using that by (cases a; cases b) auto
  show "a \<le> b \<or> b \<le> a" by (cases a; cases b) auto
qed

end

definition sort_value_of :: "pg_query \<Rightarrow> string \<Rightarrow> canonical_row \<Rightarrow> sort_value" where
  "sort_value_of pg col row =
     (case row_text col row of None \<Rightarrow> SortNull | Some s \<Rightarrow> SortText (pq_key pg s))"

fun row_before :: "pg_query \<Rightarrow> string \<Rightarrow> order_dir \<Rightarrow> canonical_row \<Rightarrow> canonical_row \<Rightarrow> bool" where
  "row_before pg col Asc r1 r2 = (sort_value_of pg col r1 \<le> sort_value_of pg col r2)"
| "row_before pg col Desc r1 r2 = (sort_value_of pg col r2 \<le> sort_value_of pg col r1)"

text \<open>The keys tell any two texts apart, as those of the deterministic collations of PostgreSQL do.\<close>

definition pg_sorts :: "pg_query \<Rightarrow> bool" where
  "pg_sorts pg =
     (inj (pq_key pg) \<and>
      (\<forall>sql col dir rows. mset (pq_arrange pg sql col dir rows) = mset rows \<and>
         sorted_wrt (row_before pg col dir) (pq_arrange pg sql col dir rows)))"

lemma pg_sortsD:
  assumes "pg_sorts pg"
  shows "inj (pq_key pg)" "mset (pq_arrange pg sql col dir rows) = mset rows"
    "sorted_wrt (row_before pg col dir) (pq_arrange pg sql col dir rows)"
  using assms by (simp_all add: pg_sorts_def)

lemma arrange_set: "pg_sorts pg \<Longrightarrow> set (pq_arrange pg sql col dir rows) = set rows"
  using pg_sortsD(2) by (metis set_mset_mset)

section \<open>Answers\<close>

lemma where_parts_unknown:
  "(\<exists>e. where_parts js m filters parts params = Inl e) \<longleftrightarrow>
     \<not> fst ` set filters \<subseteq> ef_name ` set (pl_fields m)"
proof (induction js m filters parts params rule: where_parts.induct)
  case (2 js m name v filters parts params)
  show ?case
  proof (cases "List.find (\<lambda>f. ef_name f = name) (pl_fields m)")
    case None
    then have "name \<notin> ef_name ` set (pl_fields m)" by (auto simp: find_None_iff)
    with None show ?thesis by simp
  next
    case (Some f)
    then have "name \<in> ef_name ` set (pl_fields m)" by (auto simp: find_Some_iff)
    moreover have "ok_or (List.find (\<lambda>f. ef_name f = name) (pl_fields m))
        (UnsupportedType (''unknown field '' @ name)) = Inr f" by (simp add: Some)
    ultimately show ?thesis using 2 [OF _ refl refl, of f] by simp
  qed
qed simp

lemma get_by_fields_Inr:
  assumes "get_by_fields pg js m filters opts d = (Inr rows, d')"
  obtains sql params picked where "get_by_fields_sql js m filters opts = Inr (sql, params)"
    "select_effect pg js m filters opts sql params (db_tables d) = Inr picked"
    "rows = map (row_to_canonical (sorted_columns m)) picked"
proof -
  obtain sql params where sql: "get_by_fields_sql js m filters opts = Inr (sql, params)"
    using assms by (auto simp: get_by_fields_def dfail_def split: sum.splits)
  obtain picked d1 where "dbind (db_query (select_effect pg js m filters opts sql params)) dlift d = (Inr picked, d1)"
    "rows = map (row_to_canonical (sorted_columns m)) picked"
    using assms by (auto simp: get_by_fields_def sql dbind_Inr dreturn_def)
  moreover from this(1) have "select_effect pg js m filters opts sql params (db_tables d) = Inr picked"
    by (auto simp: dbind_Inr dlift_def dest!: db_query_Inr)
  ultimately show thesis using that sql by blast
qed

lemma get_by_fields_reads: "reads.keeps (get_by_fields pg js m filters opts)"
  unfolding get_by_fields_def
  by (auto intro!: reads.keeps_bind reads.keeps_query reads.keeps_lift reads.keeps_return split: sum.split)

text \<open>An unknown field is refused before the database is asked.\<close>

lemma unknown_field_refused:
  assumes "\<not> fst ` set filters \<subseteq> ef_name ` set (pl_fields m)"
  shows "\<exists>e. get_by_fields pg js m filters opts d = (Inl e, d)"
proof -
  obtain e where "where_parts js m filters [] [] = Inl e" using assms where_parts_unknown by blast
  then show ?thesis by (simp add: get_by_fields_def get_by_fields_sql_def dfail_def)
qed

text \<open>A filter by null selects nothing, not the rows in which the field is NULL.\<close>

lemma null_filter_selects_nothing:
  assumes "JNull \<in> snd ` set filters"
  shows "selected_rows pg js m filters t = []"
proof -
  have "\<not> condition_holds pg js m row (name, JNull)" for row name
    by (auto simp: condition_holds_def filter_value_def encode_def split: bind_splits)
  with assms show ?thesis by (fastforce simp: selected_rows_def filter_empty_conv list_all_iff)
qed

text \<open>Every row of an answer is a row of the table that meets all conditions, and there are no
  more than asked for.\<close>

lemma answer_selected:
  assumes "pg_sorts pg" "get_by_fields pg js m filters opts d = (Inr rows, d')"
    "dquote \<notin> set (underscored (qo_order_by opts))"
  shows "set rows \<subseteq> row_to_canonical (sorted_columns m) ` set (selected_rows pg js m filters (db_tables d))"
    "int (length rows) \<le> qo_limit opts"
proof -
  obtain sql where "0 \<le> qo_limit opts" "rows = map (row_to_canonical (sorted_columns m))
      (take (nat (qo_limit opts)) (drop (nat (qo_offset opts)) (pq_arrange pg sql (underscored (qo_order_by opts))
        (qo_order_direction opts) (selected_rows pg js m filters (db_tables d)))))"
    using assms(3) by (rule_tac get_by_fields_Inr [OF assms(2)]) (auto simp: select_effect_def Let_def split: if_splits)
  then show "set rows \<subseteq> row_to_canonical (sorted_columns m) ` set (selected_rows pg js m filters (db_tables d))"
    "int (length rows) \<le> qo_limit opts"
    using arrange_set [OF assms(1)] by (auto dest!: in_set_takeD in_set_dropD)
qed

section \<open>Paging\<close>

lemma sorted_wrt_unique:
  assumes "mset xs = mset ys" "sorted_wrt R xs" "sorted_wrt R ys"
    "\<And>x y. x \<in> set xs \<Longrightarrow> y \<in> set xs \<Longrightarrow> R x y \<Longrightarrow> R y x \<Longrightarrow> x = y"
  shows "xs = ys"
  using assms
proof (induction xs arbitrary: ys)
  case (Cons x xs)
  then obtain y zs where ys: "ys = y # zs" by (cases ys) auto
  have sets: "set (x # xs) = set (y # zs)" using Cons.prems(1) ys by (metis set_mset_mset)
  have "x = y"
  proof (rule ccontr)
    assume ne: "x \<noteq> y"
    with sets have "y \<in> set xs" "x \<in> set zs" by auto
    with Cons.prems(2,3) ys have "R x y" "R y x" by auto
    with ne Cons.prems(4) [of x y] \<open>y \<in> set xs\<close> show False by simp
  qed
  with Cons.prems ys show ?case by (auto intro: Cons.IH)
qed simp

lemma antisym_by_id:
  assumes "inj (pq_key pg)" "distinct (map row_id rows)" "None \<notin> set (map row_id rows)"
    "x \<in> set rows" "y \<in> set rows" "row_before pg ''id'' dir x y" "row_before pg ''id'' dir y x"
  shows "x = y"
proof -
  have "row_text ''id'' r = row_id r" for r by (simp add: row_text_def row_id_def)
  moreover obtain a b where "row_id x = Some a" "row_id y = Some b"
    using assms(3-5) by (metis image_eqI not_None_eq set_map)
  moreover have "sort_value_of pg ''id'' x = sort_value_of pg ''id'' y" using assms(6,7) by (cases dir) auto
  ultimately have "row_id x = row_id y" using assms(1) by (simp add: sort_value_of_def inj_eq)
  with assms(2,4,5) show ?thesis by (simp add: distinct_map inj_on_def)
qed

lemma pages_concat: "concat (map (\<lambda>k. take n (drop (k * n) xs)) [0..<K]) = take (K * n) xs"
  by (induction K) (simp_all add: take_add add.commute [of n])

text \<open>C12: Paging by the identifier is complete. A mapping that reads a table, which does not change
  meanwhile, page after page, with an order by the identifier, is given every selected entity
  exactly once: the pages one after the other are one list, which does not depend on how
  PostgreSQL arranges the answer to each statement.\<close>

theorem paging_by_id_complete:
  assumes "pg_sorts pg" "table_ok t" "underscored (qo_order_by opts) = ''id''" "qo_limit opts = int n"
    "\<And>k. k < K \<Longrightarrow> \<exists>d d'. db_tables d = t \<and>
       get_by_fields pg js m filters (opts\<lparr>qo_offset := int (k * n)\<rparr>) d = (Inr (pages k), d')"
    "length (selected_rows pg js m filters t) \<le> K * n"
  shows "mset (concat (map pages [0..<K])) =
    image_mset (row_to_canonical (sorted_columns m)) (mset (selected_rows pg js m filters t))"
proof -
  let ?rows = "selected_rows pg js m filters t" and ?canon = "row_to_canonical (sorted_columns m)"
  define L where "L = pq_arrange pg [] ''id'' (qo_order_direction opts) ?rows"
  have L: "pq_arrange pg sql ''id'' (qo_order_direction opts) ?rows = L" for sql
  proof (rule sorted_wrt_unique [where R = "row_before pg ''id'' (qo_order_direction opts)"])
    fix x y
    assume "x \<in> set (pq_arrange pg sql ''id'' (qo_order_direction opts) ?rows)"
      "y \<in> set (pq_arrange pg sql ''id'' (qo_order_direction opts) ?rows)"
    then have "x \<in> set (et_rows t)" "y \<in> set (et_rows t)"
      by (simp_all add: arrange_set [OF assms(1)] selected_rows_def)
    then show "row_before pg ''id'' (qo_order_direction opts) x y \<Longrightarrow>
        row_before pg ''id'' (qo_order_direction opts) y x \<Longrightarrow> x = y"
      using antisym_by_id [OF pg_sortsD(1) [OF assms(1)]] assms(2) by (metis table_ok_def)
  qed (simp_all add: L_def pg_sortsD [OF assms(1)])
  have "pages k = map ?canon (take n (drop (k * n) L))" if k: "k < K" for k
  proof -
    obtain d d' where d: "db_tables d = t"
      "get_by_fields pg js m filters (opts\<lparr>qo_offset := int (k * n)\<rparr>) d = (Inr (pages k), d')"
      using assms(5) [OF k] by blast
    show ?thesis
      using d(1) assms(3,4)
      by (rule_tac get_by_fields_Inr [OF d(2)])
        (auto simp: select_effect_def Let_def L dquote_def nat_int simp flip: of_nat_mult split: if_splits)
  qed
  then have "map pages [0..<K] = map (\<lambda>k. map ?canon (take n (drop (k * n) L))) [0..<K]" by simp
  then have "concat (map pages [0..<K]) = map ?canon (concat (map (\<lambda>k. take n (drop (k * n) L)) [0..<K]))"
    by (simp only: map_concat map_map comp_def)
  also have "\<dots> = map ?canon L"
    using assms(6) pg_sortsD(2) [OF assms(1)] by (simp add: pages_concat L_def flip: size_mset)
  finally show ?thesis by (simp add: L_def pg_sortsD(2) [OF assms(1)])
qed

section \<open>A database that sorts\<close>

text \<open>Texts in the order of their characters, ties as the rows come.\<close>

definition demo_sort :: "string \<Rightarrow> canonical_row \<Rightarrow> sort_value" where
  "demo_sort col row = (case row_text col row of None \<Rightarrow> SortNull | Some s \<Rightarrow> SortText s)"

definition demo_pg :: pg_query where
  "demo_pg = \<lparr>pq_cast = (\<lambda>_ s. Some s), pq_equal = (\<lambda>_. (=)), pq_key = (\<lambda>s. s),
     pq_arrange = (\<lambda>_ col dir rows. case dir of
        Asc \<Rightarrow> sort_key (demo_sort col) rows | Desc \<Rightarrow> rev (sort_key (demo_sort col) rows)),
     pq_notices = (\<lambda>_ _. True), pq_other = (\<lambda>_ _ _. Inr [])\<rparr>"

lemma demo_pg_sorts: "pg_sorts demo_pg"
proof -
  have key: "pq_key demo_pg = (\<lambda>s. s)" by (simp add: demo_pg_def)
  then have "sort_value_of demo_pg = demo_sort"
    by (intro ext) (simp add: sort_value_of_def demo_sort_def split: option.split)
  then have "row_before demo_pg col Asc = (\<lambda>x y. demo_sort col x \<le> demo_sort col y)"
    "row_before demo_pg col Desc = (\<lambda>x y. demo_sort col y \<le> demo_sort col x)" for col
    by (simp_all add: fun_eq_iff)
  moreover have "sorted_wrt (\<lambda>x y. demo_sort col x \<le> demo_sort col y) (sort_key (demo_sort col) rows)" for col rows
    using sorted_sort_key [of "demo_sort col" rows] by (simp add: sorted_wrt_map)
  moreover have "inj (pq_key demo_pg)" by (simp add: key)
  moreover have "pq_arrange demo_pg = (\<lambda>_ col dir rows. case dir of
      Asc \<Rightarrow> sort_key (demo_sort col) rows | Desc \<Rightarrow> rev (sort_key (demo_sort col) rows))"
    by (simp add: demo_pg_def)
  ultimately show ?thesis by (simp add: pg_sorts_def sorted_wrt_rev split: order_dir.split)
qed

definition demo_transfer :: "string \<Rightarrow> string \<Rightarrow> canonical_row" where
  "demo_transfer i amount = [(''amount'', Some amount), (''from_id'', Some ''a''), (''id'', Some i)]"

definition demo_transfers :: entity_table where
  "demo_transfers = \<lparr>et_key = Some ''id'',
     et_rows = [demo_transfer ''y'' ''10'', demo_transfer ''z'' ''9'', demo_transfer ''x'' ''9'']\<rparr>"

definition demo_query :: "string \<Rightarrow> order_dir \<Rightarrow> query_options" where
  "demo_query col dir = \<lparr>qo_order_by = col, qo_order_direction = dir, qo_limit = 2, qo_offset = 0\<rparr>"

definition demo_page :: "nat \<Rightarrow> canonical_row list" where
  "demo_page k = (if k = 0 then [demo_transfer ''z'' ''9'', demo_transfer ''y'' ''10''] else [demo_transfer ''x'' ''9''])"

lemma demo_pages:
  "get_by_fields demo_pg (\<lambda>_. []) (plain_model_new ''app'' demo_transfer_model) []
     (demo_query ''id'' Desc\<lparr>qo_offset := int (0 * 2)\<rparr>) \<lparr>db_tables = demo_transfers, db_faults = []\<rparr> =
   (Inr (demo_page 0), \<lparr>db_tables = demo_transfers, db_faults = []\<rparr>)"
  "get_by_fields demo_pg (\<lambda>_. []) (plain_model_new ''app'' demo_transfer_model) []
     (demo_query ''id'' Desc\<lparr>qo_offset := int (1 * 2)\<rparr>) \<lparr>db_tables = demo_transfers, db_faults = []\<rparr> =
   (Inr (demo_page 1), \<lparr>db_tables = demo_transfers, db_faults = []\<rparr>)"
  by code_simp+

lemma paging_by_id_complete_witness:
  "mset (concat (map demo_page [0..<2])) =
     image_mset (row_to_canonical demo_columns) (mset (et_rows demo_transfers))"
proof -
  let ?m = "plain_model_new ''app'' demo_transfer_model"
  have ok: "table_ok demo_transfers" by code_simp
  have order: "underscored (qo_order_by (demo_query ''id'' Desc)) = ''id''" "qo_limit (demo_query ''id'' Desc) = int 2"
    by code_simp+
  have rows: "selected_rows demo_pg (\<lambda>_. []) ?m [] demo_transfers = et_rows demo_transfers"
    by (simp add: selected_rows_def)
  have two: "k < 2 \<Longrightarrow> \<exists>d d'. db_tables d = demo_transfers \<and>
      get_by_fields demo_pg (\<lambda>_. []) ?m [] (demo_query ''id'' Desc\<lparr>qo_offset := int (k * 2)\<rparr>) d = (Inr (demo_page k), d')"
    for k
    using demo_pages by (cases "k = 0") (auto simp: less_2_cases_iff intro!: exI [of _ "\<lparr>db_tables = demo_transfers, db_faults = []\<rparr>"])
  have "length (selected_rows demo_pg (\<lambda>_. []) ?m [] demo_transfers) \<le> 2 * 2"
    unfolding rows by (simp add: demo_transfers_def)
  from paging_by_id_complete [OF demo_pg_sorts ok order two this] show ?thesis
    by (simp add: rows demo_columns)
qed

text \<open>The amounts 9 and 10 come out in the order of their texts.\<close>

lemma order_is_textual:
  "fst (get_by_fields demo_pg (\<lambda>_. []) (plain_model_new ''app'' demo_transfer_model) [] (demo_query ''amount'' Asc)
     \<lparr>db_tables = demo_transfers, db_faults = []\<rparr>) = Inr [demo_transfer ''y'' ''10'', demo_transfer ''z'' ''9'']"
  by code_simp

end
