(* ===== verification/Sq_Shutdown.thy ===== *)
theory Sq_Shutdown
  imports Main
begin

text \<open>
  The shutdown signal, \<open>bins/superquery-node/src/shutdown.rs\<close>. A cancellation token is an entry
  of the store of tokens, so that clones of a signal share it; cancelled tokens stay cancelled.
  What the operating system delivers is the list of answers of \<open>wait_for_signal\<close>; a list that
  ends is a wait that goes on.
\<close>

type_synonym tokens = "nat \<Rightarrow> bool"

record shutdown =
  sd_token :: nat

definition shutdown_new :: "nat \<Rightarrow> tokens \<Rightarrow> shutdown \<times> tokens" where
  "shutdown_new fresh ts = (\<lparr>sd_token = fresh\<rparr>, ts(fresh := False))"

definition shutdown_clone :: "shutdown \<Rightarrow> shutdown" where
  "shutdown_clone s = \<lparr>sd_token = sd_token s\<rparr>"

definition shutdown_trigger :: "shutdown \<Rightarrow> tokens \<Rightarrow> tokens" where
  "shutdown_trigger s ts = ts(sd_token s := True)"

text \<open>\<open>recv\<close> returns when the token is cancelled, and at once when it already is.\<close>

definition recv_returns :: "shutdown \<Rightarrow> tokens \<Rightarrow> bool" where
  "recv_returns s ts = ts (sd_token s)"

fun listen_for_signals :: "shutdown \<Rightarrow> (string + string) list \<Rightarrow> tokens \<Rightarrow> tokens \<times> int option" where
  "listen_for_signals s [] ts = (ts, None)"
| "listen_for_signals s (Inl e # rest) ts = (ts, None)"
| "listen_for_signals s (Inr name # rest) ts =
     (shutdown_trigger s ts,
      case rest of Inr again # _ \<Rightarrow> Some 130 | _ \<Rightarrow> None)"

text \<open>Every clone sees the first signal, also one that subscribes late; the process is only killed
  by a second signal, when shutdown has been requested.\<close>

lemma listen_wakes_clones:
  assumes "listen_for_signals (shutdown_clone s) signals ts = (ts', exit)"
  shows "recv_returns s ts' \<longleftrightarrow> recv_returns s ts \<or> (\<exists>name rest. signals = Inr name # rest)"
    and "exit \<noteq> None \<Longrightarrow> recv_returns s ts'"
  using assms
  by (cases "(shutdown_clone s, signals, ts)" rule: listen_for_signals.cases;
      auto simp: recv_returns_def shutdown_trigger_def shutdown_clone_def split: list.splits sum.splits)+

lemma trigger_other: "sd_token r \<noteq> sd_token s \<Longrightarrow> recv_returns r (shutdown_trigger s ts) = recv_returns r ts"
  by (simp add: recv_returns_def shutdown_trigger_def)

end
