(* ===== verification/Sq_Finality.thy ===== *)
theory Sq_Finality
  imports Sq_Checkpoint
begin

text \<open>
  Reorg detection, \<open>crates/core/src/finality\<close>: the search for the common ancestor
  (\<open>reorg.rs\<close>), the tracker that feeds it from the header table and the chain
  (\<open>tracker.rs\<close>), and the rewind report (\<open>rewind.rs\<close>). The chain is a function of the
  environment. That a block hash commits to its parent is the hypothesis \<open>hash_history\<close>, under
  which the decision tells the canonical part of the stored history from the orphaned part.
\<close>

section \<open>The decision\<close>

record height_comparison =
  hc_height :: u64
  hc_stored_hash :: string
  hc_canonical_hash :: "string option"

definition comparison_matches :: "height_comparison \<Rightarrow> bool" where
  "comparison_matches c = (hc_canonical_hash c = Some (hc_stored_hash c))"

datatype reorg_decision = Canonical | Rewind block_ptr u64 | BeyondHistory u64

fun ancestor_from :: "nat \<Rightarrow> height_comparison list \<Rightarrow> (block_ptr \<times> u64) option" where
  "ancestor_from index [] = None"
| "ancestor_from index (c # cs) =
     (if comparison_matches c
      then Some (block_ptr_new (hc_height c) (hc_stored_hash c), of_nat index)
      else ancestor_from (Suc index) cs)"

definition find_common_ancestor :: "height_comparison list \<Rightarrow> reorg_decision" where
  "find_common_ancestor descending =
     (case descending of
        [] \<Rightarrow> Canonical
      | tip # _ \<Rightarrow>
          if comparison_matches tip then Canonical
          else case ancestor_from 0 descending of
                 Some (ancestor, depth) \<Rightarrow> Rewind ancestor depth
               | None \<Rightarrow> BeyondHistory (hc_height (last descending)))"

text \<open>The addition is the plain \<open>+\<close> of the source.\<close>

definition continues_chain :: "block_ptr \<Rightarrow> header \<Rightarrow> bool" where
  "continues_chain last_indexed incoming =
     (hd_height incoming = bp_height last_indexed + 1 \<and>
      hd_parent_hash incoming = Some (bp_hash last_indexed))"

section \<open>The tracker\<close>

record finality_tracker =
  ft_search_depth :: u64
  ft_finalized_height :: u64

definition tracker_new :: finality_tracker where
  "tracker_new = \<lparr>ft_search_depth = 200, ft_finalized_height = 0\<rparr>"

definition with_search_depth :: "u64 \<Rightarrow> finality_tracker \<Rightarrow> finality_tracker" where
  "with_search_depth depth f = f\<lparr>ft_search_depth := max depth 1\<rparr>"

definition tracker_refresh :: "chain_error + u64 \<Rightarrow> finality_tracker \<Rightarrow> (core_error + u64) \<times> finality_tracker" where
  "tracker_refresh reported f =
     (case reported of
        Inl e \<Rightarrow> (Inl (CoreChain e), f)
      | Inr h \<Rightarrow>
          (let finalized = max (ft_finalized_height f) h
           in (Inr finalized, f\<lparr>ft_finalized_height := finalized\<rparr>)))"

text \<open>The loop of \<open>check\<close> over the stored headers.\<close>

fun compare_headers ::
    "(u64 \<Rightarrow> chain_error + header) \<Rightarrow> stored_header list \<Rightarrow> chain_error + height_comparison list" where
  "compare_headers header_at [] = Inr []"
| "compare_headers header_at (s # stored) =
     rbind (case header_at (sh_height s) of
              Inr h \<Rightarrow> Inr (Some (hd_hash h))
            | Inl e \<Rightarrow> if \<not> is_retryable e then Inr None else Inl e) (\<lambda>canonical.
       (let c = \<lparr>hc_height = sh_height s, hc_stored_hash = sh_hash s, hc_canonical_hash = canonical\<rparr>
        in if canonical = Some (sh_hash s) then Inr [c]
           else rbind (compare_headers header_at stored) (\<lambda>cs. Inr (c # cs))))"

definition tracker_check ::
    "(u64 \<Rightarrow> chain_error + header) \<Rightarrow> block_ptr \<Rightarrow> finality_tracker \<Rightarrow> db \<Rightarrow>
     (core_error + reorg_decision) \<times> db" where
  "tracker_check header_at tip f d =
     (case headers_descending (bp_height tip) (saturating_sub (bp_height tip) (ft_search_depth f)) d of
        (Inl e, d') \<Rightarrow> (Inl (CoreStore e), d')
      | (Inr stored, d') \<Rightarrow>
          (case compare_headers header_at stored of
             Inl e \<Rightarrow> (Inl (CoreChain e), d')
           | Inr comparisons \<Rightarrow> (Inr (find_common_ancestor comparisons), d')))"

section \<open>Rewinding\<close>

record rewind_report =
  rr_target :: block_ptr
  rr_blocks_discarded :: u64
  rr_resume_height :: u64

definition rewind_report_new :: "block_ptr \<Rightarrow> u64 \<Rightarrow> rewind_report" where
  "rewind_report_new target discarded =
     \<lparr>rr_target = target, rr_blocks_discarded = discarded,
      rr_resume_height = saturating_add (bp_height target) 1\<rparr>"

definition execute_rewind :: "block_ptr \<Rightarrow> db \<Rightarrow> (core_error + rewind_report) outcome \<times> db" where
  "execute_rewind target d =
     (Panics ''not implemented: rewind execution needs versioned entity writes; guide Milestone 11, task plan phase C2'', d)"

section \<open>Lemmas: the search\<close>

lemma ancestor_from_Some:
  "ancestor_from n cs = Some (a, d) \<longleftrightarrow>
     (\<exists>i < length cs. comparison_matches (cs ! i) \<and> (\<forall>j < i. \<not> comparison_matches (cs ! j)) \<and>
        a = block_ptr_new (hc_height (cs ! i)) (hc_stored_hash (cs ! i)) \<and> d = of_nat (n + i))"
proof (induction cs arbitrary: n)
  case (Cons c cs)
  show ?case
  proof (cases "comparison_matches c")
    case True
    then have "(\<exists>i < length (c # cs). comparison_matches ((c # cs) ! i) \<and>
        (\<forall>j < i. \<not> comparison_matches ((c # cs) ! j)) \<and> P i) \<longleftrightarrow> P 0" for P
      by (auto simp: gr0_conv_Suc)
    with True show ?thesis by auto
  next
    case False
    then show ?thesis using Cons.IH [of "Suc n"] by (simp add: Ex_less_Suc2 All_less_Suc2 algebra_simps)
  qed
qed simp

lemma rewind_ancestor: "find_common_ancestor cs = Rewind a depth \<Longrightarrow> ancestor_from 0 cs = Some (a, depth)"
  by (auto simp: find_common_ancestor_def split: list.splits if_splits option.splits)

lemma ancestor_from_None: "ancestor_from n cs = None \<longleftrightarrow> (\<forall>c \<in> set cs. \<not> comparison_matches c)"
  by (induction cs arbitrary: n) auto

definition canonical_hash_at :: "(u64 \<Rightarrow> chain_error + header) \<Rightarrow> u64 \<Rightarrow> string option" where
  "canonical_hash_at header_at h = (case header_at h of Inr x \<Rightarrow> Some (hd_hash x) | Inl _ \<Rightarrow> None)"

definition full_comparison :: "(u64 \<Rightarrow> chain_error + header) \<Rightarrow> stored_header \<Rightarrow> height_comparison" where
  "full_comparison header_at s = \<lparr>hc_height = sh_height s, hc_stored_hash = sh_hash s,
     hc_canonical_hash = canonical_hash_at header_at (sh_height s)\<rparr>"

definition on_chain :: "(u64 \<Rightarrow> chain_error + header) \<Rightarrow> stored_header \<Rightarrow> bool" where
  "on_chain header_at s = (canonical_hash_at header_at (sh_height s) = Some (sh_hash s))"

lemma full_comparison_matches [simp]: "comparison_matches (full_comparison ch s) \<longleftrightarrow> on_chain ch s"
  by (simp add: comparison_matches_def full_comparison_def on_chain_def)

lemma full_comparison_simps [simp]:
  "hc_height (full_comparison ch s) = sh_height s" "hc_stored_hash (full_comparison ch s) = sh_hash s"
  by (simp_all add: full_comparison_def)

text \<open>The loop compares up to the first match, and everything when there is none.\<close>

lemma compare_headers_Inr:
  "compare_headers ch stored = Inr cs \<Longrightarrow>
     cs = map (full_comparison ch)
       (takeWhile (\<lambda>s. \<not> on_chain ch s) stored @ take 1 (dropWhile (\<lambda>s. \<not> on_chain ch s) stored))"
proof (induction stored arbitrary: cs)
  case (Cons s stored)
  obtain canonical where c: "canonical_hash_at ch (sh_height s) = canonical"
    "rbind (Inr canonical) (\<lambda>canonical.
       (let c = \<lparr>hc_height = sh_height s, hc_stored_hash = sh_hash s, hc_canonical_hash = canonical\<rparr>
        in if canonical = Some (sh_hash s) then Inr [c]
           else rbind (compare_headers ch stored) (\<lambda>cs. Inr (c # cs)))) = Inr cs"
    using Cons.prems by (auto simp: canonical_hash_at_def split: sum.splits if_splits)
  show ?case
  proof (cases "on_chain ch s")
    case True
    with c show ?thesis by (simp add: on_chain_def full_comparison_def Let_def)
  next
    case False
    with c obtain cs' where "compare_headers ch stored = Inr cs'" "cs = full_comparison ch s # cs'"
      by (auto simp: on_chain_def full_comparison_def Let_def rbind_eq_Inr)
    with Cons.IH [of cs'] False show ?thesis by simp
  qed
qed simp

lemma ancestor_from_append:
  "ancestor_from n (xs @ ys) =
     (case ancestor_from n xs of Some r \<Rightarrow> Some r | None \<Rightarrow> ancestor_from (n + length xs) ys)"
  by (induction xs arbitrary: n) (auto split: option.splits)

lemma find_common_ancestor_cut:
  "comparison_matches y \<Longrightarrow> find_common_ancestor (xs @ y # ys) = find_common_ancestor (xs @ [y])"
  by (cases xs) (auto simp: find_common_ancestor_def ancestor_from_append split: option.split)

lemma find_common_ancestor_prefix:
  "find_common_ancestor (map (full_comparison ch)
     (takeWhile (\<lambda>s. \<not> on_chain ch s) stored @ take 1 (dropWhile (\<lambda>s. \<not> on_chain ch s) stored))) =
   find_common_ancestor (map (full_comparison ch) stored)"
proof (cases "dropWhile (\<lambda>s. \<not> on_chain ch s) stored")
  case Nil
  then have "takeWhile (\<lambda>s. \<not> on_chain ch s) stored = stored"
    by (metis append_Nil2 takeWhile_dropWhile_id)
  with Nil show ?thesis by (simp only: append_Nil2 take_Nil)
next
  case (Cons s rest)
  let ?w = "takeWhile (\<lambda>s. \<not> on_chain ch s) stored"
  have s: "on_chain ch s" using Cons by (metis dropWhile_eq_Cons_conv)
  have st: "stored = ?w @ s # rest" using Cons by (metis takeWhile_dropWhile_id)
  have "find_common_ancestor (map (full_comparison ch) (?w @ [s])) =
      find_common_ancestor (map (full_comparison ch) (?w @ s # rest))"
    using s by (simp add: find_common_ancestor_cut [of _ _ "map (full_comparison ch) rest"])
  then show ?thesis using Cons st by simp
qed

section \<open>Hashes commit to the past\<close>

text \<open>
  \<open>history\<close> are stored headers, highest first, each the parent of the one before; \<open>header_at\<close>
  are the chain's answers, each linked to the answer one height below; and a stored header and a
  block of the chain that share the hash share the parent hash.
\<close>

definition hash_history :: "(u64 \<Rightarrow> chain_error + header) \<Rightarrow> stored_header list \<Rightarrow> bool" where
  "hash_history header_at history =
     ((\<forall>i. Suc i < length history \<longrightarrow>
         sh_height (history ! i) = sh_height (history ! Suc i) + 1 \<and>
         sh_parent_hash (history ! i) = Some (sh_hash (history ! Suc i))) \<and>
      (\<forall>s \<in> set history. \<forall>h. header_at (sh_height s) = Inr h \<longrightarrow> hd_hash h = sh_hash s \<longrightarrow>
         hd_parent_hash h = sh_parent_hash s) \<and>
      (\<forall>s \<in> set history. \<forall>h. header_at (sh_height s + 1) = Inr h \<longrightarrow>
         (\<exists>p. header_at (sh_height s) = Inr p \<and> hd_parent_hash h = Some (hd_hash p))))"

lemma agreement_step:
  assumes "hash_history header_at history" "Suc i < length history" "on_chain header_at (history ! i)"
  shows "on_chain header_at (history ! Suc i)"
proof -
  obtain h where h: "header_at (sh_height (history ! i)) = Inr h" "hd_hash h = sh_hash (history ! i)"
    using assms(3) by (auto simp: on_chain_def canonical_hash_at_def split: sum.splits)
  have d: "sh_height (history ! i) = sh_height (history ! Suc i) + 1"
    "sh_parent_hash (history ! i) = Some (sh_hash (history ! Suc i))"
    using assms(1,2) by (simp_all add: hash_history_def)
  have mem: "history ! i \<in> set history" "history ! Suc i \<in> set history" using assms(2) by simp_all
  obtain p where "header_at (sh_height (history ! Suc i)) = Inr p" "hd_parent_hash h = Some (hd_hash p)"
    using assms(1) mem(2) h(1) unfolding d(1) hash_history_def by blast
  moreover have "hd_parent_hash h = sh_parent_hash (history ! i)"
    using assms(1) mem(1) h unfolding hash_history_def by blast
  ultimately show ?thesis using d(2) by (simp add: on_chain_def canonical_hash_at_def)
qed

lemma agreement_below:
  assumes "hash_history header_at history" "i \<le> j" "j < length history" "on_chain header_at (history ! i)"
  shows "on_chain header_at (history ! j)"
  using assms(2,3) by (induction j rule: dec_induct) (auto intro: agreement_step assms)

lemma find_common_ancestor_cases:
  "case find_common_ancestor cs of
     Canonical \<Rightarrow> cs = [] \<or> comparison_matches (hd cs)
   | Rewind a depth \<Rightarrow> \<exists>i < length cs. 0 < i \<and> comparison_matches (cs ! i) \<and>
       {j. j < i \<and> comparison_matches (cs ! j)} = {} \<and>
       a = block_ptr_new (hc_height (cs ! i)) (hc_stored_hash (cs ! i)) \<and> depth = of_nat i
   | BeyondHistory oldest \<Rightarrow> cs \<noteq> [] \<and> set cs \<inter> Collect comparison_matches = {} \<and>
       oldest = hc_height (last cs)"
proof (cases cs)
  case (Cons c cs')
  show ?thesis
  proof (cases "comparison_matches c")
    case False
    show ?thesis
    proof (cases "ancestor_from 0 cs")
      case None
      then have "set cs \<inter> Collect comparison_matches = {}" by (auto simp: ancestor_from_None)
      moreover have "find_common_ancestor cs = BeyondHistory (hc_height (last cs))"
        using None Cons False by (simp add: find_common_ancestor_def)
      ultimately show ?thesis using Cons by simp
    next
      case (Some r)
      obtain a depth where r: "r = (a, depth)" by force
      with Some obtain i where i: "i < length cs" "comparison_matches (cs ! i)"
        "\<forall>j < i. \<not> comparison_matches (cs ! j)"
        "a = block_ptr_new (hc_height (cs ! i)) (hc_stored_hash (cs ! i))" "depth = of_nat i"
        by (auto simp: ancestor_from_Some)
      have "0 < i" using i(2) False Cons by (cases i) auto
      moreover have "find_common_ancestor cs = Rewind a depth"
        using Some r Cons False by (simp add: find_common_ancestor_def)
      ultimately show ?thesis using i by auto
    qed
  qed (simp add: Cons find_common_ancestor_def)
qed (simp add: find_common_ancestor_def)

section \<open>Properties\<close>

text \<open>the search for the common ancestor. It reports the canonical chain exactly when
  nothing is compared or the tip matches; a rewind names the highest matching header, and its
  depth counts the diverged ones above; and history is exhausted only when nothing matches.\<close>

theorem find_common_ancestor_correct:
  "case find_common_ancestor cs of
     Canonical \<Rightarrow> cs = [] \<or> comparison_matches (hd cs)
   | Rewind a depth \<Rightarrow> \<exists>i < length cs. 0 < i \<and> comparison_matches (cs ! i) \<and>
       {j. j < i \<and> comparison_matches (cs ! j)} = {} \<and>
       a = block_ptr_new (hc_height (cs ! i)) (hc_stored_hash (cs ! i)) \<and> depth = of_nat i
   | BeyondHistory oldest \<Rightarrow> cs \<noteq> [] \<and> set cs \<inter> Collect comparison_matches = {} \<and>
       oldest = hc_height (last cs)"
  by (rule find_common_ancestor_cases)

text \<open>C27: ending the comparison at the first match is an optimisation only. When the check
  returns a decision it is the one the complete comparison of the stored headers within the
  search depth would give, and the tables are not touched.\<close>

theorem tracker_check_is_full_search:
  "blocks_ok (db_tables d) \<Longrightarrow>
   (case tracker_check ch tip f d of
      (r, d') \<Rightarrow> db_tables d' = db_tables d \<and>
        (case r of
           Inr decision \<Rightarrow> decision = find_common_ancestor (map (full_comparison ch)
             (stored_between (db_tables d) (saturating_sub (bp_height tip) (ft_search_depth f)) (bp_height tip)))
         | Inl e \<Rightarrow> True))"
proof -
  assume ok: "blocks_ok (db_tables d)"
  let ?floor = "saturating_sub (bp_height tip) (ft_search_depth f)"
  obtain q d' where q: "headers_descending (bp_height tip) ?floor d = (q, d')" by force
  have t: "db_tables d' = db_tables d" using headers_descending_tables [OF q] .
  show ?thesis
  proof (cases q)
    case (Inr stored)
    note hd = headers_descending_Inr(1) [OF ok q [unfolded Inr]]
    show ?thesis
    proof (cases "compare_headers ch stored")
      case i: (Inr cs)
      have "find_common_ancestor cs = find_common_ancestor (map (full_comparison ch) stored)"
        unfolding compare_headers_Inr [OF i] by (rule find_common_ancestor_prefix)
      with q Inr i t hd show ?thesis by (simp add: tracker_check_def)
    qed (use q Inr t in \<open>simp add: tracker_check_def\<close>)
  qed (use q t in \<open>simp add: tracker_check_def\<close>)
qed

text \<open>finality only moves forward. A refresh never lowers the recorded finalized height,
  whatever the endpoint reports, and an error leaves it.\<close>

theorem refresh_monotone:
  "case tracker_refresh reported f of
     (r, f') \<Rightarrow> ft_finalized_height f \<le> ft_finalized_height f' \<and>
       ft_finalized_height f' \<in> insert (ft_finalized_height f) {h. reported = Inr h} \<and>
       ft_search_depth f' = ft_search_depth f"
  by (auto simp: tracker_refresh_def Let_def max_def split: sum.splits)

text \<open>C7: the decision locates the fork. For a history of hash-linked headers, \<open>Canonical\<close> means
  that every stored header is on the chain; a rewind names the point that separates the two
  parts, everything above it being orphaned and everything from it down canonical; and when the
  history is exhausted every stored header is orphaned.\<close>

theorem reorg_decision_locates_fork:
  "hash_history ch history \<Longrightarrow> length history < 2 ^ 64 \<Longrightarrow>
   (case find_common_ancestor (map (full_comparison ch) history) of
      Canonical \<Rightarrow> {s \<in> set history. \<not> on_chain ch s} = {}
    | Rewind a depth \<Rightarrow> 0 < unat depth \<and> unat depth < length history \<and>
        bp_height a = sh_height (history ! unat depth) \<and> bp_hash a = sh_hash (history ! unat depth) \<and>
        {j. j < length history \<and> on_chain ch (history ! j)} = {unat depth..<length history}
    | BeyondHistory oldest \<Rightarrow> {s \<in> set history. on_chain ch s} = {} \<and> oldest = sh_height (last history))"
proof -
  assume h: "hash_history ch history" "length history < 2 ^ 64"
  note below = agreement_below [OF h(1)]
  let ?cs = "map (full_comparison ch) history"
  have fc: "case find_common_ancestor ?cs of
     Canonical \<Rightarrow> ?cs = [] \<or> comparison_matches (hd ?cs)
   | Rewind a depth \<Rightarrow> \<exists>i < length ?cs. 0 < i \<and> comparison_matches (?cs ! i) \<and>
       {j. j < i \<and> comparison_matches (?cs ! j)} = {} \<and>
       a = block_ptr_new (hc_height (?cs ! i)) (hc_stored_hash (?cs ! i)) \<and> depth = of_nat i
   | BeyondHistory oldest \<Rightarrow> ?cs \<noteq> [] \<and> set ?cs \<inter> Collect comparison_matches = {} \<and>
       oldest = hc_height (last ?cs)"
    by (rule find_common_ancestor_cases)
  show ?thesis
  proof (cases "find_common_ancestor ?cs")
    case Canonical
    with fc have "history = [] \<or> on_chain ch (history ! 0)" by (cases history) auto
    then have "\<forall>j < length history. on_chain ch (history ! j)" using below [of 0] by auto
    with Canonical show ?thesis by (auto simp: in_set_conv_nth)
  next
    case (Rewind a depth)
    with fc obtain i where i: "i < length history" "0 < i" "on_chain ch (history ! i)"
      "{j. j < i \<and> comparison_matches (?cs ! j)} = {}"
      "a = block_ptr_new (sh_height (history ! i)) (sh_hash (history ! i))" "depth = of_nat i" by auto
    have u: "unat depth = i" using i(1,6) h(2) by (simp add: unat_of_nat_u64)
    have "on_chain ch (history ! j) \<longleftrightarrow> i \<le> j" if "j < length history" for j
      using i(1,3,4) that below [of i j] by (auto simp: not_less [symmetric])
    with Rewind i u show ?thesis by auto
  next
    case (BeyondHistory oldest)
    with fc show ?thesis by (auto simp: last_map)
  qed
qed

text \<open>the cheap check on every block is the child test, except that after the largest height
  it takes a block of height zero with the right parent hash for the next one: the addition
  wraps where the child test checks.\<close>

theorem continues_chain_is_child:
  "continues_chain (header_ptr p) h \<longleftrightarrow>
     is_child_of h p \<or> (hd_height p = u64_max \<and> hd_height h = 0 \<and> hd_parent_hash h = Some (hd_hash p))"
proof -
  have "u64_max + 1 = 0" by (simp add: u64_max_def)
  then show ?thesis by (auto simp: continues_chain_def header_ptr_def is_child_of_iff)
qed

section \<open>Witnesses\<close>

text \<open>Blocks 10 to 12 are stored; the chain agrees on 10 and replaced 11 and 12.\<close>

definition demo_row :: "string \<Rightarrow> string \<Rightarrow> block_row" where
  "demo_row hash parent = \<lparr>row_hash = hash, row_parent_hash = Some parent, row_finality_state = ''unfinalized''\<rparr>"

definition demo_tables :: tables where
  "demo_tables = empty_tables\<lparr>tb_blocks :=
     [(10, demo_row ''a10'' ''a9''), (11, demo_row ''a11'' ''a10''), (12, demo_row ''a12'' ''a11'')]\<rparr>"

definition demo_history :: "stored_header list" where
  "demo_history = map header_of_row (rev (tb_blocks demo_tables))"

definition demo_chain :: "u64 \<Rightarrow> chain_error + header" where
  "demo_chain h =
     (if h = 10 then Inr \<lparr>hd_height = 10, hd_hash = ''a10'', hd_parent_hash = Some ''a9'', hd_timestamp = None\<rparr>
      else if h = 11 then Inr \<lparr>hd_height = 11, hd_hash = ''b11'', hd_parent_hash = Some ''a10'', hd_timestamp = None\<rparr>
      else if h = 12 then Inr \<lparr>hd_height = 12, hd_hash = ''b12'', hd_parent_hash = Some ''b11'', hd_timestamp = None\<rparr>
      else Inl (BlockUnavailable h))"

lemma demo_check:
  "case tracker_check demo_chain (block_ptr_new 12 ''a12'') tracker_new \<lparr>db_tables = demo_tables, db_faults = []\<rparr> of
     (r, d') \<Rightarrow> r = Inr (Rewind (block_ptr_new 10 ''a10'') 2)"
proof -
  have "saturating_sub 12 (ft_search_depth tracker_new) = 0"
    "compare_headers demo_chain demo_history = Inr (map (full_comparison demo_chain) demo_history)"
    "find_common_ancestor (map (full_comparison demo_chain) demo_history) = Rewind (block_ptr_new 10 ''a10'') 2"
    by code_simp+
  moreover have "headers_descending 12 0 \<lparr>db_tables = demo_tables, db_faults = []\<rparr> =
      (Inr demo_history, \<lparr>db_tables = demo_tables, db_faults = []\<rparr>)"
    by (simp add: headers_descending_def sql_height_alt dbind_def dreturn_def dlift_def demo_tables_def
        demo_history_def row_to_stored_header_ok)
  ultimately show ?thesis by (simp add: tracker_check_def)
qed

lemma tracker_check_is_full_search_witness:
  "\<exists>d'. tracker_check demo_chain (block_ptr_new 12 ''a12'') tracker_new \<lparr>db_tables = demo_tables, db_faults = []\<rparr> =
       (Inr (Rewind (block_ptr_new 10 ''a10'') 2), d') \<and>
     find_common_ancestor (map (full_comparison demo_chain) (stored_between demo_tables 0 12)) =
       Rewind (block_ptr_new 10 ''a10'') 2"
proof -
  let ?d = "\<lparr>db_tables = demo_tables, db_faults = []\<rparr>"
  obtain d' where c: "tracker_check demo_chain (block_ptr_new 12 ''a12'') tracker_new ?d =
      (Inr (Rewind (block_ptr_new 10 ''a10'') 2), d')"
    using demo_check by (auto split: prod.splits)
  have "blocks_ok (db_tables ?d)" by (simp add: blocks_ok_def demo_tables_def)
  moreover have "saturating_sub 12 (ft_search_depth tracker_new) = 0" by code_simp
  ultimately show ?thesis
    using c tracker_check_is_full_search [of ?d demo_chain "block_ptr_new 12 ''a12''" tracker_new] by simp
qed

lemma reorg_decision_locates_fork_witness:
  "case find_common_ancestor (map (full_comparison demo_chain) demo_history) of
     Rewind a depth \<Rightarrow> bp_height a = 10 \<and>
       {j. j < length demo_history \<and> on_chain demo_chain (demo_history ! j)} = {unat depth..<length demo_history}
   | _ \<Rightarrow> False"
proof -
  have h: "demo_history = [\<lparr>sh_height = 12, sh_hash = ''a12'', sh_parent_hash = Some ''a11'', sh_finality = Unfinalized\<rparr>,
      \<lparr>sh_height = 11, sh_hash = ''a11'', sh_parent_hash = Some ''a10'', sh_finality = Unfinalized\<rparr>,
      \<lparr>sh_height = 10, sh_hash = ''a10'', sh_parent_hash = Some ''a9'', sh_finality = Unfinalized\<rparr>]"
    by code_simp
  have "hash_history demo_chain demo_history"
    by (simp add: hash_history_def h demo_chain_def less_Suc_eq nth_Cons split: nat.splits)
  moreover have "find_common_ancestor (map (full_comparison demo_chain) demo_history) = Rewind (block_ptr_new 10 ''a10'') 2"
    by code_simp
  ultimately show ?thesis
    using reorg_decision_locates_fork [of demo_chain demo_history] by (simp add: h)
qed

end
