(* ===== verification/Sq_CommitBuffer.thy ===== *)
theory Sq_CommitBuffer
  imports Sq_BTreeMap Sq_Errors "HOL-Library.Multiset"
begin

text \<open>
  The reorder buffer, \<open>crates/dispatcher/src/ordered_commit.rs\<close>. Heights and generations are
  64-bit words and advance by the plain \<open>+\<close> of the source, which wraps in the release
  profile; the theorems that need it exclude the largest height. A log of what was released
  since the last reset turns the operations into a state machine.
\<close>

section \<open>The buffer\<close>

record 'v commit_buffer =
  cb_next_expected :: u64
  cb_pending :: "(u64, 'v) btree"
  cb_capacity :: usize
  cb_generation :: u64

definition buffer_new :: "u64 \<Rightarrow> usize \<Rightarrow> 'v commit_buffer" where
  "buffer_new start capacity =
     \<lparr>cb_next_expected = start, cb_pending = [], cb_capacity = max capacity 1, cb_generation = 0\<rparr>"

definition pending_count :: "'v commit_buffer \<Rightarrow> nat" where
  "pending_count b = length (cb_pending b)"

definition buffer_is_full :: "'v commit_buffer \<Rightarrow> bool" where
  "buffer_is_full b = (unat (cb_capacity b) \<le> length (cb_pending b))"

lemma length_bt_remove: "bt_get t k = Some v \<Longrightarrow> length (bt_remove k t) < length t"
  by (induction k t rule: bt_remove.induct) auto

text \<open>The release loop; every pass takes an entry out of the map.\<close>

function release_run :: "u64 \<Rightarrow> (u64, 'v) btree \<Rightarrow> (u64 \<times> 'v) list \<times> u64 \<times> (u64, 'v) btree" where
  "release_run next pending =
     (case bt_get pending next of
        None \<Rightarrow> ([], next, pending)
      | Some value \<Rightarrow>
          (case release_run (next + 1) (bt_remove next pending) of
             (released, next', pending') \<Rightarrow> ((next, value) # released, next', pending')))"
  by auto
termination
  by (relation "measure (\<lambda>(_, t). length t)") (auto simp: length_bt_remove)

declare release_run.simps [simp del]

definition complete_from ::
    "u64 \<Rightarrow> u64 \<Rightarrow> 'v \<Rightarrow> 'v commit_buffer \<Rightarrow> (u64 \<times> 'v) list \<times> 'v commit_buffer" where
  "complete_from generation height value b =
     (if generation \<noteq> cb_generation b then ([], b)
      else if height < cb_next_expected b then ([], b)
      else case release_run (cb_next_expected b) (bt_insert height value (cb_pending b)) of
             (released, next, pending) \<Rightarrow>
               (released, b\<lparr>cb_next_expected := next, cb_pending := pending\<rparr>))"

definition complete :: "u64 \<Rightarrow> 'v \<Rightarrow> 'v commit_buffer \<Rightarrow> (u64 \<times> 'v) list \<times> 'v commit_buffer" where
  "complete height value b = complete_from (cb_generation b) height value b"

definition buffer_reset_to :: "u64 \<Rightarrow> 'v commit_buffer \<Rightarrow> nat \<times> 'v commit_buffer" where
  "buffer_reset_to height b =
     (length (cb_pending b),
      b\<lparr>cb_pending := [], cb_next_expected := height, cb_generation := cb_generation b + 1\<rparr>)"

definition pending_heights :: "'v commit_buffer \<Rightarrow> u64 list" where
  "pending_heights b = bt_keys (cb_pending b)"

definition stall_gap :: "'v commit_buffer \<Rightarrow> (u64 \<times> u64) option" where
  "stall_gap b =
     (case bt_keys (cb_pending b) of [] \<Rightarrow> None | lowest # _ \<Rightarrow> Some (cb_next_expected b, lowest))"

text \<open>Feeding a list of completions of the current generation, collecting what is released.\<close>

fun complete_all :: "(u64 \<times> 'v) list \<Rightarrow> 'v commit_buffer \<Rightarrow> (u64 \<times> 'v) list \<times> 'v commit_buffer" where
  "complete_all [] b = ([], b)"
| "complete_all ((h, v) # xs) b =
     (case complete h v b of
        (out, b') \<Rightarrow> (case complete_all xs b' of (outs, b'') \<Rightarrow> (out @ outs, b'')))"

section \<open>The release loop\<close>

text \<open>
  What the loop yields: consecutive heights from the one expected, each with its entry; what
  stays is the rest of the map, without the height now expected.
\<close>

lemma release_run_consecutive:
  "release_run n t = (out, n', t') \<Longrightarrow>
     map fst out = map (\<lambda>i. n + of_nat i) [0..<length out] \<and> n' = n + of_nat (length out) \<and>
     bt_get t' n' = None"
proof (induction n t arbitrary: out n' t' rule: release_run.induct)
  case (1 n t)
  show ?case
  proof (cases "bt_get t n")
    case None
    with 1(2) show ?thesis by (simp add: release_run.simps)
  next
    case (Some v)
    then obtain out1 where o: "release_run (n + 1) (bt_remove n t) = (out1, n', t')" "out = (n, v) # out1"
      using 1(2) by (auto simp: release_run.simps [of n t] split: prod.splits)
    have "map (\<lambda>i. n + of_nat i) [0..<Suc m] = n # map (\<lambda>i. n + 1 + of_nat i) [0..<m]" for m
      by (simp add: map_upt_Suc add.commute del: upt_Suc)
    with 1(1) [OF Some o(1)] o(2) show ?thesis by (auto simp: algebra_simps simp del: upt_Suc)
  qed
qed

lemma release_run_entries:
  "bt_ok t \<Longrightarrow> release_run n t = (out, n', t') \<Longrightarrow>
     bt_ok t' \<and> distinct (map fst out) \<and> set (map fst out) \<inter> dom (bt_get t') = {} \<and>
     bt_get t = bt_get t' ++ map_of out \<and> set t = set out \<union> set t'"
proof (induction n t arbitrary: out n' t' rule: release_run.induct)
  case (1 n t)
  show ?case
  proof (cases "bt_get t n")
    case None
    with 1(2,3) show ?thesis by (simp add: release_run.simps)
  next
    case (Some v)
    then obtain out1 where o: "release_run (n + 1) (bt_remove n t) = (out1, n', t')" "out = (n, v) # out1"
      using 1(3) by (auto simp: release_run.simps [of n t] split: prod.splits)
    note ih = 1(1) [OF Some _ o(1)]
    have rm: "bt_get (bt_remove n t) = (bt_get t)(n := None)" using 1(2) by simp
    from ih 1(2) have i: "bt_ok t'" "distinct (map fst out1)" "set (map fst out1) \<inter> dom (bt_get t') = {}"
      "(bt_get t)(n := None) = bt_get t' ++ map_of out1" by (simp_all add: fun_upd_def)
    have "(bt_get t' ++ map_of out1) n = None" using i(4) by (metis fun_upd_same)
    then have n: "bt_get t' n = None" "n \<notin> set (map fst out1)"
      by (auto simp: map_add_None map_of_eq_None_iff)
    have "bt_get t = (bt_get t' ++ map_of out1)(n \<mapsto> v)"
      using i(4) Some by (metis fun_upd_triv fun_upd_upd)
    then have get: "bt_get t = bt_get t' ++ map_of out" using o(2) by simp
    have "(k, w) \<in> set t \<longleftrightarrow> (k, w) \<in> set out \<union> set t'" for k w
    proof -
      have d: "distinct (map fst out)" using i(2) n(2) o(2) by simp
      have "(k, w) \<in> set t \<longleftrightarrow> bt_get t k = Some w" using bt.entry_iff [OF 1(2)] .
      also have "\<dots> \<longleftrightarrow> map_of out k = Some w \<or> (map_of out k = None \<and> bt_get t' k = Some w)"
        unfolding get by (auto simp: map_add_Some_iff)
      also have "\<dots> \<longleftrightarrow> map_of out k = Some w \<or> bt_get t' k = Some w"
      proof -
        have "map_of out k = None" if "bt_get t' k = Some w"
        proof -
          have "k \<noteq> n" using that n(1) by auto
          moreover have "k \<notin> set (map fst out1)" using that i(3) by (meson disjoint_iff domI)
          ultimately show ?thesis using o(2) by (simp add: map_of_eq_None_iff)
        qed
        then show ?thesis by auto
      qed
      finally show ?thesis using bt.entry_iff [OF i(1)] d by simp
    qed
    then have "set t = set out \<union> set t'" by auto
    moreover have "distinct (map fst out)" using i(2) n(2) o(2) by simp
    moreover have "set (map fst out) \<inter> dom (bt_get t') = {}"
      using i(3) n(1) o(2) by (simp add: domIff)
    ultimately show ?thesis using i(1) get by blast
  qed
qed

section \<open>One completion\<close>

lemma complete_from_stale:
  "g \<noteq> cb_generation b \<or> h < cb_next_expected b \<Longrightarrow> complete_from g h v b = ([], b)"
  by (auto simp: complete_from_def)

lemma complete_from_accepted:
  assumes "bt_ok (cb_pending b)" "complete_from (cb_generation b) h v b = (out, b')" "cb_next_expected b \<le> h"
  shows "map fst out = map (\<lambda>i. cb_next_expected b + of_nat i) [0..<length out]"
    "cb_next_expected b' = cb_next_expected b + of_nat (length out)"
    "bt_get (cb_pending b') (cb_next_expected b') = None" "bt_ok (cb_pending b')"
    "set out \<union> set (cb_pending b') = insert (h, v) {e \<in> set (cb_pending b). fst e \<noteq> h}"
    "distinct (map fst out)" "cb_generation b' = cb_generation b" "cb_capacity b' = cb_capacity b"
proof -
  obtain n' t' where r: "release_run (cb_next_expected b) (bt_insert h v (cb_pending b)) = (out, n', t')"
    "b' = b\<lparr>cb_next_expected := n', cb_pending := t'\<rparr>"
    using assms(2,3) by (auto simp: complete_from_def not_less split: prod.splits if_splits)
  note c = release_run_consecutive [OF r(1)]
  note e = release_run_entries [OF bt_ok_insert [OF assms(1)] r(1)]
  have "set (bt_insert h v (cb_pending b)) = insert (h, v) {e \<in> set (cb_pending b). fst e \<noteq> h}"
  proof (rule set_eqI)
    fix e :: "u64 \<times> 'a"
    obtain k w where "e = (k, w)" by force
    then show "e \<in> set (bt_insert h v (cb_pending b)) \<longleftrightarrow>
        e \<in> insert (h, v) {e \<in> set (cb_pending b). fst e \<noteq> h}"
      using bt.entry_iff [OF bt_ok_insert [OF assms(1)], of k w h v] bt.entry_iff [OF assms(1), of k w]
      by auto
  qed
  with c e r(2) show "map fst out = map (\<lambda>i. cb_next_expected b + of_nat i) [0..<length out]"
    "cb_next_expected b' = cb_next_expected b + of_nat (length out)"
    "bt_get (cb_pending b') (cb_next_expected b') = None" "bt_ok (cb_pending b')"
    "set out \<union> set (cb_pending b') = insert (h, v) {e \<in> set (cb_pending b). fst e \<noteq> h}"
    "distinct (map fst out)" "cb_generation b' = cb_generation b" "cb_capacity b' = cb_capacity b" by auto
qed

text \<open>Counted as multisets, so that nothing is released and kept as well: what comes out and what
  stays are together what was there, the new entry in the place of one of its height.\<close>

lemma bt_ok_distinct: "bt_ok t \<Longrightarrow> distinct (map fst t)"
  by (metis bt_ok_def strict_sorted_iff)

lemma distinct_disjoint_entries:
  assumes "distinct (map fst xs)" "distinct (map fst ys)" "set (map fst xs) \<inter> set (map fst ys) = {}"
  shows "distinct (xs @ ys)"
  using assms by (auto simp: distinct_map)

lemma complete_from_entries:
  assumes ok: "bt_ok (cb_pending b)" and c: "complete_from (cb_generation b) h v b = (out, b')"
    and le: "cb_next_expected b \<le> h"
  shows "mset out + mset (cb_pending b') =
    add_mset (h, v) (filter_mset (\<lambda>e. fst e \<noteq> h) (mset (cb_pending b)))"
proof -
  obtain n' where r: "release_run (cb_next_expected b) (bt_insert h v (cb_pending b)) = (out, n', cb_pending b')"
    using c le by (auto simp: complete_from_def not_less split: prod.splits if_splits)
  note e = release_run_entries [OF bt_ok_insert [OF ok] r]
  note a = complete_from_accepted [OF ok c le]
  have "set (map fst out) \<inter> set (map fst (cb_pending b')) = {}"
    using e bt.entry_iff [OF a(4)] by (fastforce simp: disjoint_iff)
  then have "distinct (out @ cb_pending b')"
    using a(4,6) by (intro distinct_disjoint_entries) (simp_all add: bt_ok_distinct)
  moreover have "distinct ((h, v) # filter (\<lambda>e. fst e \<noteq> h) (cb_pending b))"
    using bt_ok_distinct [OF ok] by (auto simp: distinct_map)
  moreover have "set (out @ cb_pending b') = set ((h, v) # filter (\<lambda>e. fst e \<noteq> h) (cb_pending b))"
    using a(5) by simp
  ultimately have "mset (out @ cb_pending b') = mset ((h, v) # filter (\<lambda>e. fst e \<noteq> h) (cb_pending b))"
    using set_eq_iff_mset_eq_distinct by blast
  then show ?thesis by simp
qed

lemma complete_from_ok: "bt_ok (cb_pending b) \<Longrightarrow> complete_from g h v b = (out, b') \<Longrightarrow> bt_ok (cb_pending b')"
  using complete_from_accepted(4) complete_from_stale by (metis not_less prod.inject)

lemma complete_from_fields:
  assumes "complete_from g h v b = (out, b')"
  shows "cb_generation b' = cb_generation b" "cb_capacity b' = cb_capacity b"
  using assms by (auto simp: complete_from_def split: prod.splits if_splits)

text \<open>A height that is expected and does not come: nothing is released.\<close>

lemma complete_waits:
  assumes "h \<noteq> cb_next_expected b" "bt_get (cb_pending b) (cb_next_expected b) = None"
  shows "complete_from g h v b = ([], b) \<or>
    complete_from g h v b = ([], b\<lparr>cb_pending := bt_insert h v (cb_pending b)\<rparr>)"
  using assms by (auto simp: complete_from_def release_run.simps)

section \<open>Order of arrival\<close>

text \<open>Inserting distinct keys commutes; a law of the map interface.\<close>

context ordered_map
begin

definition ins_all :: "('k \<times> 'v) list \<Rightarrow> 'm \<Rightarrow> 'm" where
  "ins_all xs m = fold (\<lambda>(k, v). ins k v) xs m"

lemma ins_all_simps [simp]: "ins_all [] m = m" "ins_all ((k, v) # xs) m = ins_all xs (ins k v m)"
  by (simp_all add: ins_all_def)

lemma invar_ins_all [simp]: "invar m \<Longrightarrow> invar (ins_all xs m)"
  by (induction xs arbitrary: m) (auto simp: invar_ins)

lemma look_ins_all:
  "invar m \<Longrightarrow> distinct (map fst xs) \<Longrightarrow> look (ins_all xs m) = look m ++ map_of xs"
proof (induction xs arbitrary: m)
  case (Cons x xs)
  obtain k v where x: "x = (k, v)" by force
  with Cons.prems have "map_of xs k = None" by (simp add: map_of_eq_None_iff)
  then have "(look m)(k \<mapsto> v) ++ map_of xs = look m ++ map_of ((k, v) # xs)"
    by (auto simp: fun_eq_iff map_add_def split: option.splits)
  moreover have "look (ins_all xs (ins k v m)) = (look m)(k \<mapsto> v) ++ map_of xs"
    using Cons x by (simp add: invar_ins look_ins)
  ultimately show ?case unfolding x ins_all_simps by (rule trans [rotated])
qed simp

lemma ins_all_perm:
  assumes "invar m" "distinct (map fst xs)" "mset xs = mset ys"
  shows "entries (ins_all xs m) = entries (ins_all ys m)"
proof (rule entries_cong)
  have "set xs = set ys" "distinct (map fst ys)"
    using assms(2,3) by (metis set_mset_mset) (metis assms(2,3) mset_eq_imp_distinct_iff mset_map)
  then have "map_of xs = map_of ys"
    using assms(2) by (intro map_of_inject_set [THEN iffD2]) simp_all
  then show "look (ins_all xs m) = look (ins_all ys m)"
    using assms(1,2) \<open>distinct (map fst ys)\<close> by (simp add: look_ins_all)
qed (simp_all add: assms(1))

end

text \<open>
  Releasing now and inserting later comes to the same as inserting first, as long as the
  later height is new and not the wrap-around point of the heights already there.
\<close>

lemma release_run_insert:
  assumes "bt_ok t" "k \<notin> set (bt_keys t)" "release_run n t = (out, n', t')"
  shows "release_run n (bt_insert k v t) =
    (case release_run n' (bt_insert k v t') of (out2, n2, t2) \<Rightarrow> (out @ out2, n2, t2))"
  using assms
proof (induction n t arbitrary: out n' t' rule: release_run.induct)
  case (1 n t)
  show ?case
  proof (cases "bt_get t n")
    case None
    with 1(4) have "out = [] \<and> n' = n \<and> t' = t" by (simp add: release_run.simps)
    then show ?thesis by simp
  next
    case (Some w)
    then obtain out1 where o: "release_run (n + 1) (bt_remove n t) = (out1, n', t')" "out = (n, w) # out1"
      using 1(4) by (auto simp: release_run.simps [of n t] split: prod.splits)
    have "n \<noteq> k" using Some 1(3) by (force dest: map_of_SomeD)
    then have c: "bt_remove n (bt_insert k v t) = bt_insert k v (bt_remove n t)"
      by (simp add: bt.rem_ins_commute 1(2))
    have "k \<notin> set (bt_keys (bt_remove n t))" using 1(3) keys_bt_remove_subset [of n t] by blast
    from 1(1) [OF Some _ this o(1)] 1(2) c Some \<open>n \<noteq> k\<close> o(2) show ?thesis
      by (simp add: release_run.simps [of n "bt_insert k v t"] split: prod.splits)
  qed
qed

lemma release_run_keys: "bt_ok t \<Longrightarrow> release_run n t = (out, n', t') \<Longrightarrow> set (bt_keys t') \<subseteq> set (bt_keys t)"
  using release_run_entries [of t n out n' t'] by auto

lemma release_run_twice: "release_run n t = (out, n', t') \<Longrightarrow> release_run n' t' = ([], n', t')"
proof -
  assume "release_run n t = (out, n', t')"
  then have "bt_get t' n' = None" by (blast dest: release_run_consecutive)
  then show ?thesis by (simp add: release_run.simps [of n' t'])
qed

lemma release_run_ins_all:
  assumes "bt_ok t" "distinct (map fst xs)" "set (map fst xs) \<inter> set (bt_keys t) = {}"
    "release_run n t = (out, n', t')"
  shows "release_run n (bt.ins_all xs t) =
    (case release_run n' (bt.ins_all xs t') of (out2, n2, t2) \<Rightarrow> (out @ out2, n2, t2))"
  using assms
proof (induction xs arbitrary: n t out n' t')
  case (Cons x xs)
  obtain k v where x: "x = (k, v)" by force
  obtain o2 n2 t2 where r2: "release_run n' (bt_insert k v t') = (o2, n2, t2)"
    by (cases "release_run n' (bt_insert k v t')") auto
  have ok': "bt_ok t'" and sub: "set (bt_keys t') \<subseteq> set (bt_keys t)"
    using release_run_entries [OF Cons.prems(1,4)] release_run_keys [OF Cons.prems(1,4)] by simp_all
  have r1: "release_run n (bt_insert k v t) = (out @ o2, n2, t2)"
    using release_run_insert [OF Cons.prems(1) _ Cons.prems(4), of k v] Cons.prems(3) r2 x by simp
  have d: "set (map fst xs) \<inter> set (bt_keys (bt_insert k v t)) = {}"
    "set (map fst xs) \<inter> set (bt_keys (bt_insert k v t')) = {}"
    using Cons.prems(2,3) x sub by (auto simp: keys_bt_insert simp del: set_map)
  have dx: "distinct (map fst xs)" using Cons.prems(2) by simp
  from Cons.IH [OF bt_ok_insert [OF Cons.prems(1)] dx d(1) r1]
    Cons.IH [OF bt_ok_insert [OF ok'] dx d(2) r2]
  show ?case using x by (simp split: prod.splits)
qed (simp add: release_run_twice)

text \<open>An expected height never passes one that has not come.\<close>

lemma release_run_bound:
  "bt_ok t \<Longrightarrow> release_run n t = (out, n', t') \<Longrightarrow> u64_max \<notin> set (bt_keys t) \<Longrightarrow> h \<notin> set (bt_keys t) \<Longrightarrow>
     n \<le> h \<Longrightarrow> n' \<le> h"
proof (induction n t arbitrary: out n' t' rule: release_run.induct)
  case (1 n t)
  show ?case
  proof (cases "bt_get t n")
    case None
    with 1(3,6) show ?thesis by (simp add: release_run.simps)
  next
    case (Some v)
    then obtain out1 where o: "release_run (n + 1) (bt_remove n t) = (out1, n', t')"
      using 1(3) by (auto simp: release_run.simps [of n t] split: prod.splits)
    have n: "n \<in> set (bt_keys t)" using Some by (force dest: map_of_SomeD)
    then have "n \<noteq> u64_max" "n \<noteq> h" using 1(4,5) by blast+
    with 1(6) have "n \<noteq> u64_max" "n < h" by auto
    then have "n + 1 \<le> h" by (simp add: add_one_le_iff)
    moreover have "u64_max \<notin> set (bt_keys (bt_remove n t))" "h \<notin> set (bt_keys (bt_remove n t))"
      using 1(4,5) keys_bt_remove_subset [of n t] by blast+
    ultimately show ?thesis using 1(1) [OF Some _ o] 1(2) by simp
  qed
qed

definition drained :: "'v commit_buffer \<Rightarrow> bool" where
  "drained b = (bt_ok (cb_pending b) \<and> bt_get (cb_pending b) (cb_next_expected b) = None \<and>
     u64_max \<notin> set (bt_keys (cb_pending b)))"

lemma drained_new [simp]: "drained (buffer_new start capacity)"
  by (simp add: drained_def buffer_new_def)

text \<open>Feeding completions one by one releases what inserting them all at once would.\<close>

definition new_work :: "'v commit_buffer \<Rightarrow> (u64 \<times> 'v) list \<Rightarrow> bool" where
  "new_work b xs =
     (distinct (map fst xs) \<and>
      (\<forall>h \<in> set (map fst xs). cb_next_expected b \<le> h \<and> h \<noteq> u64_max \<and> h \<notin> set (bt_keys (cb_pending b))))"

lemma complete_all_alt:
  assumes "drained b" "new_work b xs"
  shows "complete_all xs b =
    (case release_run (cb_next_expected b) (bt.ins_all xs (cb_pending b)) of
       (out, n, t) \<Rightarrow> (out, b\<lparr>cb_next_expected := n, cb_pending := t\<rparr>))"
  using assms
proof (induction xs arbitrary: b)
  case (Cons x xs)
  obtain h v where x: "x = (h, v)" by force
  let ?t = "bt_insert h v (cb_pending b)"
  obtain out n' t' where r: "release_run (cb_next_expected b) ?t = (out, n', t')"
    by (cases "release_run (cb_next_expected b) ?t") auto
  let ?b = "b\<lparr>cb_next_expected := n', cb_pending := t'\<rparr>"
  have ok: "bt_ok ?t" using Cons.prems(1) by (simp add: drained_def)
  have keys: "set (bt_keys ?t) = insert h (set (bt_keys (cb_pending b)))" by (rule keys_bt_insert)
  have max: "u64_max \<notin> set (bt_keys ?t)"
    using Cons.prems x by (auto simp: keys drained_def new_work_def simp del: set_map)
  have c: "complete h v b = (out, ?b)"
    using Cons.prems(2) x r by (auto simp: complete_def complete_from_def new_work_def not_less [symmetric])
  have sub: "set (bt_keys t') \<subseteq> set (bt_keys ?t)" by (rule release_run_keys [OF ok r])
  have "drained ?b"
    using release_run_entries [OF ok r] release_run_consecutive [OF r] max sub by (auto simp: drained_def)
  moreover have fresh: "distinct (map fst xs)" "set (map fst xs) \<inter> set (bt_keys ?t) = {}"
    using Cons.prems(2) x unfolding keys by (auto simp: new_work_def simp del: set_map)
  have "cb_next_expected ?b \<le> k \<and> k \<noteq> u64_max \<and> k \<notin> set (bt_keys (cb_pending ?b))"
    if k: "k \<in> set (map fst xs)" for k
  proof -
    have "k \<notin> set (bt_keys ?t)" using fresh(2) k by blast
    moreover have "cb_next_expected b \<le> k" "k \<noteq> u64_max"
      using Cons.prems(2) x k by (auto simp: new_work_def)
    ultimately show ?thesis using release_run_bound [OF ok r max] sub by auto
  qed
  with fresh(1) have "new_work ?b xs" by (simp add: new_work_def)
  ultimately have "complete_all xs ?b = (case release_run n' (bt.ins_all xs t') of
      (out, n, t) \<Rightarrow> (out, ?b\<lparr>cb_next_expected := n, cb_pending := t\<rparr>))"
    using Cons.IH [of ?b] by simp
  then show ?case
    using c x release_run_ins_all [OF ok fresh r] by (simp split: prod.splits)
qed (simp add: drained_def release_run.simps)

end
