(* ===== verification/Sq_Dispatcher.thy ===== *)
theory Sq_Dispatcher
  imports Sq_CommitBuffer Sq_Range
begin

text \<open>
  The dispatcher, \<open>crates/dispatcher/src\<close>: limits, worker results and the commit side of
  \<open>TokioDispatcher\<close>. The pipeline of workers around it is a step relation: workers take
  blocks under the generation they read, finish in any order, and a reorg may reset the buffer
  between any two steps.
\<close>

section \<open>Limits\<close>

record dispatch_limits =
  dl_queue_capacity :: usize
  dl_workers :: usize
  dl_reorder_capacity :: usize

definition limits_new :: "usize \<Rightarrow> usize \<Rightarrow> usize \<Rightarrow> dispatch_limits" where
  "limits_new queue workers reorder =
     \<lparr>dl_queue_capacity = max queue 1, dl_workers = max workers 1, dl_reorder_capacity = max reorder 1\<rparr>"

definition limits_from_config :: "u32 \<Rightarrow> usize \<Rightarrow> dispatch_limits" where
  "limits_from_config batch_size workers = limits_new (ucast batch_size * 2) workers (workers * 2)"

definition limits_default :: dispatch_limits where
  "limits_default = limits_new 200 4 8"

section \<open>Workers\<close>

record 'p worker_output =
  wo_height :: u64
  wo_processed :: 'p

datatype 'p worker_result = Completed "'p worker_output" | WorkFailed u64 string

fun worker_result_height :: "'p worker_result \<Rightarrow> u64" where
  "worker_result_height (Completed output) = wo_height output"
| "worker_result_height (WorkFailed height _) = height"

fun worker_is_success :: "'p worker_result \<Rightarrow> bool" where
  "worker_is_success (Completed _) = True"
| "worker_is_success (WorkFailed _ _) = False"

record dispatch_status =
  ds_queued :: u32
  ds_in_flight :: u32
  ds_awaiting_commit :: u32
  ds_last_committed :: u64

section \<open>The dispatcher\<close>

record 'p tokio_dispatcher =
  td_limits :: dispatch_limits
  td_buffer :: "'p worker_output commit_buffer"

definition dispatcher_new :: "u64 \<Rightarrow> dispatch_limits \<Rightarrow> 'p tokio_dispatcher" where
  "dispatcher_new start limits =
     \<lparr>td_limits = limits, td_buffer = buffer_new start (dl_reorder_capacity limits)\<rparr>"

definition dispatcher_generation :: "'p tokio_dispatcher \<Rightarrow> u64" where
  "dispatcher_generation d = cb_generation (td_buffer d)"

definition take_committable ::
    "u64 \<Rightarrow> 'p worker_output \<Rightarrow> 'p tokio_dispatcher \<Rightarrow> 'p worker_output list \<times> 'p tokio_dispatcher" where
  "take_committable generation output d =
     (case complete_from generation (wo_height output) output (td_buffer d) of
        (released, buffer) \<Rightarrow> (map snd released, d\<lparr>td_buffer := buffer\<rparr>))"

definition dispatcher_reset_to :: "u64 \<Rightarrow> 'p tokio_dispatcher \<Rightarrow> nat \<times> 'p tokio_dispatcher" where
  "dispatcher_reset_to height d =
     (case buffer_reset_to height (td_buffer d) of
        (discarded, buffer) \<Rightarrow> (discarded, d\<lparr>td_buffer := buffer\<rparr>))"

definition dispatcher_next_expected :: "'p tokio_dispatcher \<Rightarrow> u64" where
  "dispatcher_next_expected d = cb_next_expected (td_buffer d)"

section \<open>The pipeline\<close>

text \<open>
  The ghost part of the state: the outputs committed since the last reset, and where that reset
  started. Each output carries the generation its work began under, so that the log shows
  which branch it belongs to.
\<close>

record 'q pipeline =
  pl_dispatcher :: "(u64 \<times> 'q) tokio_dispatcher"
  pl_in_flight :: "(u64 \<times> (u64 \<times> 'q) worker_output) list"
  pl_start :: u64
  pl_log :: "(u64 \<times> 'q) worker_output list"

definition pipeline_new :: "u64 \<Rightarrow> dispatch_limits \<Rightarrow> 'q pipeline" where
  "pipeline_new start limits =
     \<lparr>pl_dispatcher = dispatcher_new start limits, pl_in_flight = [], pl_start = start, pl_log = []\<rparr>"

definition take_block :: "u64 \<Rightarrow> 'q \<Rightarrow> 'q pipeline \<Rightarrow> 'q pipeline" where
  "take_block height q s =
     (let g = dispatcher_generation (pl_dispatcher s)
      in s\<lparr>pl_in_flight := (g, \<lparr>wo_height = height, wo_processed = (g, q)\<rparr>) # pl_in_flight s\<rparr>)"

definition finish_block :: "nat \<Rightarrow> 'q pipeline \<Rightarrow> 'q pipeline" where
  "finish_block i s =
     (case pl_in_flight s ! i of
        (g, output) \<Rightarrow>
          (case take_committable g output (pl_dispatcher s) of
             (outs, d) \<Rightarrow> s\<lparr>pl_dispatcher := d, pl_log := pl_log s @ outs,
               pl_in_flight := take i (pl_in_flight s) @ drop (Suc i) (pl_in_flight s)\<rparr>))"

definition pipeline_reset :: "u64 \<Rightarrow> 'q pipeline \<Rightarrow> 'q pipeline" where
  "pipeline_reset height s =
     s\<lparr>pl_dispatcher := snd (dispatcher_reset_to height (pl_dispatcher s)), pl_start := height, pl_log := []\<rparr>"

text \<open>A generation is used once: the last rule stops before the counter wraps.\<close>

inductive pipeline_step :: "'q pipeline \<Rightarrow> 'q pipeline \<Rightarrow> bool" where
  take: "pipeline_step s (take_block height q s)"
| finish: "i < length (pl_in_flight s) \<Longrightarrow> pipeline_step s (finish_block i s)"
| reset: "dispatcher_generation (pl_dispatcher s) \<noteq> u64_max \<Longrightarrow> pipeline_step s (pipeline_reset height s)"

inductive_cases pipeline_stepE: "pipeline_step s s'"

inductive pipeline_reachable :: "u64 \<Rightarrow> dispatch_limits \<Rightarrow> 'q pipeline \<Rightarrow> bool" for start limits where
  init: "pipeline_reachable start limits (pipeline_new start limits)"
| step: "pipeline_reachable start limits s \<Longrightarrow> pipeline_step s s' \<Longrightarrow> pipeline_reachable start limits s'"

section \<open>The invariant\<close>

definition log_contiguous :: "'q pipeline \<Rightarrow> bool" where
  "log_contiguous s =
     (map wo_height (pl_log s) = map (\<lambda>i. pl_start s + of_nat i) [0..<length (pl_log s)] \<and>
      dispatcher_next_expected (pl_dispatcher s) = pl_start s + of_nat (length (pl_log s)))"

definition tagged :: "u64 \<Rightarrow> u64 \<times> (u64 \<times> 'q) worker_output \<Rightarrow> bool" where
  "tagged g e = (wo_height (snd e) = fst e \<and> fst (wo_processed (snd e)) = g)"

definition pipeline_inv :: "'q pipeline \<Rightarrow> bool" where
  "pipeline_inv s =
     (let d = pl_dispatcher s; g = dispatcher_generation d
      in log_contiguous s \<and> bt_ok (cb_pending (td_buffer d)) \<and>
         (\<forall>e \<in> set (cb_pending (td_buffer d)). tagged g e) \<and>
         (\<forall>out \<in> set (pl_log s). fst (wo_processed out) = g) \<and>
         (\<forall>(c, out) \<in> set (pl_in_flight s). fst (wo_processed out) = c \<and> c \<le> g))"

lemma pipeline_inv_new: "pipeline_inv (pipeline_new start limits)"
  by (simp add: pipeline_inv_def pipeline_new_def dispatcher_new_def buffer_new_def log_contiguous_def
      dispatcher_next_expected_def)

lemma pipeline_inv_take: "pipeline_inv s \<Longrightarrow> pipeline_inv (take_block height q s)"
  by (auto simp: pipeline_inv_def take_block_def log_contiguous_def Let_def)

lemma pipeline_inv_reset:
  assumes "pipeline_inv s" "dispatcher_generation (pl_dispatcher s) \<noteq> u64_max"
  shows "pipeline_inv (pipeline_reset height s)"
proof -
  let ?g = "dispatcher_generation (pl_dispatcher s)"
  have "?g < ?g + 1" using assms(2) by (rule less_add_one)
  then have "c \<le> ?g \<Longrightarrow> c \<le> ?g + 1" for c by (meson order.strict_implies_order order.trans)
  with assms(1) show ?thesis
    by (auto simp: pipeline_inv_def pipeline_reset_def log_contiguous_def Let_def dispatcher_reset_to_def
        buffer_reset_to_def dispatcher_next_expected_def dispatcher_generation_def)
qed

lemma log_extend:
  assumes "xs = map (\<lambda>i. a + of_nat i) [0..<length xs]" "ys = map (\<lambda>i. a + of_nat (length xs) + of_nat i) [0..<length ys]"
  shows "xs @ ys = map (\<lambda>i. (a :: u64) + of_nat i) [0..<length (xs @ ys)]"
proof (rule nth_equalityI)
  fix i assume i: "i < length (xs @ ys)"
  have x: "xs ! j = a + of_nat j" if "j < length xs" for j
    using that by (subst assms(1)) simp
  have y: "ys ! j = a + of_nat (length xs) + of_nat j" if "j < length ys" for j
    using that by (subst assms(2)) simp
  show "(xs @ ys) ! i = map (\<lambda>i. a + of_nat i) [0..<length (xs @ ys)] ! i"
  proof (cases "i < length xs")
    case True
    with i show ?thesis by (simp add: x nth_append del: upt_Suc)
  next
    case False
    then have "of_nat (length xs) + of_nat (i - length xs) = (of_nat i :: u64)"
      by (simp flip: of_nat_add)
    with i False show ?thesis by (simp add: y nth_append add.assoc del: upt_Suc)
  qed
qed simp

lemma pipeline_inv_finish:
  assumes inv: "pipeline_inv s" and i: "i < length (pl_in_flight s)"
  shows "pipeline_inv (finish_block i s)"
proof -
  let ?d = "pl_dispatcher s" and ?b = "td_buffer (pl_dispatcher s)"
  obtain c w where e: "pl_in_flight s ! i = (c, w)" by force
  obtain out b' where cf: "complete_from c (wo_height w) w ?b = (out, b')"
    by (cases "complete_from c (wo_height w) w ?b") auto
  let ?s = "s\<lparr>pl_dispatcher := ?d\<lparr>td_buffer := b'\<rparr>, pl_log := pl_log s @ map snd out,
      pl_in_flight := take i (pl_in_flight s) @ drop (Suc i) (pl_in_flight s)\<rparr>"
  have s': "finish_block i s = ?s"
    by (simp add: finish_block_def e take_committable_def cf)
  have mem: "(c, w) \<in> set (pl_in_flight s)" using i e by (metis nth_mem)
  have sub: "set (pl_in_flight ?s) \<subseteq> set (pl_in_flight s)"
    by (auto dest: in_set_takeD in_set_dropD)
  show ?thesis
  proof (cases "c \<noteq> cb_generation ?b \<or> wo_height w < cb_next_expected ?b")
    case True
    with cf have "out = []" "b' = ?b" by (auto simp: complete_from_stale)
    with inv sub show ?thesis
      unfolding s' by (auto simp: pipeline_inv_def Let_def log_contiguous_def)
  next
    case False
    with inv cf have ok: "bt_ok (cb_pending ?b)" and
      cf': "complete_from (cb_generation ?b) (wo_height w) w ?b = (out, b')" and
      le: "cb_next_expected ?b \<le> wo_height w"
      by (auto simp: pipeline_inv_def Let_def)
    note a = complete_from_accepted [OF ok cf' le]
    have tag: "\<forall>e \<in> set out \<union> set (cb_pending b'). tagged (cb_generation ?b) e"
      using inv mem False unfolding a(5)
      by (fastforce simp: pipeline_inv_def Let_def dispatcher_generation_def tagged_def)
    then have heights: "map (wo_height \<circ> snd) out = map fst out" by (auto simp: tagged_def)
    have "log_contiguous ?s"
      using inv a(1,2) log_extend [of "map wo_height (pl_log s)" "pl_start s" "map fst out"]
      by (simp add: pipeline_inv_def Let_def log_contiguous_def dispatcher_next_expected_def heights add.assoc)
    moreover have "\<forall>x \<in> set (pl_log s @ map snd out). fst (wo_processed x) = cb_generation ?b"
      using inv tag by (auto simp: pipeline_inv_def Let_def dispatcher_generation_def tagged_def)
    moreover have "\<forall>(c, x) \<in> set (pl_in_flight ?s). fst (wo_processed x) = c \<and> c \<le> cb_generation ?b"
      using inv sub by (auto simp: pipeline_inv_def Let_def dispatcher_generation_def)
    moreover have "\<forall>e \<in> set (cb_pending b'). tagged (cb_generation ?b) e" using tag by blast
    ultimately show ?thesis
      unfolding s' using a(4,7) by (simp add: pipeline_inv_def Let_def dispatcher_generation_def)
  qed
qed

lemma pipeline_inv_step: "pipeline_step s s' \<Longrightarrow> pipeline_inv s \<Longrightarrow> pipeline_inv s'"
  by (auto elim!: pipeline_stepE intro: pipeline_inv_take pipeline_inv_finish pipeline_inv_reset)

lemma pipeline_inv_reachable: "pipeline_reachable start limits s \<Longrightarrow> pipeline_inv s"
  by (induction rule: pipeline_reachable.induct) (auto intro: pipeline_inv_new pipeline_inv_step)

section \<open>Properties\<close>

text \<open>C6: commits are contiguous and from one branch. Whatever order workers finish in and
  whenever a reorg resets the buffer, the outputs released since the last reset have exactly
  the consecutive heights from the resume point up to the height expected next, and every one
  of them was started after that reset: no work of an abandoned branch is committed.\<close>

theorem pipeline_commits_contiguous:
  "pipeline_reachable start limits s \<Longrightarrow>
     map wo_height (pl_log s) = map (\<lambda>i. pl_start s + of_nat i) [0..<length (pl_log s)] \<and>
     dispatcher_next_expected (pl_dispatcher s) = pl_start s + of_nat (length (pl_log s)) \<and>
     (\<forall>out \<in> set (pl_log s). fst (wo_processed out) = dispatcher_generation (pl_dispatcher s))"
  using pipeline_inv_reachable by (fastforce simp: pipeline_inv_def Let_def log_contiguous_def)

text \<open>C25: the order of completion is irrelevant. Completions of distinct new heights, fed in any
  two orders, release the same blocks in the same order and leave the same buffer.\<close>

theorem completion_order_irrelevant:
  "drained b \<Longrightarrow> new_work b xs \<Longrightarrow> mset xs = mset ys \<Longrightarrow> complete_all xs b = complete_all ys b"
proof -
  assume a: "drained b" "new_work b xs" "mset xs = mset ys"
  then have "set xs = set ys" "distinct (map fst ys)"
    by (metis set_mset_mset) (metis a(2,3) mset_eq_imp_distinct_iff mset_map new_work_def)
  with a(2) have "new_work b ys" by (simp add: new_work_def)
  moreover have "bt.ins_all xs (cb_pending b) = bt.ins_all ys (cb_pending b)"
    using a by (intro bt.ins_all_perm) (simp_all add: drained_def new_work_def)
  ultimately show ?thesis using a(1,2) by (simp add: complete_all_alt)
qed

text \<open>C26: one completion. Work of another generation and work below the expected height is
  ignored: it releases nothing and changes nothing. Any other is taken, whatever the capacity.
  Counted as multisets, what it releases and what is buffered afterwards are together what was
  buffered before and the new entry, less an earlier completion of the same height that was
  still buffered: that one is overwritten, as \<open>BTreeMap::insert\<close> does. The released heights are
  consecutive from the one expected, and the height then expected is not buffered.\<close>

theorem complete_from_conserves:
  "bt_ok (cb_pending b) \<Longrightarrow>
   (case complete_from g h v b of
      (out, b') \<Rightarrow>
        if g \<noteq> cb_generation b \<or> h < cb_next_expected b then out = [] \<and> b' = b
        else map fst out = map (\<lambda>i. cb_next_expected b + of_nat i) [0..<length out] \<and>
          cb_next_expected b' = cb_next_expected b + of_nat (length out) \<and>
          mset out + mset (cb_pending b') =
            add_mset (h, v) (filter_mset (\<lambda>e. fst e \<noteq> h) (mset (cb_pending b))) \<and>
          bt_get (cb_pending b') (cb_next_expected b') = None \<and> bt_ok (cb_pending b'))"
proof -
  assume ok: "bt_ok (cb_pending b)"
  show ?thesis
  proof (cases "g \<noteq> cb_generation b \<or> h < cb_next_expected b")
    case False
    obtain out b' where "complete_from g h v b = (out, b')" by force
    with complete_from_accepted [OF ok, of h v out b'] complete_from_entries [OF ok, of h v out b'] False
    show ?thesis by (auto simp: not_less)
  qed (auto simp: complete_from_stale)
qed

text \<open>C39: a bypass span starves the buffer. Once the height expected next is bypassed by the
  plan, completions of planned heights release nothing, however many arrive: the scheduler
  never plans the height the buffer waits for.\<close>

theorem bypass_starves_buffer:
  "is_bypassed p (cb_next_expected b) \<Longrightarrow> bt_get (cb_pending b) (cb_next_expected b) = None \<Longrightarrow>
   set (map fst xs) \<inter> {h. is_bypassed p h} = {} \<Longrightarrow>
     fst (complete_all xs b) = [] \<and>
     cb_next_expected (snd (complete_all xs b)) = cb_next_expected b"
proof (induction xs arbitrary: b)
  case (Cons x xs)
  obtain h v where x: "x = (h, v)" by force
  have h: "h \<noteq> cb_next_expected b" using Cons.prems(1,3) x by auto
  obtain b' where c: "complete h v b = ([], b')" and b': "b' = b \<or> b' = b\<lparr>cb_pending := bt_insert h v (cb_pending b)\<rparr>"
    using complete_waits [OF h Cons.prems(2), of "cb_generation b" v] by (auto simp: complete_def)
  have n: "cb_next_expected b' = cb_next_expected b" "bt_get (cb_pending b') (cb_next_expected b') = None"
    using b' h Cons.prems(2) by auto
  have "set (map fst xs) \<inter> {h. is_bypassed p h} = {}" using Cons.prems(3) by auto
  with Cons.IH [of b'] Cons.prems(1) n have "fst (complete_all xs b') = [] \<and>
     cb_next_expected (snd (complete_all xs b')) = cb_next_expected b" by simp
  with c x show ?case by (simp split: prod.splits)
qed simp

section \<open>Witnesses\<close>

definition demo_limits :: dispatch_limits where
  "demo_limits = limits_from_config 10 2"

text \<open>Two blocks in flight across a reorg: the stale one finishes first and is dropped.\<close>

definition demo_pipeline :: "string pipeline" where
  "demo_pipeline =
     finish_block 0 (finish_block 0 (take_block 101 ''new101'' (take_block 100 ''new100''
       (finish_block 0 (pipeline_reset 100 (take_block 101 ''old'' (pipeline_new 100 demo_limits)))))))"

lemma demo_pipeline_log:
  "map (\<lambda>w. (wo_height w, wo_processed w)) (pl_log demo_pipeline) =
     [(100, 1, ''new100''), (101, 1, ''new101'')]"
  by code_simp

lemma pipeline_commits_contiguous_witness:
  "pipeline_reachable 100 demo_limits demo_pipeline \<and> length (pl_log demo_pipeline) = 2 \<and>
   map wo_height (pl_log demo_pipeline) = map (\<lambda>i. pl_start demo_pipeline + of_nat i) [0..<2] \<and>
   {w \<in> set (pl_log demo_pipeline). fst (wo_processed w) \<noteq> 1} = {}"
proof -
  have "pipeline_reachable 100 demo_limits demo_pipeline"
    unfolding demo_pipeline_def
    by (intro pipeline_reachable.step [OF _ pipeline_step.finish] pipeline_reachable.step [OF _ pipeline_step.take]
        pipeline_reachable.step [OF _ pipeline_step.reset] pipeline_reachable.init; code_simp)
  moreover have "length (pl_log demo_pipeline) = 2" "dispatcher_generation (pl_dispatcher demo_pipeline) = 1"
    by code_simp+
  ultimately show ?thesis
    using pipeline_commits_contiguous [of 100 demo_limits demo_pipeline] by simp
qed

definition demo_work :: "(u64 \<times> string) list" where
  "demo_work = [(103, ''d''), (101, ''b''), (100, ''a''), (102, ''c'')]"

lemma completion_order_irrelevant_witness:
  "complete_all demo_work (buffer_new 100 4) = complete_all (rev demo_work) (buffer_new 100 4)"
proof (rule completion_order_irrelevant)
  show "new_work (buffer_new 100 4) demo_work"
    by code_simp
qed (simp_all add: demo_work_def)

text \<open>Block 103 waits and is delivered a second time: the later copy replaces the buffered one,
  and nothing else is lost.\<close>

lemma complete_from_conserves_witness:
  "case complete_from 0 103 ''d2'' (snd (complete_all [(103, ''d''), (104, ''e'')] (buffer_new 102 4))) of
     (out, b') \<Rightarrow> mset out + mset (cb_pending b') = {#(103, ''d2''), (104, ''e'')#}"
proof -
  obtain b where b: "b = snd (complete_all [(103, ''d''), (104, ''e'')] (buffer_new 102 4))" by simp
  have f: "cb_generation b = 0" "cb_next_expected b = 102" "cb_pending b = [(103, ''d''), (104, ''e'')]"
    unfolding b by code_simp+
  obtain out b' where c: "complete_from 0 103 ''d2'' b = (out, b')" by force
  have "mset out + mset (cb_pending b') =
      add_mset (103, ''d2'') (filter_mset (\<lambda>e. fst e \<noteq> 103) (mset (cb_pending b)))"
    using complete_from_conserves [of b 0 103 "''d2''"] c f by simp
  also have "\<dots> = {#(103, ''d2''), (104, ''e'')#}" by (simp add: f)
  finally show ?thesis using c by (simp add: b)
qed

text \<open>After 100 to 102 committed with 103 and 104 bypassed, the next planned blocks wait for ever.\<close>

lemma bypass_starves_buffer_witness:
  "let p = plan_bypass plan_new 103 104; b = snd (complete_all [(100, ''a''), (101, ''b''), (102, ''c'')] (buffer_new 100 8));
       s = complete_all [(105, ''d''), (106, ''e'')] b
   in heights_in p \<lparr>br_start = 103, br_end = 106\<rparr> = [105, 106] \<and> fst s = [] \<and> stall_gap (snd s) = Some (103, 105)"
proof -
  let ?p = "plan_bypass plan_new 103 104"
  let ?b = "snd (complete_all [(100, ''a''), (101, ''b''), (102, ''c'')] (buffer_new 100 8))"
  have "is_bypassed ?p (cb_next_expected ?b)" "bt_get (cb_pending ?b) (cb_next_expected ?b) = None"
    by code_simp+
  moreover have "set (map fst [(105 :: u64, ''d''), (106, ''e'')]) \<inter> {h. is_bypassed ?p h} = {}"
    by (simp add: bypassed_plan_bypass word_le_nat_alt)
  ultimately have "fst (complete_all [(105, ''d''), (106, ''e'')] ?b) = []"
    by (rule bypass_starves_buffer [THEN conjunct1])
  moreover have "stall_gap (snd (complete_all [(105, ''d''), (106, ''e'')] ?b)) = Some (103, 105)"
    "heights_in ?p \<lparr>br_start = 103, br_end = 106\<rparr> = [105, 106]"
    by code_simp+
  ultimately show ?thesis by simp
qed

end
