(* ===== verification/Sq_Queue.thy ===== *)
theory Sq_Queue
  imports Sq_Prelude
begin

text \<open>
  The bounded queue between fetching and processing, \<open>crates/dispatcher/src/queue.rs\<close>: a thin
  wrapper over the Tokio \<open>mpsc\<close> channel. The channel is no code of the repository, so it is a
  parameter: a record of the functions the wrapper calls, on a state \<open>'c\<close> of which nothing is
  known but \<open>channel_laws\<close>, the behaviour its documentation states. One call of an \<open>async\<close>
  function is one poll of its future. Shown: the drain returns, empties the queue and reports
  how many blocks it discarded, and what the gauges count.
\<close>

section \<open>The channel\<close>

record 'b queued_block =
  qb_height :: u64
  qb_block :: 'b

datatype 'r poll = Ready 'r | Pending

text \<open>\<open>mpsc::channel\<close> panics (\<open>None\<close>) on a size it does not take. The errors of \<open>send\<close> and
  \<open>try_recv\<close> carry nothing the queue looks at.\<close>

record ('c, 'b) mpsc =
  mp_channel :: "usize \<Rightarrow> 'c option"
  mp_send :: "'b queued_block \<Rightarrow> 'c \<Rightarrow> (unit + unit) poll \<times> 'c"
  mp_recv :: "'c \<Rightarrow> 'b queued_block option poll \<times> 'c"
  mp_try_recv :: "'c \<Rightarrow> (unit + 'b queued_block) \<times> 'c"
  mp_capacity :: "'c \<Rightarrow> usize"
  mp_max_capacity :: "'c \<Rightarrow> usize"

section \<open>The queue\<close>

definition queue :: "('c, 'b) mpsc \<Rightarrow> usize \<Rightarrow> 'c option" where
  "queue mp capacity = mp_channel mp (max capacity 1)"

definition queue_send :: "('c, 'b) mpsc \<Rightarrow> u64 \<Rightarrow> 'b \<Rightarrow> 'c \<Rightarrow> bool poll \<times> 'c" where
  "queue_send mp height block ch =
     (case mp_send mp \<lparr>qb_height = height, qb_block = block\<rparr> ch of
        (Ready r, ch') \<Rightarrow> (Ready (r = Inr ()), ch')
      | (Pending, ch') \<Rightarrow> (Pending, ch'))"

definition queue_depth :: "('c, 'b) mpsc \<Rightarrow> 'c \<Rightarrow> usize" where
  "queue_depth mp ch = mp_max_capacity mp ch - mp_capacity mp ch"

definition queue_free :: "('c, 'b) mpsc \<Rightarrow> 'c \<Rightarrow> usize" where
  "queue_free mp ch = mp_capacity mp ch"

definition queue_is_full :: "('c, 'b) mpsc \<Rightarrow> 'c \<Rightarrow> bool" where
  "queue_is_full mp ch = (mp_capacity mp ch = 0)"

definition queue_recv :: "('c, 'b) mpsc \<Rightarrow> 'c \<Rightarrow> 'b queued_block option poll \<times> 'c" where
  "queue_recv mp ch = mp_recv mp ch"

text \<open>The loop of \<open>drain\<close>. Whether it ends is up to the channel, so it is a partial function.\<close>

partial_function (option) drain_loop :: "('c, 'b) mpsc \<Rightarrow> usize \<Rightarrow> 'c \<Rightarrow> (usize \<times> 'c) option" where
  "drain_loop mp dropped ch =
     (case mp_try_recv mp ch of
        (Inr _, ch') \<Rightarrow> drain_loop mp (dropped + 1) ch'
      | (Inl _, ch') \<Rightarrow> Some (dropped, ch'))"

definition queue_drain :: "('c, 'b) mpsc \<Rightarrow> 'c \<Rightarrow> (usize \<times> 'c) option" where
  "queue_drain mp ch = drain_loop mp 0 ch"

section \<open>What the channel documents\<close>

text \<open>
  In every state a channel can be in (\<open>valid\<close>) it holds a list of sent values (\<open>buffered\<close>) and
  has handed out a number of permits that no value uses yet (\<open>permits\<close>): a sender that waited
  and was given the place of a received value holds one until it runs again. The capacity is what
  is left of the maximum after both. \<open>try_recv\<close> takes the oldest value, or fails when there is
  none; while it does, no other task runs.
\<close>

definition channel_laws ::
  "('c, 'b) mpsc \<Rightarrow> ('c \<Rightarrow> bool) \<Rightarrow> ('c \<Rightarrow> 'b queued_block list) \<Rightarrow> ('c \<Rightarrow> nat) \<Rightarrow> bool" where
  "channel_laws mp valid buffered permits =
     ((\<forall>n ch. mp_channel mp n = Some ch \<longrightarrow>
         valid ch \<and> buffered ch = [] \<and> permits ch = 0 \<and> mp_max_capacity mp ch = n) \<and>
      (\<forall>ch. valid ch \<longrightarrow>
         unat (mp_capacity mp ch) + length (buffered ch) + permits ch = unat (mp_max_capacity mp ch)) \<and>
      (\<forall>ch. valid ch \<longrightarrow>
         (case mp_try_recv mp ch of
            (Inl _, ch') \<Rightarrow> buffered ch = [] \<and> buffered ch' = [] \<and> valid ch'
          | (Inr q, ch') \<Rightarrow> buffered ch = q # buffered ch' \<and> valid ch')))"

lemma channel_lawsD:
  assumes "channel_laws mp valid buffered permits"
  shows channel_new: "mp_channel mp n = Some ch \<Longrightarrow>
      valid ch \<and> buffered ch = [] \<and> permits ch = 0 \<and> mp_max_capacity mp ch = n"
    and channel_room: "valid ch \<Longrightarrow>
      unat (mp_capacity mp ch) + length (buffered ch) + permits ch = unat (mp_max_capacity mp ch)"
    and channel_take: "valid ch \<Longrightarrow>
      (case mp_try_recv mp ch of
         (Inl _, ch') \<Rightarrow> buffered ch = [] \<and> buffered ch' = [] \<and> valid ch'
       | (Inr q, ch') \<Rightarrow> buffered ch = q # buffered ch' \<and> valid ch')"
  using assms [unfolded channel_laws_def, THEN conjunct1] assms [unfolded channel_laws_def, THEN conjunct2]
  by simp_all

section \<open>Draining and the gauges\<close>

lemma drain_loop_counts:
  assumes "channel_laws mp valid buffered permits" "valid ch"
  shows "\<exists>ch'. drain_loop mp dropped ch = Some (dropped + of_nat (length (buffered ch)), ch') \<and>
    valid ch' \<and> buffered ch' = []"
  using assms(2)
proof (induction "buffered ch" arbitrary: dropped ch)
  case Nil
  with channel_take [OF assms(1) Nil.prems] show ?case
    by (auto simp: drain_loop.simps [of mp dropped ch] split: prod.splits sum.splits)
next
  case (Cons q qs)
  obtain ch1 where t: "mp_try_recv mp ch = (Inr q, ch1)" "qs = buffered ch1" "valid ch1"
    using channel_take [OF assms(1) Cons.prems] Cons(2) by (auto split: prod.splits sum.splits)
  obtain ch' where rest: "drain_loop mp (dropped + 1) ch1 = Some (dropped + 1 + of_nat (length qs), ch')"
    "valid ch'" "buffered ch' = []"
    using Cons.hyps(1) [OF t(2,3), of "dropped + 1"] t(2) by auto
  have "drain_loop mp dropped ch = drain_loop mp (dropped + 1) ch1"
    by (subst drain_loop.simps) (simp add: t(1))
  moreover have "dropped + 1 + of_nat (length qs) = dropped + of_nat (length (buffered ch))"
    by (simp flip: Cons(2))
  ultimately show ?case using rest by simp
qed

lemma queue_gauges:
  assumes "channel_laws mp valid buffered permits" "valid ch"
  shows "unat (queue_depth mp ch) = length (buffered ch) + permits ch"
    "unat (queue_depth mp ch) + unat (queue_free mp ch) = unat (mp_max_capacity mp ch)"
    "queue_is_full mp ch \<longleftrightarrow> length (buffered ch) + permits ch = unat (mp_max_capacity mp ch)"
proof -
  note room = channel_room [OF assms]
  then have "mp_capacity mp ch \<le> mp_max_capacity mp ch" by (simp add: word_le_nat_alt)
  then show depth: "unat (queue_depth mp ch) = length (buffered ch) + permits ch"
    using room by (simp add: queue_depth_def unat_sub)
  show "unat (queue_depth mp ch) + unat (queue_free mp ch) = unat (mp_max_capacity mp ch)"
    unfolding depth using room by (simp add: queue_free_def)
  show "queue_is_full mp ch \<longleftrightarrow> length (buffered ch) + permits ch = unat (mp_max_capacity mp ch)"
    using room unat_eq_zero [of "mp_capacity mp ch"] by (auto simp: queue_is_full_def)
qed

text \<open>C21: Draining the queue and reading its gauges. For every channel that behaves as Tokio
  documents, a drain that no other task interrupts returns, leaves no block, and reports exactly
  how many it discarded, without the counter wrapping. The depth never underflows: it is the
  number of blocks in the queue plus the places given to senders that have not run since, so
  that depth and free places add up to the capacity, and full means that blocks and given places
  fill it, not that the blocks alone do.\<close>

theorem queue_drain_exact:
  assumes "channel_laws mp valid buffered permits" "valid ch"
  shows "(\<exists>dropped ch'. queue_drain mp ch = Some (dropped, ch') \<and> unat dropped = length (buffered ch) \<and>
      valid ch' \<and> buffered ch' = []) \<and>
    unat (queue_depth mp ch) = length (buffered ch) + permits ch \<and>
    unat (queue_depth mp ch) + unat (queue_free mp ch) = unat (mp_max_capacity mp ch) \<and>
    (queue_is_full mp ch \<longleftrightarrow> length (buffered ch) + permits ch = unat (mp_max_capacity mp ch))"
proof -
  have "length (buffered ch) < 2 ^ 64"
    using channel_room [OF assms] unat_u64_bound [of "mp_max_capacity mp ch"] by linarith
  then have "unat (of_nat (length (buffered ch)) :: usize) = length (buffered ch)" by (rule unat_of_nat_u64)
  with drain_loop_counts [OF assms, of 0] queue_gauges [OF assms] show ?thesis
    by (auto simp: queue_drain_def)
qed

section \<open>A channel\<close>

text \<open>A channel with the places given to waiting senders: its capacity, its values, the number of
  those places, and the number of senders that wait. A receipt gives its place to a waiting
  sender.\<close>

type_synonym demo_channel = "nat \<times> unit queued_block list \<times> nat \<times> nat"

definition demo_take :: "demo_channel \<Rightarrow> (unit + unit queued_block) \<times> demo_channel" where
  "demo_take ch =
     (case ch of (n, [], given, waiting) \<Rightarrow> (Inl (), ch)
      | (n, q # qs, given, waiting) \<Rightarrow>
          (Inr q, n, qs, if 0 < waiting then given + 1 else given, waiting - 1))"

definition demo_mpsc :: "(demo_channel, unit) mpsc" where
  "demo_mpsc = \<lparr>
     mp_channel = (\<lambda>n. if n = 0 then None else Some (unat n, [], 0, 0)),
     mp_send = (\<lambda>q (n, qs, given, waiting).
       if length qs + given < n then (Ready (Inr ()), (n, qs @ [q], given, waiting))
       else (Pending, (n, qs, given, waiting + 1))),
     mp_recv = (\<lambda>ch. case demo_take ch of (Inr q, ch') \<Rightarrow> (Ready (Some q), ch') | (Inl _, ch') \<Rightarrow> (Pending, ch')),
     mp_try_recv = demo_take,
     mp_capacity = (\<lambda>(n, qs, given, waiting). of_nat (n - length qs - given)),
     mp_max_capacity = (\<lambda>(n, qs, given, waiting). of_nat n)\<rparr>"

definition demo_valid :: "demo_channel \<Rightarrow> bool" where
  "demo_valid ch = (case ch of (n, qs, given, waiting) \<Rightarrow> length qs + given \<le> n \<and> n < 2 ^ 64)"

definition demo_buffered :: "demo_channel \<Rightarrow> unit queued_block list" where
  "demo_buffered ch = fst (snd ch)"

definition demo_permits :: "demo_channel \<Rightarrow> nat" where
  "demo_permits ch = fst (snd (snd ch))"

lemmas demo_channel_defs = demo_mpsc_def demo_valid_def demo_buffered_def demo_permits_def demo_take_def

lemma demo_channel_laws: "channel_laws demo_mpsc demo_valid demo_buffered demo_permits"
  unfolding channel_laws_def
proof (intro conjI allI impI)
  fix n and ch :: demo_channel
  assume "mp_channel demo_mpsc n = Some ch"
  then show "demo_valid ch" "demo_buffered ch = []" "demo_permits ch = 0" "mp_max_capacity demo_mpsc ch = n"
    using unat_u64_bound [of n] by (auto simp: demo_channel_defs split: if_splits)
next
  fix ch :: demo_channel
  assume "demo_valid ch"
  then show "unat (mp_capacity demo_mpsc ch) + length (demo_buffered ch) + demo_permits ch =
      unat (mp_max_capacity demo_mpsc ch)"
  proof (cases ch)
    case (fields n qs given waiting)
    with \<open>demo_valid ch\<close> have n: "length qs + given \<le> n" "n < 2 ^ 64" by (simp_all add: demo_valid_def)
    then have "unat (of_nat (n - length qs - given) :: usize) = n - length qs - given"
      by (intro unat_of_nat_u64) linarith
    moreover have "unat (of_nat n :: usize) = n" using n(2) by (rule unat_of_nat_u64)
    ultimately show ?thesis using n(1)
      by (simp add: fields demo_channel_defs del: of_nat_diff)
  qed
next
  fix ch :: demo_channel
  assume "demo_valid ch"
  then show "case mp_try_recv demo_mpsc ch of
      (Inl _, ch') \<Rightarrow> demo_buffered ch = [] \<and> demo_buffered ch' = [] \<and> demo_valid ch'
    | (Inr q, ch') \<Rightarrow> demo_buffered ch = q # demo_buffered ch' \<and> demo_valid ch'"
    by (cases ch) (auto simp: demo_channel_defs split: list.split)
qed

definition demo_queued :: "u64 \<Rightarrow> unit queued_block" where
  "demo_queued h = \<lparr>qb_height = h, qb_block = ()\<rparr>"

text \<open>Two places, two blocks and a sender that waits: one block is received, and its place goes to
  the sender. One block is in the queue, which is full; a drain discards that one.\<close>

definition demo_waiting :: demo_channel where
  "demo_waiting = snd (queue_recv demo_mpsc (snd (queue_send demo_mpsc 9 () (2, [demo_queued 7, demo_queued 8], 0, 0))))"

lemma demo_waiting: "demo_waiting = (2, [demo_queued 8], 1, 0)"
  by (simp add: demo_waiting_def queue_recv_def queue_send_def demo_mpsc_def demo_take_def)

theorem queue_drain_exact_witness:
  "(\<exists>ch'. queue_drain demo_mpsc demo_waiting = Some (1, ch') \<and> demo_buffered ch' = []) \<and>
   unat (queue_depth demo_mpsc demo_waiting) = 2 \<and> queue_is_full demo_mpsc demo_waiting"
proof -
  have "demo_valid demo_waiting" "length (demo_buffered demo_waiting) = 1" "demo_permits demo_waiting = 1"
    by (simp_all add: demo_waiting demo_valid_def demo_buffered_def demo_permits_def)
  moreover have "unat (mp_max_capacity demo_mpsc demo_waiting) = 2"
    by (simp add: demo_waiting demo_mpsc_def)
  moreover have "unat dropped = 1 \<Longrightarrow> dropped = 1" for dropped :: usize
    by (metis unat_1 word_unat_eq_iff)
  ultimately show ?thesis
    using queue_drain_exact [OF demo_channel_laws, of demo_waiting] by auto
qed

end
