(* ===== verification/Sq_HeightMap.thy ===== *)
theory Sq_HeightMap
  imports Sq_BTreeMap Sq_ChainApi
begin

text \<open>
  Values that change at known heights, \<open>crates/core/src/project/block_height_map.rs\<close>, and the
  datasources of the engine, \<open>datasource.rs\<close>. A height map is the ordered map from the start
  of each span to its value. Its abstraction is the step function \<open>value_at\<close> from heights to
  values; the lemmas show that every query reads that function.
\<close>

section \<open>The height map\<close>

record 'v get_range =
  gr_value :: 'v
  gr_start_height :: u64
  gr_end_height :: "u64 option"

type_synonym 'v height_map = "(u64, 'v) btree"

definition height_map_new :: "(u64, 'v) btree \<Rightarrow> 'v height_map" where
  "height_map_new initial = initial"

definition get_details :: "'v height_map \<Rightarrow> u64 \<Rightarrow> ('v \<times> u64 \<times> u64 option) option" where
  "get_details m height =
     (case filter (\<lambda>(k, v). k \<le> height) m of
        [] \<Rightarrow> None
      | x # xs \<Rightarrow>
          (case last (x # xs) of (start, value) \<Rightarrow>
             let end = (case filter (\<lambda>(k, v). start < k) m of
                          [] \<Rightarrow> None | (next, v) # _ \<Rightarrow> Some (next - 1))
             in Some (value, start, end)))"

datatype entry_not_found = EntryNotFound u64

definition height_map_get :: "'v height_map \<Rightarrow> u64 \<Rightarrow> entry_not_found + 'v" where
  "height_map_get m height = ok_or (map_option fst (get_details m height)) (EntryNotFound height)"

definition get_safe :: "'v height_map \<Rightarrow> u64 \<Rightarrow> 'v option" where
  "get_safe m height = (case height_map_get m height of Inr v \<Rightarrow> Some v | Inl _ \<Rightarrow> None)"

definition get_all_with_range :: "'v height_map \<Rightarrow> 'v get_range list" where
  "get_all_with_range m =
     map (\<lambda>(i, (k, v)). \<lparr>gr_value = v, gr_start_height = k,
        gr_end_height = (if i + 1 < length (bt_keys m) then Some (bt_keys m ! (i + 1) - 1) else None)\<rparr>)
       (enumerate 0 m)"

fun within_loop ::
  "'v height_map \<Rightarrow> u64 \<Rightarrow> u64 \<Rightarrow> u64 option \<Rightarrow> (u64, 'v) btree \<Rightarrow> (u64 \<times> 'v) list \<Rightarrow> (u64, 'v) btree" where
  "within_loop m start_height end_height previous_key result [] = result"
| "within_loop m start_height end_height previous_key result ((key, v) # rest) =
     (let result = (case previous_key of
            None \<Rightarrow> result
          | Some prev \<Rightarrow>
              if prev < start_height \<and> start_height \<le> key
              then (case bt_get m prev of Some pv \<Rightarrow> bt_insert prev pv result | None \<Rightarrow> result)
              else result);
          result = (if start_height \<le> key \<and> key \<le> end_height then bt_insert key v result else result)
      in within_loop m start_height end_height (Some key) result rest)"

definition get_within_range :: "'v height_map \<Rightarrow> u64 \<Rightarrow> u64 \<Rightarrow> (u64, 'v) btree" where
  "get_within_range m start_height end_height = within_loop m start_height end_height None [] m"

definition height_map_map :: "('v \<Rightarrow> 'u) \<Rightarrow> 'v height_map \<Rightarrow> 'u height_map" where
  "height_map_map f m = height_map_new (map (\<lambda>(k, v). (k, f v)) m)"

section \<open>Datasources\<close>

datatype data_source_origin = Static_Origin | Dynamic_Origin string u64

record engine_handler =
  eh_function :: string
  eh_kind :: handler_kind
  eh_filter :: chain_filter

record engine_source =
  es_name :: string
  es_start_height :: u64
  es_end_height :: "u64 option"
  es_handlers :: "engine_handler list"
  es_origin :: data_source_origin

record dynamic_source =
  dy_template :: string
  dy_start_height :: u64
  dy_parameters :: json

definition is_active_at :: "engine_source \<Rightarrow> u64 \<Rightarrow> bool" where
  "is_active_at s height =
     (es_start_height s \<le> height \<and> (case es_end_height s of None \<Rightarrow> True | Some end \<Rightarrow> height \<le> end))"

definition filters_for :: "engine_source \<Rightarrow> handler_kind \<Rightarrow> chain_filter list" where
  "filters_for s kind = map eh_filter (filter (\<lambda>h. eh_kind h = kind) (es_handlers s))"

section \<open>The step function\<close>

text \<open>The abstraction: the value of the greatest key not above the height.\<close>

definition value_at :: "'v height_map \<Rightarrow> u64 \<Rightarrow> 'v option" where
  "value_at m h = (case filter (\<lambda>(k, v). k \<le> h) m of [] \<Rightarrow> None | xs \<Rightarrow> Some (snd (last xs)))"

lemma get_safe_value: "get_safe m h = value_at m h"
  by (auto simp: get_safe_def height_map_get_def get_details_def value_at_def Let_def
      split: list.split prod.split)

lemma height_map_get_value: "height_map_get m h = ok_or (value_at m h) (EntryNotFound h)"
  by (auto simp: height_map_get_def get_details_def value_at_def Let_def split: list.split prod.split)

lemma bt_ok_split:
  assumes "bt_ok m"
  shows "m = filter (\<lambda>(k, v). k < s) m @ filter (\<lambda>(k, v). s \<le> k) m"
  using assms
proof (induction m)
  case (Cons x m)
  obtain k v where x: "x = (k, v)" by (cases x)
  show ?case
  proof (cases "k < s")
    case False
    then have "s \<le> l" if "l \<in> set (bt_keys m)" for l
      using Cons.prems that x by (auto simp del: set_map)
    then have "filter (\<lambda>(k, v). k < s) m = []" "filter (\<lambda>(k, v). s \<le> k) m = m"
      by (force simp: filter_empty_conv filter_id_conv not_less)+
    with False x show ?thesis by simp
  qed (use Cons x in auto)
qed simp

lemma within_loop_low:
  "(\<forall>k \<in> set (bt_keys lows). k < s) \<Longrightarrow>
     within_loop m s e prev result (lows @ rest) =
     within_loop m s e (if lows = [] then prev else Some (fst (last lows))) result rest"
  by (induction lows arbitrary: prev) (auto simp: not_le [symmetric] split: option.split)

lemma within_loop_high:
  "(\<forall>k \<in> set (bt_keys highs). s \<le> k) \<Longrightarrow> bt_ok highs \<Longrightarrow>
     (\<forall>l \<in> set (bt_keys result). \<forall>k \<in> set (bt_keys highs). l < k) \<Longrightarrow> s \<le> p \<Longrightarrow>
     within_loop m s e (Some p) result highs = result @ filter (\<lambda>(k, v). k \<le> e) highs"
proof (induction highs arbitrary: p result)
  case (Cons x highs)
  obtain k v where x: "x = (k, v)" by (cases x)
  have "within_loop m s e (Some k) (if k \<le> e then result @ [(k, v)] else result) highs =
      (if k \<le> e then result @ [(k, v)] else result) @ filter (\<lambda>(k, v). k \<le> e) highs"
    using Cons.prems x by (intro Cons.IH) auto
  with Cons.prems x show ?case
    by (auto simp: bt_insert_last not_less)
qed simp

text \<open>The result of the query, as a list: the last entry below the range if one follows, then
  the entries of the range.\<close>

lemma get_within_range_alt:
  assumes "bt_ok m"
  shows "get_within_range m s e =
    (let lows = filter (\<lambda>(k, v). k < s) m; highs = filter (\<lambda>(k, v). s \<le> k) m
     in if highs = [] then []
        else (if lows = [] then [] else [last lows]) @ filter (\<lambda>(k, v). k \<le> e) highs)"
proof -
  define lows where "lows = filter (\<lambda>(k, v). k < s) m"
  define highs where "highs = filter (\<lambda>(k, v). s \<le> k) m"
  have m: "m = lows @ highs" using bt_ok_split [OF assms] by (simp add: lows_def highs_def)
  have low: "\<forall>k \<in> set (bt_keys lows). k < s" and high: "\<forall>k \<in> set (bt_keys highs). s \<le> k"
    by (auto simp: lows_def highs_def)
  have run: "get_within_range m s e =
      within_loop m s e (if lows = [] then None else Some (fst (last lows))) [] highs"
    unfolding get_within_range_def using within_loop_low [OF low, of m e None "[]" highs] m by simp
  show ?thesis
  proof (cases highs)
    case Nil
    then show ?thesis using run by (simp add: lows_def [symmetric] highs_def [symmetric])
  next
    case (Cons x rest)
    obtain k v where x: "x = (k, v)" by (cases x)
    define before where "before = (if lows = [] then [] else [last lows])"
    have ok: "bt_ok highs" using assms m by (simp add: bt_ok_def sorted_wrt_append)
    have dist: "distinct (map fst m)" using assms by (simp add: bt_ok_def strict_sorted_iff)
    have last: "bt_get m (fst (last lows)) = Some (snd (last lows))" if "lows \<noteq> []"
      using that dist m by (intro map_of_is_SomeI) auto
    have below: "fst (last lows) < s" if "lows \<noteq> []"
      using that low by auto
    have sk: "s \<le> k" using high Cons x by simp
    have "within_loop m s e (if lows = [] then None else Some (fst (last lows))) [] highs =
        within_loop m s e (Some k) (if k \<le> e then before @ [(k, v)] else before) rest"
      using last below sk bt_insert_last [of "[last lows]" k v]
      by (auto simp: Cons x before_def)
    also have "\<dots> = (if k \<le> e then before @ [(k, v)] else before) @ filter (\<lambda>(k, v). k \<le> e) rest"
      using high ok below sk Cons x
      by (intro within_loop_high) (fastforce simp: before_def split: if_splits)+
    finally show ?thesis
      using run Cons x by (auto simp: lows_def [symmetric] highs_def [symmetric] before_def)
  qed
qed

lemma value_at_alt:
  "value_at m h = (if filter (\<lambda>(k, v). k \<le> h) m = [] then None
     else Some (snd (last (filter (\<lambda>(k, v). k \<le> h) m))))"
  by (simp add: value_at_def split: list.split)

lemma value_at_append:
  "value_at (xs @ ys) h =
     (if \<exists>k \<in> set (bt_keys ys). k \<le> h then value_at ys h else value_at xs h)"
proof (cases "filter (\<lambda>(k, v). k \<le> h) ys = []")
  case True
  then have "\<not> (\<exists>k \<in> set (bt_keys ys). k \<le> h)" by (auto simp: filter_empty_conv)
  with True show ?thesis by (simp add: value_at_def)
next
  case False
  then have "\<exists>k \<in> set (bt_keys ys). k \<le> h" by (force simp: filter_empty_conv)
  with False show ?thesis by (simp add: value_at_alt del: bex_simps)
qed

lemma value_at_last:
  "xs \<noteq> [] \<Longrightarrow> (\<forall>k \<in> set (bt_keys xs). k \<le> h) \<Longrightarrow> value_at xs h = Some (snd (last xs))"
proof -
  assume "xs \<noteq> []" "\<forall>k \<in> set (bt_keys xs). k \<le> h"
  moreover from this have "filter (\<lambda>(k, v). k \<le> h) xs = xs" by (force simp: filter_id_conv)
  ultimately show ?thesis by (simp add: value_at_alt)
qed

text \<open>Restricting a height map to a range changes no answer in the range: as long as some
  value starts at or after the beginning of the range, the restricted map has the same value
  as the whole map at every height of the range. Without such a value the result is empty,
  whatever was active, as in the code this function was ported from.\<close>

theorem within_range_agrees:
  assumes "bt_ok m" "s \<le> h" "h \<le> e"
  shows "value_at (get_within_range m s e) h =
    (if list_ex (\<lambda>(k, v). s \<le> k) m then value_at m h else None)"
proof -
  define lows where "lows = filter (\<lambda>(k, v). k < s) m"
  define highs where "highs = filter (\<lambda>(k, v). s \<le> k) m"
  have m: "m = lows @ highs" using bt_ok_split [OF assms(1)] by (simp add: lows_def highs_def)
  have alt: "get_within_range m s e =
      (if highs = [] then [] else (if lows = [] then [] else [last lows]) @ filter (\<lambda>(k, v). k \<le> e) highs)"
    using get_within_range_alt [OF assms(1), of s e]
    unfolding lows_def [symmetric] highs_def [symmetric] by (simp add: Let_def)
  have ex: "list_ex (\<lambda>(k, v). s \<le> k) m \<longleftrightarrow> highs \<noteq> []"
    by (force simp: highs_def list_ex_iff filter_empty_conv)
  have low: "value_at lows h = value_at (if lows = [] then [] else [last lows]) h"
  proof (cases "lows = []")
    case False
    moreover have "\<forall>k \<in> set (bt_keys lows). k \<le> h" using assms(2) by (auto simp: lows_def)
    ultimately show ?thesis by (simp add: value_at_last)
  qed simp
  have high: "filter (\<lambda>(k, v). k \<le> h) (filter (\<lambda>(k, v). k \<le> e) highs) = filter (\<lambda>(k, v). k \<le> h) highs"
    using assms(3) by (auto intro: filter_cong)
  then have same: "value_at (filter (\<lambda>(k, v). k \<le> e) highs) h = value_at highs h"
    by (simp only: value_at_def)
  have cond: "(\<exists>k \<in> set (bt_keys (filter (\<lambda>(k, v). k \<le> e) highs)). k \<le> h) \<longleftrightarrow>
      (\<exists>k \<in> set (bt_keys highs). k \<le> h)"
    using assms(3) by force
  show ?thesis
    unfolding alt ex by (simp add: value_at_append cond same low [symmetric] m value_at_def [of "[]"] del: set_map)
qed

definition demo_heights :: "string height_map" where
  "demo_heights = [(1, ''a''), (10, ''b''), (20, ''c'')]"

lemma demo_heights_ok: "bt_ok demo_heights"
  by (simp add: demo_heights_def)

theorem within_range_agrees_witness:
  "value_at (get_within_range demo_heights 5 12) 7 = Some ''a'' \<and>
   value_at (get_within_range demo_heights 21 30) 25 = None \<and> value_at demo_heights 25 = Some ''c''"
proof -
  have demo: "list_ex (\<lambda>(k, v). 5 \<le> k) demo_heights" "\<not> list_ex (\<lambda>(k, v). 21 \<le> k) demo_heights"
    "value_at demo_heights 7 = Some ''a''" "value_at demo_heights 25 = Some ''c''"
    by code_simp+
  have le: "5 \<le> (7 :: u64)" "7 \<le> (12 :: u64)" "21 \<le> (25 :: u64)" "25 \<le> (30 :: u64)"
    by simp_all
  from within_range_agrees [OF demo_heights_ok le(1,2)] within_range_agrees [OF demo_heights_ok le(3,4)]
  show ?thesis unfolding demo by (simp add: demo)
qed

section \<open>Spans\<close>

lemma get_all_with_range_simps [simp]:
  "get_all_with_range [] = []"
  "get_all_with_range ((k, v) # m) =
     \<lparr>gr_value = v, gr_start_height = k,
      gr_end_height = (case m of [] \<Rightarrow> None | (next, w) # _ \<Rightarrow> Some (next - 1))\<rparr> # get_all_with_range m"
  by (auto simp: get_all_with_range_def enumerate_Suc_eq enumerate_eq_zip [of 0]
      zip_map1 [symmetric] enumerate_eq_zip [of "Suc 0"] map_Suc_upt [symmetric] zip_map1
      split: list.split simp del: upt_Suc)

lemma get_details_alt:
  "get_details m h =
     (let xs = filter (\<lambda>(k, v). k \<le> h) m
      in if xs = [] then None
         else Some (snd (last xs), fst (last xs),
           case filter (\<lambda>(k, v). fst (last xs) < k) m of [] \<Rightarrow> None | (next, v) # _ \<Rightarrow> Some (next - 1)))"
  by (simp add: get_details_def Let_def split: list.split prod.split)

lemma get_details_Cons:
  assumes "bt_ok ((k, v) # m)"
  shows "get_details ((k, v) # m) h =
    (if h < k then None
     else case get_details m h of
            None \<Rightarrow> Some (v, k, case m of [] \<Rightarrow> None | (next, w) # _ \<Rightarrow> Some (next - 1))
          | Some d \<Rightarrow> Some d)"
proof -
  have above: "k < fst x" if "x \<in> set m" for x
    using assms that by simp
  have all: "filter (\<lambda>(l, w). k < l) m = m"
    using above by (auto simp: filter_id_conv)
  have none: "filter (\<lambda>(l, w). l \<le> h) m = []" if "h < k"
    using above that by (force simp: filter_empty_conv)
  define xs where "xs = filter (\<lambda>(l, w). l \<le> h) m"
  have start: "k < fst (last xs)" if "xs \<noteq> []"
    using that above last_in_set [of xs] by (auto simp: xs_def)
  consider "h < k" | "k \<le> h" "xs = []" | "k \<le> h" "xs \<noteq> []"
    by (cases "h < k") (auto simp: not_less)
  then show ?thesis
  proof cases
    case 1
    with none show ?thesis by (simp add: get_details_alt not_le)
  next
    case 2
    then have "get_details m h = None" by (simp add: get_details_alt xs_def)
    with 2 show ?thesis
      by (simp add: get_details_alt [of "(k, v) # m"] xs_def [symmetric] all not_less)
  next
    case 3
    with start have "(fst (last xs) < k) = False" by simp
    with 3 show ?thesis
      by (simp add: get_details_alt xs_def [symmetric] Let_def not_less [of k h, symmetric])
  qed
qed

text \<open>The spans tile the heights from the first key on: the next span starts right after.\<close>

lemma get_details_None: "get_details m h = None \<longleftrightarrow> value_at m h = None"
  by (auto simp: get_details_def value_at_def Let_def split: list.split prod.split)

definition span_covers :: "'v get_range \<Rightarrow> u64 \<Rightarrow> bool" where
  "span_covers r h =
     (gr_start_height r \<le> h \<and> (case gr_end_height r of None \<Rightarrow> True | Some end \<Rightarrow> h \<le> end))"

lemma span_starts: "r \<in> set (get_all_with_range m) \<Longrightarrow> gr_start_height r \<in> set (bt_keys m)"
  by (induction m) auto

text \<open>The two ways to ask for spans agree: the lookup at a height returns a span exactly
  when that span is in the list of all spans and covers the height, and it returns none exactly
  when no span covers the height. In particular at most one span covers a height.\<close>

theorem details_are_spans:
  assumes "bt_ok m"
  shows "(get_details m h = Some (v, s, e) \<longleftrightarrow>
       \<lparr>gr_value = v, gr_start_height = s, gr_end_height = e\<rparr> \<in>
         set (filter (\<lambda>r. span_covers r h) (get_all_with_range m))) \<and>
     (get_details m h = None \<longleftrightarrow> filter (\<lambda>r. span_covers r h) (get_all_with_range m) = [])"
  using assms
proof (induction m)
  case Nil
  then show ?case by (simp add: get_details_def)
next
  case (Cons x m)
  obtain k w where x: "x = (k, w)" by (cases x)
  have ok: "bt_ok m" and above: "\<forall>l \<in> set (bt_keys m). k < l"
    using Cons.prems x by simp_all
  let ?r = "\<lparr>gr_value = w, gr_start_height = k,
      gr_end_height = (case m of [] \<Rightarrow> None | (next, w) # _ \<Rightarrow> Some (next - 1))\<rparr>"
  have before: "filter (\<lambda>r. span_covers r h) (get_all_with_range m) = []" if "h < k"
    using that above span_starts [of _ m] by (force simp: filter_empty_conv span_covers_def)
  have first: "span_covers ?r h \<longleftrightarrow> k \<le> h \<and> get_details m h = None"
  proof (cases m)
    case Nil
    then show ?thesis by (simp add: span_covers_def get_details_def)
  next
    case (Cons y m')
    obtain l u where y: "y = (l, u)" by (cases y)
    have "h \<le> l - 1 \<longleftrightarrow> h < l" using above Cons y by (intro le_pred_iff [of k]) simp
    moreover have "get_details m h = None \<longleftrightarrow> h < l"
      using get_details_Cons [of l u m' h] ok Cons y by (auto split: option.splits)
    ultimately show ?thesis by (simp add: span_covers_def Cons y)
  qed
  have single: "\<not> span_covers ?r h" if "get_details m h = Some d" for d
    using first that by simp
  have ranges: "get_all_with_range (x # m) = ?r # get_all_with_range m"
    by (simp add: x)
  note details = get_details_Cons [OF Cons.prems [unfolded x], of h, folded x]
  consider "h < k" | "k \<le> h" "get_details m h = None" | d where "k \<le> h" "get_details m h = Some d"
    by (metis not_less option.exhaust)
  then show ?case
  proof cases
    case 1
    moreover have "\<not> span_covers ?r h" using 1 by (auto simp: span_covers_def)
    ultimately show ?thesis using before [OF 1] by (simp add: details ranges del: filter_set)
  next
    case 2
    then have "filter (\<lambda>r. span_covers r h) (get_all_with_range m) = []" using Cons.IH [OF ok] by blast
    with 2 first show ?thesis by (auto simp: details ranges simp del: filter_set)
  next
    case 3
    with Cons.IH [OF ok] single show ?thesis
      by (cases d) (simp add: details ranges not_less del: filter_set)
  qed
qed

theorem details_are_spans_witness:
  "get_details demo_heights 12 = Some (''b'', 10, Some 19) \<and>
   \<lparr>gr_value = ''b'', gr_start_height = 10, gr_end_height = Some 19\<rparr> \<in>
     set (filter (\<lambda>r. span_covers r 12) (get_all_with_range demo_heights))"
proof -
  have "get_details demo_heights 12 = Some (''b'', 10, Some 19)" by code_simp
  with details_are_spans [OF demo_heights_ok, of 12 "''b''" 10 "Some 19"] show ?thesis by blast
qed

lemma value_at_map: "value_at (height_map_map f m) h = map_option f (value_at m h)"
proof -
  have "filter (\<lambda>(k, v). k \<le> h) (map (\<lambda>(k, v). (k, f v)) m) =
      map (\<lambda>(k, v). (k, f v)) (filter (\<lambda>(k, v). k \<le> h) m)"
    by (induction m) auto
  then show ?thesis
    by (simp add: value_at_alt height_map_map_def height_map_new_def last_map split: prod.split)
qed

text \<open>The activity of a datasource as a span.\<close>

lemma active_iff_span:
  "is_active_at s h \<longleftrightarrow>
     span_covers \<lparr>gr_value = s, gr_start_height = es_start_height s, gr_end_height = es_end_height s\<rparr> h"
  by (simp add: is_active_at_def span_covers_def)

lemma filters_for_kinds:
  "set (filters_for s k) = eh_filter ` {h \<in> set (es_handlers s). eh_kind h = k}"
  by (simp add: filters_for_def)

end
