(* ===== verification/Sq_Runtime.thy ===== *)
theory Sq_Runtime
  imports Sq_Entities
begin

text \<open>
  The mapping runtime, \<open>crates/runtime/src\<close>: the constants and codes of the guest interface
  (\<open>abi.rs\<close>), the limits (\<open>limits.rs\<close>), the errors (\<open>error.rs\<close>), the checks of a module
  before it runs (\<open>runtime.rs\<close>) and the host functions (\<open>host.rs\<close>). A guest is any sequence
  of calls of the host functions; the step relation \<open>guest_run\<close> is what such a sequence can
  do to the context of a block.
\<close>

section \<open>The interface\<close>

definition abi_version :: int where
  "abi_version = 1"

definition host_module :: string where
  "host_module = ''superquery''"

definition host_fn_all :: "string list" where
  "host_fn_all = [''sq_store_get'', ''sq_store_set'', ''sq_store_remove'', ''sq_log'', ''sq_chain_call'']"

definition guest_fn_required :: "string list" where
  "guest_fn_required = [''sq_abi_version'', ''sq_alloc'', ''sq_dealloc'']"

datatype status = StatusOk | NotFound | InvalidArgument | UnknownEntityStatus | StoreErrorStatus
  | CapabilityDenied | ResourceExhausted

fun status_code :: "status \<Rightarrow> int" where
  "status_code StatusOk = 0"
| "status_code NotFound = 1"
| "status_code InvalidArgument = -1"
| "status_code UnknownEntityStatus = -2"
| "status_code StoreErrorStatus = -3"
| "status_code CapabilityDenied = -4"
| "status_code ResourceExhausted = -5"

definition status_is_error :: "status \<Rightarrow> bool" where
  "status_is_error s = (status_code s < 0)"

datatype log_level = LogTrace | LogDebug | LogInfo | LogWarn | LogError

definition log_level_from_code :: "int \<Rightarrow> log_level" where
  "log_level_from_code code =
     (if code = 0 then LogTrace else if code = 1 then LogDebug else if code = 3 then LogWarn
      else if code = 4 then LogError else LogInfo)"

record block_context =
  bc_height :: u64
  bc_hash :: string
  bc_parent_hash :: "string option"
  bc_timestamp :: "string option"

record data_source_context =
  dc_name :: string
  dc_parameters :: json

record handler_input =
  hi_block :: block_context
  hi_kind :: handler_kind
  hi_payload :: json
  hi_data_source :: data_source_context

section \<open>Limits\<close>

text \<open>The timeout is in milliseconds.\<close>

record runtime_limits =
  rl_fuel :: u64
  rl_timeout_ms :: u64
  rl_memory_bytes :: usize

definition limits_runtime_new :: "u64 \<Rightarrow> u64 \<Rightarrow> u32 \<Rightarrow> runtime_limits" where
  "limits_runtime_new fuel timeout_ms memory_mb =
     \<lparr>rl_fuel = max fuel 1, rl_timeout_ms = max timeout_ms 1,
      rl_memory_bytes = ucast (max memory_mb 1) * 1024 * 1024\<rparr>"

text \<open>\<open>usize::div_ceil\<close>: no overflow, unlike adding before dividing.\<close>

definition div_ceil :: "usize \<Rightarrow> usize \<Rightarrow> usize" where
  "div_ceil a b = (let q = a div b in if 0 < a mod b then q + 1 else q)"

definition memory_pages :: "runtime_limits \<Rightarrow> usize" where
  "memory_pages l = div_ceil (rl_memory_bytes l) (64 * 1024)"

definition limits_runtime_default :: runtime_limits where
  "limits_runtime_default = limits_runtime_new 10000000000 5000 256"

section \<open>Checking a module\<close>

datatype runtime_error =
    AbiVersionMismatch int int
  | MissingExport string
  | ForbiddenImport string string
  | Load string
  | FuelExhausted string
  | HandlerTimeout string u64
  | OutOfMemory string
  | Trap string string
  | Abi string
  | RuntimeStore store_error

definition check_abi_version :: "int \<Rightarrow> runtime_error + unit" where
  "check_abi_version found =
     (if found = abi_version then Inr () else Inl (AbiVersionMismatch found abi_version))"

definition check_required_exports :: "string list \<Rightarrow> runtime_error + unit" where
  "check_required_exports exports =
     (case List.find (\<lambda>required. required \<notin> set exports) guest_fn_required of
        Some required \<Rightarrow> Inl (MissingExport required)
      | None \<Rightarrow> Inr ())"

fun check_imports :: "(string \<times> string) list \<Rightarrow> runtime_error + unit" where
  "check_imports [] = Inr ()"
| "check_imports ((module, name) # rest) =
     (if module \<noteq> host_module \<or> name \<notin> set host_fn_all
      then Inl (ForbiddenImport module name)
      else check_imports rest)"

definition has_handler :: "string list \<Rightarrow> string \<Rightarrow> bool" where
  "has_handler exported handler = list_ex (\<lambda>h. h = handler) exported"

lemma check_imports_iff:
  "check_imports table = Inr () \<longleftrightarrow> set table \<subseteq> {host_module} \<times> set host_fn_all"
  by (induction table rule: check_imports.induct) auto

lemma check_required_exports_iff:
  "check_required_exports exports = Inr () \<longleftrightarrow> set guest_fn_required \<subseteq> set exports"
proof (cases "List.find (\<lambda>required. required \<notin> set exports) guest_fn_required")
  case None
  then have "set guest_fn_required \<subseteq> set exports" by (auto simp: find_None_iff)
  with None show ?thesis by (simp add: check_required_exports_def)
next
  case (Some r)
  then have "r \<in> set guest_fn_required" "r \<notin> set exports"
    by (auto simp: find_Some_iff)
  with Some show ?thesis by (auto simp: check_required_exports_def)
qed

section \<open>The engine\<close>

text \<open>\<open>wasmtime_host.rs\<close>: the settings of the engine, the engine being the parameter \<open>new_engine\<close>.\<close>

datatype opt_level = OptNone | OptSpeed | OptSpeedAndSize

record engine_settings =
  es_consume_fuel :: bool
  es_epoch_interruption :: bool
  es_wasm_threads :: bool
  es_wasm_relaxed_simd :: bool
  es_wasm_simd :: bool
  es_cranelift_opt_level :: opt_level

definition mapping_settings :: engine_settings where
  "mapping_settings =
     \<lparr>es_consume_fuel = True, es_epoch_interruption = True, es_wasm_threads = False,
      es_wasm_relaxed_simd = False, es_wasm_simd = False, es_cranelift_opt_level = OptSpeed\<rparr>"

definition build_engine :: "(engine_settings \<Rightarrow> string + 'e) \<Rightarrow> runtime_error + 'e" where
  "build_engine new_engine = map_err Load (new_engine mapping_settings)"

record 'e wasmtime_runtime =
  wr_engine :: 'e
  wr_limits :: runtime_limits
  wr_handlers :: "string list"

definition wasmtime_runtime_new ::
  "(engine_settings \<Rightarrow> string + 'e) \<Rightarrow> runtime_limits \<Rightarrow> runtime_error + 'e wasmtime_runtime" where
  "wasmtime_runtime_new new_engine limits =
     rbind (build_engine new_engine) (\<lambda>engine.
       Inr \<lparr>wr_engine = engine, wr_limits = limits, wr_handlers = []\<rparr>)"

definition load_module ::
  "8 word list \<Rightarrow> 'e wasmtime_runtime \<Rightarrow> (runtime_error + unit) outcome \<times> 'e wasmtime_runtime" where
  "load_module wasm rt =
     (Panics ''not implemented: module instantiation and host linking; guide Milestone 9, task plan phase C1'', rt)"

section \<open>Host functions\<close>

record host_context =
  hc_block :: block_context
  hc_operations :: "operation list"
  hc_known_entities :: "string list"

definition host_context_new :: "block_context \<Rightarrow> string list \<Rightarrow> host_context" where
  "host_context_new block known_entities =
     \<lparr>hc_block = block, hc_operations = [], hc_known_entities = known_entities\<rparr>"

definition knows_entity :: "host_context \<Rightarrow> string \<Rightarrow> bool" where
  "knows_entity c entity = list_ex (\<lambda>e. e = entity) (hc_known_entities c)"

definition push_operation :: "operation \<Rightarrow> host_context \<Rightarrow> host_context" where
  "push_operation opn c = c\<lparr>hc_operations := hc_operations c @ [opn]\<rparr>"

definition json_id :: "json \<Rightarrow> string option" where
  "json_id data = (case json_get data ''id'' of Some v \<Rightarrow> json_as_str v | None \<Rightarrow> None)"

definition store_set :: "string \<Rightarrow> string \<Rightarrow> json \<Rightarrow> host_context \<Rightarrow> status \<times> host_context" where
  "store_set entity i data c =
     (if \<not> knows_entity c entity then (UnknownEntityStatus, c)
      else if \<not> json_is_object data then (InvalidArgument, c)
      else if json_id data \<noteq> Some i then (InvalidArgument, c)
      else (StatusOk, push_operation
              \<lparr>op_operation = OpSet, op_entity_type = entity, op_data = data\<rparr> c))"

definition store_remove :: "string \<Rightarrow> string \<Rightarrow> host_context \<Rightarrow> status \<times> host_context" where
  "store_remove entity i c =
     (if \<not> knows_entity c entity then (UnknownEntityStatus, c)
      else (StatusOk, push_operation
              \<lparr>op_operation = OpRemove, op_entity_type = entity, op_data = JString i\<rparr> c))"

definition take_operations :: "host_context \<Rightarrow> operation list \<times> host_context" where
  "take_operations c = (hc_operations c, c\<lparr>hc_operations := []\<rparr>)"

text \<open>The calls a guest can make that this module implements. A write or a removal answers with a
  status; \<open>log\<close> answers nothing (\<open>None\<close>) and leaves the context as it is. \<open>sq_store_get\<close> and
  \<open>sq_chain_call\<close> have no implementation in the source.\<close>

datatype guest_call =
    CallSet string string json
  | CallRemove string string
  | CallLog log_level string

fun host_call :: "guest_call \<Rightarrow> host_context \<Rightarrow> status option \<times> host_context" where
  "host_call (CallSet entity i data) c = (case store_set entity i data c of (s, c') \<Rightarrow> (Some s, c'))"
| "host_call (CallRemove entity i) c = (case store_remove entity i c of (s, c') \<Rightarrow> (Some s, c'))"
| "host_call (CallLog level message) c = (None, c)"

text \<open>
  \<open>guest_run calls statuses c c'\<close>: the guest made \<open>calls\<close>, saw \<open>statuses\<close>, and took the
  context from \<open>c\<close> to \<open>c'\<close>. A trap, a timeout or fuel running out can end a guest after any
  of them, so every such relation is a possible outcome.
\<close>

inductive guest_run :: "guest_call list \<Rightarrow> status option list \<Rightarrow> host_context \<Rightarrow> host_context \<Rightarrow> bool" where
  stop: "guest_run [] [] c c"
| call: "host_call g c = (s, c') \<Longrightarrow> guest_run gs ss c' c'' \<Longrightarrow> guest_run (g # gs) (s # ss) c c''"

code_pred (modes: i \<Rightarrow> o \<Rightarrow> i \<Rightarrow> o \<Rightarrow> bool) guest_run .

inductive_simps guest_run_simps [simp]:
  "guest_run [] ss c c'"
  "guest_run (g # gs) ss c c'"

section \<open>What a guest can buffer\<close>

text \<open>The operation an accepted call stands for, whatever the context.\<close>

fun call_operation :: "guest_call \<Rightarrow> operation list" where
  "call_operation (CallSet entity i data) =
     [\<lparr>op_operation = OpSet, op_entity_type = entity, op_data = data\<rparr>]"
| "call_operation (CallRemove entity i) =
     [\<lparr>op_operation = OpRemove, op_entity_type = entity, op_data = JString i\<rparr>]"
| "call_operation (CallLog level message) = []"

text \<open>The operations of the accepted calls, in call order.\<close>

fun accepted :: "guest_call list \<Rightarrow> status option list \<Rightarrow> operation list" where
  "accepted (g # gs) (s # ss) = (if s = Some StatusOk then call_operation g else []) @ accepted gs ss"
| "accepted _ _ = []"

text \<open>The type of an operation: what the dispatcher may rely on.\<close>

definition well_typed :: "string list \<Rightarrow> operation \<Rightarrow> bool" where
  "well_typed entities opn =
     (op_entity_type opn \<in> set entities \<and>
      (case op_operation opn of
         OpSet \<Rightarrow> json_is_object (op_data opn) \<and> json_id (op_data opn) \<noteq> None
       | OpRemove \<Rightarrow> json_as_str (op_data opn) \<noteq> None))"

definition context_typed :: "host_context \<Rightarrow> bool" where
  "context_typed c = list_all (well_typed (hc_known_entities c)) (hc_operations c)"

lemma knows_entity_iff: "knows_entity c e \<longleftrightarrow> e \<in> set (hc_known_entities c)"
  by (auto simp: knows_entity_def list_ex_iff)

lemmas host_defs = store_set_def store_remove_def push_operation_def knows_entity_iff

lemma host_call_frame:
  assumes "host_call g c = (s, c')"
  shows "hc_known_entities c' = hc_known_entities c" "hc_block c' = hc_block c"
  using assms by (cases g; auto simp: host_defs split: if_splits)+

lemma host_call_operations:
  assumes "host_call g c = (s, c')"
  shows "hc_operations c' = hc_operations c @ (if s = Some StatusOk then call_operation g else [])"
  using assms by (cases g) (auto simp: host_defs split: if_splits)

lemma host_call_typed:
  assumes "host_call g c = (s, c')" "context_typed c"
  shows "context_typed c'"
  using assms
  by (cases g) (auto simp: host_defs context_typed_def well_typed_def json_as_str_def split: if_splits)

lemma host_call_rejected:
  assumes "host_call g c = (Some s, c')" "s \<noteq> StatusOk"
  shows "c' = c" "status_is_error s"
  using assms by (cases g; auto simp: host_defs status_is_error_def split: if_splits)+

lemma guest_run_frame:
  "guest_run gs ss c c' \<Longrightarrow> hc_known_entities c' = hc_known_entities c \<and> hc_block c' = hc_block c"
  by (induction rule: guest_run.induct) (auto dest: host_call_frame)

lemma guest_run_typed: "guest_run gs ss c c' \<Longrightarrow> context_typed c \<Longrightarrow> context_typed c'"
  by (induction rule: guest_run.induct) (auto intro: host_call_typed)

lemma guest_run_operations:
  "guest_run gs ss c c' \<Longrightarrow>
   hc_operations c' = hc_operations c @ accepted gs ss"
  by (induction rule: guest_run.induct) (auto dest: host_call_operations)

lemma guest_run_append:
  "guest_run (gs @ hs) ss c c'' \<longleftrightarrow>
   (\<exists>ss1 ss2 c'. ss = ss1 @ ss2 \<and> guest_run gs ss1 c c' \<and> guest_run hs ss2 c' c'')"
proof (induction gs arbitrary: ss c)
  case Nil
  show ?case by auto
next
  case (Cons g gs)
  show ?case
    by (auto simp: Cons.IH) (metis append_Cons)+
qed

text \<open>A run is determined by its calls, and every sequence of calls has one.\<close>

fun run_calls :: "guest_call list \<Rightarrow> host_context \<Rightarrow> status option list \<times> host_context" where
  "run_calls [] c = ([], c)"
| "run_calls (g # gs) c =
     (let (s, c1) = host_call g c; (ss, c2) = run_calls gs c1 in (s # ss, c2))"

lemma guest_run_iff: "guest_run gs ss c c' \<longleftrightarrow> run_calls gs c = (ss, c')"
proof (induction gs arbitrary: ss c)
  case Nil
  show ?case by auto
next
  case (Cons g gs)
  show ?case by (cases "host_call g c") (auto simp: Cons.IH split: prod.splits)
qed

section \<open>Properties\<close>

text \<open>C20: Whatever a guest does, the operations it leaves in the block's context are well typed:
  each names an entity of the schema, a \<open>Set\<close> carries an object with a string \<open>id\<close>, a
  \<open>Remove\<close> carries the identifier as a string. They are exactly the accepted calls in call
  order, the block and the schema are unchanged, and taking them empties the context.
\<close>

theorem guest_operations_typed:
  assumes "guest_run calls statuses (host_context_new block entities) c"
  shows "list_all (well_typed entities) (fst (take_operations c)) \<and>
    fst (take_operations c) = accepted calls statuses \<and>
    snd (take_operations c) = host_context_new block entities"
proof -
  let ?c0 = "host_context_new block entities"
  have start: "context_typed ?c0" "hc_operations ?c0 = []" "hc_known_entities ?c0 = entities"
    "hc_block ?c0 = block"
    by (simp_all add: host_context_new_def context_typed_def)
  have "context_typed c"
    using guest_run_typed[OF assms start(1)] .
  then show ?thesis
    using guest_run_frame[OF assms] guest_run_operations[OF assms] start
    by (simp add: take_operations_def context_typed_def host_context_new_def)
qed

text \<open>A guest that writes twice, once under a wrong identifier, and removes from an unknown entity.\<close>

definition demo_runtime_block :: block_context where
  "demo_runtime_block =
     \<lparr>bc_height = 100, bc_hash = ''0x64'', bc_parent_hash = None, bc_timestamp = None\<rparr>"

definition demo_calls :: "guest_call list" where
  "demo_calls =
     [CallSet ''Transfer'' ''a'' (JObject [(''id'', JString ''a'')]),
      CallSet ''Transfer'' ''b'' (JObject [(''id'', JString ''c'')]),
      CallLog LogInfo ''hello'',
      CallRemove ''Trasnfer'' ''a'',
      CallRemove ''Transfer'' ''a'']"

definition demo_statuses :: "status option list" where
  "demo_statuses = [Some StatusOk, Some InvalidArgument, None, Some UnknownEntityStatus, Some StatusOk]"

lemma demo_guest_run:
  "\<exists>c. guest_run demo_calls demo_statuses (host_context_new b [''Transfer'']) c"
proof -
  have "fst (run_calls demo_calls (host_context_new b [''Transfer''])) = demo_statuses"
    by code_simp
  then show ?thesis by (metis guest_run_iff prod.collapse)
qed

theorem guest_operations_typed_witness:
  "\<exists>c. guest_run demo_calls demo_statuses (host_context_new demo_runtime_block [''Transfer'']) c \<and>
     map op_operation (fst (take_operations c)) = [OpSet, OpRemove] \<and>
     list_all (well_typed [''Transfer'']) (fst (take_operations c))"
proof -
  obtain c where c: "guest_run demo_calls demo_statuses
      (host_context_new demo_runtime_block [''Transfer'']) c"
    using demo_guest_run by blast
  note ops = guest_operations_typed[OF c]
  have "fst (take_operations c) = accepted demo_calls demo_statuses"
    by (rule conjunct1[OF conjunct2[OF ops]])
  moreover have "map op_operation (accepted demo_calls demo_statuses) = [OpSet, OpRemove]"
    by code_simp
  ultimately have kinds: "map op_operation (fst (take_operations c)) = [OpSet, OpRemove]"
    by (rule ssubst)
  show ?thesis
    by (intro exI[of _ c] conjI c kinds conjunct1[OF ops])
qed

lemma div_ceil_exact:
  fixes a b :: usize
  assumes "b \<noteq> 0" "unat a = q * unat b"
  shows "unat (div_ceil a b) = q"
proof -
  have "0 < unat b" using assms(1) by (simp add: unat_gt_0)
  then have "unat (a div b) = q" "unat (a mod b) = 0"
    by (simp_all add: unat_div_distrib unat_mod_distrib assms(2))
  then show ?thesis by (simp add: div_ceil_def Let_def word_less_nat_alt)
qed

lemma memory_bytes_exact:
  "unat (rl_memory_bytes (limits_runtime_new f t mb)) = unat (max mb 1) * 2 ^ 20"
proof -
  have "unat (max mb 1) < 2 ^ 32" using unsigned_less[of "max mb 1"] by simp
  then have small: "unat (max mb 1) * 2 ^ 20 < 2 ^ 64" by simp
  have "rl_memory_bytes (limits_runtime_new f t mb) = of_nat (unat (max mb 1) * 2 ^ 20)"
    by (simp add: limits_runtime_new_def)
  then have "unat (rl_memory_bytes (limits_runtime_new f t mb)) = unat (max mb 1) * 2 ^ 20 mod 2 ^ 64"
    by (simp only: unat_of_nat) simp
  also have "\<dots> = unat (max mb 1) * 2 ^ 20" using small by (rule mod_less)
  finally show ?thesis .
qed

text \<open>C40: The memory limit is exact. For every configured number of mebibytes, zero included,
  the byte ceiling does not overflow, and the ceiling in Wasm pages is 16 pages per mebibyte
  (at least 16): it covers the byte ceiling exactly, with nothing lost to rounding.
\<close>

theorem memory_pages_exact:
  "unat (memory_pages (limits_runtime_new fuel timeout_ms memory_mb)) = 16 * unat (max memory_mb 1) \<and>
   unat (rl_memory_bytes (limits_runtime_new fuel timeout_ms memory_mb)) =
     65536 * unat (memory_pages (limits_runtime_new fuel timeout_ms memory_mb))"
proof -
  have "unat (memory_pages (limits_runtime_new fuel timeout_ms memory_mb)) = 16 * unat (max memory_mb 1)"
    unfolding memory_pages_def
    by (rule div_ceil_exact) (simp_all add: memory_bytes_exact)
  then show ?thesis by (simp add: memory_bytes_exact)
qed

end
