(* ===== verification/Sq_Indexing.thy ===== *)
theory Sq_Indexing
  imports Sq_HeightMap Sq_Runtime
begin

text \<open>
  The result of indexing a block, \<open>crates/core/src/indexer/manager.rs\<close>, and the progress the
  node reports, \<open>crates/core/src/metrics/mod.rs\<close>.
\<close>

record processed_block =
  pb_operations :: "operation list"
  pb_dynamic_sources :: "dynamic_source list"
  pb_handlers_run :: u32

definition processed_default :: processed_block where
  "processed_default = \<lparr>pb_operations = [], pb_dynamic_sources = [], pb_handlers_run = 0\<rparr>"

definition processed_is_empty :: "processed_block \<Rightarrow> bool" where
  "processed_is_empty b = (pb_operations b = [] \<and> pb_dynamic_sources b = [])"

record progress_snapshot =
  ps_indexed_height :: u64
  ps_target_height :: u64
  ps_finalized_height :: u64
  ps_queue_depth :: u32

definition blocks_behind :: "progress_snapshot \<Rightarrow> u64" where
  "blocks_behind s = saturating_sub (ps_target_height s) (ps_indexed_height s)"

definition is_caught_up :: "progress_snapshot \<Rightarrow> u64 \<Rightarrow> bool" where
  "is_caught_up s tolerance = (blocks_behind s \<le> tolerance)"

text \<open>A node is caught up exactly when its height plus the tolerance reaches the target, computed
  without overflow; a target that lags behind counts as reached.\<close>

lemma is_caught_up_iff:
  "is_caught_up s tolerance \<longleftrightarrow>
     unat (ps_target_height s) \<le> unat (ps_indexed_height s) + unat tolerance"
  by (auto simp: is_caught_up_def blocks_behind_def word_le_nat_alt int_simps)

text \<open>A block on which no guest call was accepted and that found no contract has nothing to commit.\<close>

lemma processed_empty_rejected:
  assumes "guest_run calls statuses (host_context_new block entities) c" "Some StatusOk \<notin> set statuses"
  shows "processed_is_empty (processed_default\<lparr>pb_operations := fst (take_operations c)\<rparr>)"
proof -
  have "accepted gs ss = []" if "Some StatusOk \<notin> set ss" for gs ss
    using that by (induction gs ss rule: accepted.induct) auto
  moreover have "hc_operations c = accepted calls statuses"
    using guest_run_operations [OF assms(1)] by (simp add: host_context_new_def)
  ultimately show ?thesis
    using assms(2) by (simp add: take_operations_def processed_is_empty_def processed_default_def)
qed

end
