(* ===== verification/Sq_Schema.thy ===== *)
theory Sq_Schema
  imports Sq_Checkpoint Sq_EntityStore
begin

text \<open>
  The schema of a project in the database: creating it (\<open>crates/store/src/migration.rs\<close>) and
  reading it back (\<open>introspect.rs\<close>). The state is the bookkeeping tables next to the entity
  tables, each entity table being known by the statement that made it. Shown: creating never
  alters a table that is there, and what introspection reports of each table.
\<close>

section \<open>Text replacement\<close>

text \<open>\<open>str::replacen\<close> with the count 1 and \<open>str::replace\<close>, for a pattern that is not empty.\<close>

fun replace_first :: "string \<Rightarrow> string \<Rightarrow> string \<Rightarrow> string" where
  "replace_first pat new [] = []"
| "replace_first pat new (c # cs) =
     (case strip_prefix pat (c # cs) of
        Some rest \<Rightarrow> new @ rest
      | None \<Rightarrow> c # replace_first pat new cs)"

function replace_all :: "string \<Rightarrow> string \<Rightarrow> string \<Rightarrow> string" where
  "replace_all pat new [] = []"
| "replace_all pat new (c # cs) =
     (case strip_prefix pat (c # cs) of
        Some rest \<Rightarrow> if length rest < length (c # cs) then new @ replace_all pat new rest else c # cs
      | None \<Rightarrow> c # replace_all pat new cs)"
  by pat_completeness auto
termination
  by (relation "measure (\<lambda>(_, _, s). length s)") auto

section \<open>Creating the schema\<close>

definition if_not_exists :: "string \<Rightarrow> string" where
  "if_not_exists statement = replace_first ''CREATE TABLE '' ''CREATE TABLE IF NOT EXISTS '' statement"

type_synonym entity_tables = "string \<Rightarrow> string option"

type_synonym project_db = "(tables \<times> entity_tables) database"

text \<open>An action on the bookkeeping tables.\<close>

definition on_tables :: "'a action \<Rightarrow> (tables \<times> entity_tables, 'a) db_action" where
  "on_tables act d =
     (case act \<lparr>db_tables = fst (db_tables d), db_faults = db_faults d\<rparr> of
        (r, d') \<Rightarrow> (r, \<lparr>db_tables = (db_tables d', snd (db_tables d)), db_faults = db_faults d'\<rparr>))"

text \<open>
  What PostgreSQL does with a statement that creates the table \<open>name\<close>: a table of that name that
  is there stays as it is, and unless the statement says \<open>IF NOT EXISTS\<close> it is an error.
\<close>

definition create_effect :: "string \<Rightarrow> string \<Rightarrow> entity_tables \<Rightarrow> (store_error + unit) \<times> entity_tables" where
  "create_effect name statement t =
     (if t name = None then (Inr (), t(name \<mapsto> statement))
      else if strip_prefix ''CREATE TABLE IF NOT EXISTS '' statement \<noteq> None then (Inr (), t)
      else (Inl (Postgres ''relation already exists''), t))"

fun create_each :: "(string \<times> string) list \<Rightarrow> (tables \<times> entity_tables, unit) db_action" where
  "create_each [] = dreturn ()"
| "create_each ((name, statement) # rest) =
     dbind (dbind (db_execute (\<lambda>(t, e). case create_effect name (if_not_exists statement) e of (r, e') \<Rightarrow> (r, (t, e')))) dlift)
       (\<lambda>_. create_each rest)"

definition named_statements :: "entity_model list \<Rightarrow> string \<Rightarrow> store_error + (string \<times> string) list" where
  "named_statements models schema =
     rbind (create_tables models schema) (\<lambda>statements.
       Inr (zip (map (model_to_table_name \<circ> em_name) models) statements))"

definition initialize_schema ::
  "string \<Rightarrow> entity_model list \<Rightarrow> string \<Rightarrow> string \<Rightarrow> (tables \<times> entity_tables, unit) db_action" where
  "initialize_schema schema models project_id chain_id =
     dbind (on_tables ensure_schema) (\<lambda>_.
     dbind (dlift (checkpoint_new schema)) (\<lambda>checkpoints.
     dbind (on_tables checkpoint_ensure_tables) (\<lambda>_.
     dbind (dlift (metadata_new schema)) (\<lambda>metadata.
     dbind (on_tables (verify_or_initialize project_id chain_id metadata)) (\<lambda>outcome.
     dbind (dlift (named_statements models schema)) (\<lambda>statements.
     dbind (create_each statements) (\<lambda>_.
       on_tables (metadata_set (key_name SchemaVersion) schema_version))))))))"

section \<open>Statements\<close>

lemma strip_prefix_None: "strip_prefix p s = None \<longleftrightarrow> (\<nexists>t. s = p @ t)"
  by (cases "strip_prefix p s") auto

lemma if_not_exists_create:
  assumes "create_table model schema = Inr statement"
  obtains rest where "statement = ''CREATE TABLE '' @ rest"
    and "if_not_exists statement = ''CREATE TABLE IF NOT EXISTS '' @ rest"
proof -
  obtain rest where rest: "statement = ''CREATE TABLE '' @ rest"
    using assms by (auto simp: create_table_def Let_def rbind_eq_Inr)
  then obtain c cs where "statement = c # cs" by simp
  with rest have "if_not_exists statement = ''CREATE TABLE IF NOT EXISTS '' @ rest"
    unfolding if_not_exists_def by (metis option.simps(5) replace_first.simps(2) strip_prefix_append)
  with rest show thesis by (rule that)
qed

section \<open>What creating does\<close>

text \<open>The tables after the statement, whether it is an error or not.\<close>

definition create_if_absent :: "string \<Rightarrow> string \<Rightarrow> entity_tables \<Rightarrow> entity_tables" where
  "create_if_absent name statement t = (if t name = None then t(name \<mapsto> statement) else t)"

lemma snd_create_effect [simp]: "snd (create_effect name statement t) = create_if_absent name statement t"
  by (simp add: create_effect_def create_if_absent_def)

definition create_all :: "(string \<times> string) list \<Rightarrow> entity_tables \<Rightarrow> entity_tables" where
  "create_all statements e = fold (\<lambda>(n, s). create_if_absent n (if_not_exists s)) statements e"

lemma create_all_simps [simp]:
  "create_all [] e = e"
  "create_all ((n, s) # rest) e = create_all rest (create_if_absent n (if_not_exists s) e)"
  by (simp_all add: create_all_def)

lemma create_if_absent_keeps: "e m = Some s \<Longrightarrow> create_if_absent n t e m = Some s"
  by (auto simp: create_if_absent_def)

lemma create_all_keeps: "e m = Some s \<Longrightarrow> create_all statements e m = Some s"
  by (induction statements arbitrary: e) (auto simp: create_if_absent_keeps)

lemma dom_create_all: "dom (create_all statements e) = dom e \<union> fst ` set statements"
proof (induction statements arbitrary: e)
  case (Cons x xs)
  obtain n s where "x = (n, s)" by force
  moreover have "dom (create_if_absent n (if_not_exists s) e) = insert n (dom e)"
    by (auto simp: create_if_absent_def)
  ultimately show ?case using Cons by auto
qed simp

lemma create_each_tables:
  "create_each statements d = (r, d') \<Longrightarrow> \<exists>k \<le> length statements.
     db_tables d' = (fst (db_tables d), create_all (take k statements) (snd (db_tables d))) \<and>
     (r = Inr () \<longrightarrow> k = length statements)"
proof (induction statements arbitrary: d)
  case Nil
  then show ?case by (auto simp: dreturn_def)
next
  case (Cons x xs)
  obtain n s where x: "x = (n, s)" by force
  let ?f = "\<lambda>(t, e). case create_effect n (if_not_exists s) e of (r, e') \<Rightarrow> (r, (t, e'))"
  have snd_f: "snd (?f t) = (fst t, create_if_absent n (if_not_exists s) (snd t))" for t :: "tables \<times> entity_tables"
    by (cases t) (simp add: case_prod_unfold)
  obtain r1 d1 where one: "dbind (db_execute ?f) dlift d = (r1, d1)" by force
  obtain r0 d0 where exec: "db_execute ?f d = (r0, d0)" by force
  have tables: "db_tables d1 = db_tables d \<or> db_tables d1 = snd (?f (db_tables d))"
    and done_Inr: "r1 = Inr u \<Longrightarrow> db_tables d1 = snd (?f (db_tables d))" for u
    using one exec db_execute_Inl [of ?f d] db_execute_Inr [of ?f d]
    by (cases r0; fastforce simp: dbind_def dlift_def)+
  show ?case
  proof (cases r1)
    case (Inl e)
    have "r = Inl e" "d' = d1" using Cons.prems one Inl by (simp_all add: x dbind_def)
    with tables snd_f show ?thesis
      by (elim disjE) (auto simp: x intro: exI [of _ 0] exI [of _ 1])
  next
    case (Inr u)
    then have "db_tables d1 = snd (?f (db_tables d))" by (rule done_Inr)
    moreover have "create_each xs d1 = (r, d')" using Cons.prems one Inr by (simp add: x dbind_def)
    ultimately show ?thesis
      using Cons.IH [of d1] snd_f by (fastforce simp: x intro: exI [of _ "Suc _"])
  qed
qed

text \<open>The replacement is what makes a second run possible: with it every statement of the model is
  executed without an error, whichever tables are there, and without it not.\<close>

lemma create_effect_reruns:
  assumes "create_table model schema = Inr statement"
  shows "fst (create_effect name (if_not_exists statement) t) = Inr ()"
    and "t name \<noteq> None \<Longrightarrow> fst (create_effect name statement t) \<noteq> Inr ()"
proof -
  obtain rest where "statement = ''CREATE TABLE '' @ rest" "if_not_exists statement = ''CREATE TABLE IF NOT EXISTS '' @ rest"
    using if_not_exists_create [OF assms] by blast
  then show "fst (create_effect name (if_not_exists statement) t) = Inr ()"
    by (simp add: create_effect_def)
  obtain rest' where "statement = ''CREATE TABLE '' @ dquote # rest'"
    using assms by (auto simp: create_table_def Let_def rbind_eq_Inr quoted_def)
  then have "strip_prefix ''CREATE TABLE IF NOT EXISTS '' statement = None"
    by (simp add: strip_prefix_None dquote_def)
  then show "t name \<noteq> None \<Longrightarrow> fst (create_effect name statement t) \<noteq> Inr ()"
    by (simp add: create_effect_def)
qed

lemma create_each_reruns:
  assumes "create_tables models schema = Inr statements" "length names = length statements" "db_faults d = []"
  shows "\<exists>d'. create_each (zip names statements) d = (Inr (), d') \<and> db_faults d' = []"
  using assms
proof (induction names statements arbitrary: models d rule: list_induct2')
  case (4 n ns s ss)
  then obtain m ms where ms: "create_table m schema = Inr s" "create_tables ms schema = Inr ss"
    by (cases models) (auto simp: create_tables_def rbind_eq_Inr)
  have ok: "fst (create_effect n (if_not_exists s) e) = Inr ()" for e
    using create_effect_reruns(1) [OF ms(1)] .
  show ?case
    using 4(1) [OF ms(2)] 4(3,4) ok
    by (auto simp: dbind_def dlift_def db_execute_def db_call_def next_fault_def drop_fault_def dreturn_def
        case_prod_unfold)
qed (auto simp: dreturn_def)

text \<open>Entity tables that were there are as they were, and new ones have a name in \<open>names\<close>.\<close>

definition extended :: "string set \<Rightarrow> tables \<times> entity_tables \<Rightarrow> tables \<times> entity_tables \<Rightarrow> bool" where
  "extended names t t' \<longleftrightarrow> snd t \<subseteq>\<^sub>m snd t' \<and> dom (snd t') \<subseteq> dom (snd t) \<union> names"

interpretation extend: table_relation "extended names" for names
  by unfold_locales (unfold extended_def, auto intro: map_le_trans, blast)

lemma on_tables_entities: "on_tables act d = (r, d') \<Longrightarrow> snd (db_tables d') = snd (db_tables d)"
  by (auto simp: on_tables_def split: prod.splits)

lemma on_tables_run:
  assumes "on_tables act d = (r, d')"
  obtains d0 where "act \<lparr>db_tables = fst (db_tables d), db_faults = db_faults d\<rparr> = (r, d0)"
    "fst (db_tables d') = db_tables d0"
  using assms by (auto simp: on_tables_def split: prod.splits)

lemma extends_tables: "extend.keeps names (on_tables act)"
  unfolding extend.keeps_def by (auto simp: extended_def dest: on_tables_entities)

lemma extends_create:
  assumes "fst ` set statements \<subseteq> names"
  shows "extend.keeps names (create_each statements)"
  unfolding extend.keeps_def
proof (intro allI impI)
  fix d r d'
  assume "create_each statements d = (r, d')"
  from create_each_tables [OF this] obtain k where
    "db_tables d' = (fst (db_tables d), create_all (take k statements) (snd (db_tables d)))" by blast
  moreover have "fst ` set (take k statements) \<subseteq> names"
    using assms set_take_subset [of k statements] by blast
  ultimately show "extended names (db_tables d) (db_tables d')"
    by (auto simp: extended_def map_le_def dom_create_all create_all_keeps dest!: domD)
qed

definition table_names :: "entity_model list \<Rightarrow> string set" where
  "table_names models = set (map (model_to_table_name \<circ> em_name) models)"

lemma named_statements_names: "named_statements models schema = Inr ss \<Longrightarrow> fst ` set ss = table_names models"
proof -
  assume "named_statements models schema = Inr ss"
  then obtain sts where sts: "create_tables models schema = Inr sts"
    "ss = zip (map (model_to_table_name \<circ> em_name) models) sts"
    by (auto simp: named_statements_def rbind_eq_Inr)
  then have "length sts = length models" by (auto simp: create_tables_def dest: collect_length)
  then have "map fst ss = map (model_to_table_name \<circ> em_name) models" using sts(2) by simp
  from arg_cong [OF this, of set] show ?thesis by (simp add: table_names_def)
qed

lemma extends_initialize: "extend.keeps (table_names models) (initialize_schema schema models project_id chain_id)"
  unfolding initialize_schema_def
  by (intro extend.keeps_bind extend.keeps_lift_bind extends_create extends_tables)
    (auto dest: named_statements_names)

lemma initialize_Inr:
  assumes "initialize_schema schema models project_id chain_id d = (Inr (), d')"
  shows "table_names models \<subseteq> dom (snd (db_tables d'))"
    and "tb_metadata (fst (db_tables d')) = tb_metadata (fst (db_tables d)) ++ map_of
      [(key_name ProjectId, project_id), (key_name ChainId, chain_id), (key_name SchemaVersion, schema_version)]"
proof -
  let ?facts = "[(key_name ProjectId, project_id), (key_name ChainId, chain_id), (key_name SchemaVersion, schema_version)]"
  obtain d1 d2 d3 d4 d5 ms out ss where
    s1: "on_tables ensure_schema d = (Inr (), d1)"
    and s2: "on_tables checkpoint_ensure_tables d1 = (Inr (), d2)"
    and s3: "on_tables (verify_or_initialize project_id chain_id ms) d2 = (Inr out, d3)"
    and s4: "named_statements models schema = Inr ss" "create_each ss d3 = (Inr (), d4)"
    and s5: "on_tables (metadata_set (key_name SchemaVersion) schema_version) d4 = (Inr (), d')"
    using assms by (auto simp: initialize_schema_def dbind_Inr dlift_def)
  have keep: "fst (db_tables d1) = fst (db_tables d)" "fst (db_tables d2) = fst (db_tables d1)"
    using s1 s2 by (auto elim!: on_tables_run simp: ensure_schema_def checkpoint_ensure_tables_def
        metadata_ensure_table_def dbind_Inr dest!: db_query_tables)
  have created: "fst (db_tables d4) = fst (db_tables d3)" "snd (db_tables d4) = create_all ss (snd (db_tables d3))"
    using create_each_tables [OF s4(2)] by auto
  then show "table_names models \<subseteq> dom (snd (db_tables d'))"
    using on_tables_entities [OF s5] named_statements_names [OF s4(1)] by (auto simp: dom_create_all)
  obtain d0 where v: "verify_facts ?facts ms \<lparr>db_tables = fst (db_tables d2), db_faults = db_faults d2\<rparr> = (Inr out, d0)"
      "fst (db_tables d3) = db_tables d0"
    using on_tables_run [OF s3] by (auto simp: verify_or_initialize_def)
  have "distinct (map fst ?facts)" by simp
  from verify_facts_tables [OF this v(1)] v(2)
  have stamped: "tb_metadata (fst (db_tables d3)) = tb_metadata (fst (db_tables d2)) ++ map_of ?facts" by simp
  have "tb_metadata (fst (db_tables d')) = (tb_metadata (fst (db_tables d4)))(key_name SchemaVersion \<mapsto> schema_version)"
  proof (rule on_tables_run [OF s5])
    fix d0
    assume "metadata_set (key_name SchemaVersion) schema_version
        \<lparr>db_tables = fst (db_tables d4), db_faults = db_faults d4\<rparr> = (Inr (), d0)"
      and d0: "fst (db_tables d') = db_tables d0"
    then have "((), db_tables d0) = upsert_metadata (key_name SchemaVersion) schema_version (fst (db_tables d4))"
      unfolding metadata_set_def by (auto dest: db_execute_Inr)
    then show ?thesis by (simp add: upsert_metadata_def d0)
  qed
  with stamped keep created show "tb_metadata (fst (db_tables d')) = tb_metadata (fst (db_tables d)) ++ map_of ?facts"
    by (auto simp: fun_eq_iff map_add_def)
qed

text \<open>C24: Creating the schema never alters or drops an entity table. Whatever fails, tables that
  were there keep the statement they were made with, and a new one belongs to an entity of the
  project. When it answers \<open>Ok\<close>, every entity has its table and the project, the chain and the
  version of the schema are recorded.\<close>

theorem initialize_schema_outcome:
  "case initialize_schema schema models project_id chain_id d of
     (r, d') \<Rightarrow> snd (db_tables d) \<subseteq>\<^sub>m snd (db_tables d') \<and>
       (case r of
          Inl e \<Rightarrow> dom (snd (db_tables d')) \<subseteq> dom (snd (db_tables d)) \<union> table_names models
        | Inr u \<Rightarrow> dom (snd (db_tables d')) = dom (snd (db_tables d)) \<union> table_names models \<and>
            tb_metadata (fst (db_tables d')) = tb_metadata (fst (db_tables d)) ++ map_of
              [(key_name ProjectId, project_id), (key_name ChainId, chain_id), (key_name SchemaVersion, schema_version)])"
proof -
  obtain r d' where run: "initialize_schema schema models project_id chain_id d = (r, d')" by force
  have ext: "snd (db_tables d) \<subseteq>\<^sub>m snd (db_tables d')"
    "dom (snd (db_tables d')) \<subseteq> dom (snd (db_tables d)) \<union> table_names models"
    using extend.keepsD [OF extends_initialize run] unfolding extended_def by blast+
  show ?thesis
  proof (cases r)
    case (Inl e)
    then show ?thesis using run ext by simp
  next
    case (Inr u)
    then have ok: "initialize_schema schema models project_id chain_id d = (Inr (), d')" using run by simp
    have "dom (snd (db_tables d')) = dom (snd (db_tables d)) \<union> table_names models"
      using ext initialize_Inr(1) [OF ok] map_le_implies_dom_le [OF ext(1)] by blast
    then show ?thesis
      using ok ext(1) initialize_Inr(2) [OF ok] by simp
  qed
qed

section \<open>Reading the schema back\<close>

record column_info =
  ci_name :: string
  ci_data_type :: string
  ci_is_nullable :: bool
  ci_default :: "string option"

record index_info =
  ii_name :: string
  ii_is_unique :: bool
  ii_definition :: string

record table_info =
  ti_columns :: "column_info list"
  ti_indexes :: "index_info list"

type_synonym schema_info = "(string, table_info) btree"

text \<open>The rows of the two catalog queries, in the order the queries ask for.\<close>

record column_row =
  cr_table_name :: string
  cr_column_name :: string
  cr_data_type :: string
  cr_is_nullable :: string
  cr_column_default :: "string option"

record index_row =
  ir_tablename :: string
  ir_indexname :: string
  ir_indexdef :: string

definition column_of :: "column_row \<Rightarrow> column_info" where
  "column_of row = \<lparr>ci_name = cr_column_name row, ci_data_type = cr_data_type row,
     ci_is_nullable = (cr_is_nullable row = ''YES''), ci_default = cr_column_default row\<rparr>"

definition index_of :: "string \<Rightarrow> index_row \<Rightarrow> index_info" where
  "index_of schema row =
     \<lparr>ii_name = ir_indexname row,
      ii_is_unique = (strip_prefix ''CREATE UNIQUE INDEX'' (ir_indexdef row) \<noteq> None),
      ii_definition = replace_all (schema @ ''.'') [] (replace_all (quoted schema @ ''.'') [] (ir_indexdef row))\<rparr>"

definition add_column :: "column_row \<Rightarrow> schema_info \<Rightarrow> schema_info" where
  "add_column row tables =
     (let t = (case bt_get tables (cr_table_name row) of
                 Some t \<Rightarrow> t | None \<Rightarrow> \<lparr>ti_columns = [], ti_indexes = []\<rparr>)
      in bt_insert (cr_table_name row) (t\<lparr>ti_columns := ti_columns t @ [column_of row]\<rparr>) tables)"

definition add_index :: "string \<Rightarrow> index_row \<Rightarrow> schema_info \<Rightarrow> schema_info" where
  "add_index schema row tables =
     (case bt_get tables (ir_tablename row) of
        Some t \<Rightarrow> bt_insert (ir_tablename row) (t\<lparr>ti_indexes := ti_indexes t @ [index_of schema row]\<rparr>) tables
      | None \<Rightarrow> tables)"

definition introspect :: "column_row list \<Rightarrow> index_row list \<Rightarrow> string \<Rightarrow> schema_info" where
  "introspect column_rows index_rows schema =
     fold (add_index schema) index_rows (fold add_column column_rows [])"

text \<open>The two queries on one client; \<open>columns\<close> and \<open>indexes\<close> are what the catalog answers.\<close>

definition introspect_schema ::
  "('t \<Rightarrow> string \<Rightarrow> column_row list) \<Rightarrow> ('t \<Rightarrow> string \<Rightarrow> index_row list) \<Rightarrow> string \<Rightarrow> ('t, schema_info) db_action" where
  "introspect_schema columns indexes schema =
     dbind db_call (\<lambda>_.
     dbind (tx_stmt (\<lambda>t. (columns t schema, t))) (\<lambda>column_rows.
     dbind (tx_stmt (\<lambda>t. (indexes t schema, t))) (\<lambda>index_rows.
       dreturn (introspect column_rows index_rows schema))))"

definition columns_of :: "column_row list \<Rightarrow> string \<Rightarrow> column_info list" where
  "columns_of rows table = map column_of (filter (\<lambda>r. cr_table_name r = table) rows)"

definition indexes_of :: "string \<Rightarrow> index_row list \<Rightarrow> string \<Rightarrow> index_info list" where
  "indexes_of schema rows table = map (index_of schema) (filter (\<lambda>r. ir_tablename r = table) rows)"

lemma fold_add_column:
  "bt_get (fold add_column rows tables) table =
     (if columns_of rows table = [] then bt_get tables table
      else Some (case bt_get tables table of
             None \<Rightarrow> \<lparr>ti_columns = columns_of rows table, ti_indexes = []\<rparr>
           | Some t \<Rightarrow> t\<lparr>ti_columns := ti_columns t @ columns_of rows table\<rparr>))"
proof (induction rows arbitrary: tables)
  case (Cons r rows)
  then show ?case by (auto simp: add_column_def columns_of_def Let_def split: option.splits)
qed (simp add: columns_of_def)

lemma fold_add_index:
  "bt_get (fold (add_index schema) rows tables) table =
     map_option (\<lambda>t. t\<lparr>ti_indexes := ti_indexes t @ indexes_of schema rows table\<rparr>) (bt_get tables table)"
proof (induction rows arbitrary: tables)
  case Nil
  show ?case by (cases "bt_get tables table") (simp_all add: indexes_of_def)
next
  case (Cons r rows)
  have "bt_get (add_index schema r tables) table = map_option
      (\<lambda>t. t\<lparr>ti_indexes := ti_indexes t @ indexes_of schema [r] table\<rparr>) (bt_get tables table)"
    by (cases "bt_get tables (ir_tablename r)"; cases "bt_get tables table")
      (auto simp: add_index_def indexes_of_def)
  then show ?case
    using Cons.IH [of "add_index schema r tables"]
    by (cases "bt_get tables table") (simp_all add: indexes_of_def)
qed

lemma bt_ok_introspect: "bt_ok (introspect columns indexes schema)"
proof -
  have "bt_ok (fold add_column rows t)" if "bt_ok t" for rows and t :: schema_info
    using that by (induction rows arbitrary: t) (simp_all add: add_column_def Let_def)
  moreover have "bt_ok (fold (add_index schema) rows t)" if "bt_ok t" for rows and t :: schema_info
    using that by (induction rows arbitrary: t) (auto simp: add_index_def split: option.splits)
  ultimately show ?thesis by (simp add: introspect_def)
qed

text \<open>Introspection reports exactly what the catalog says of each table: the tables are in
  order of their names, a table is reported when it has a column, with its columns and its
  indexes in the order of the queries, however the rows of different tables are mixed.\<close>

theorem introspect_reports:
  "bt_ok (introspect columns indexes schema) \<and>
   bt_get (introspect columns indexes schema) table =
     (if columns_of columns table = [] then None
      else Some \<lparr>ti_columns = columns_of columns table, ti_indexes = indexes_of schema indexes table\<rparr>)"
  using bt_ok_introspect [of columns indexes schema]
  by (simp add: introspect_def fold_add_index fold_add_column)

end
