(* ===== verification/Sq_Rewind.thy ===== *)
theory Sq_Rewind
  imports Sq_Entities
begin

text \<open>
  The range algebra of the rewind of versioned entities, \<open>crates/store/src/rewind.rs\<close>: the two
  statements, as text and as what they do to the versions of a table. A version carries the
  half-open \<open>int8range\<close> of heights it was valid for, without upper bound while it is current.
  The driver \<open>rewind_to\<close> is unimplemented in the source, and so is the write path of versions;
  the theorem states what the two statements do to any table of versions.
\<close>

section \<open>The statements\<close>

definition block_range_column :: string where
  "block_range_column = ''_block_range''"

record rewind_outcome =
  ro_target :: block_ptr
  ro_rows_deleted :: u64
  ro_rows_reopened :: u64
  ro_headers_removed :: u64

definition delete_versions_above_sql :: "string \<Rightarrow> string \<Rightarrow> u64 \<Rightarrow> string" where
  "delete_versions_above_sql schema table height =
     ''DELETE FROM '' @ quoted schema @ ''.'' @ quoted table @
     '' WHERE lower('' @ quoted block_range_column @ '') > '' @ show_u64 height"

definition reopen_versions_sql :: "string \<Rightarrow> string \<Rightarrow> u64 \<Rightarrow> string" where
  "reopen_versions_sql schema table height =
     ''UPDATE '' @ quoted schema @ ''.'' @ quoted table @
     '' SET '' @ quoted block_range_column @ '' = int8range(lower('' @ quoted block_range_column @ ''), NULL)'' @
     '' WHERE upper('' @ quoted block_range_column @ '') > '' @ show_u64 height @
     ''   AND lower('' @ quoted block_range_column @ '') <= '' @ show_u64 height"

text \<open>The driver of the two statements is declared and has no body yet.\<close>

definition rewind_to :: "block_ptr \<Rightarrow> 't database \<Rightarrow> (store_error + rewind_outcome) outcome \<times> 't database" where
  "rewind_to target d =
     (Panics ''not implemented: rewind requires versioned entity writes (_block_range); guide Milestone 11, task plan phase C2'', d)"

section \<open>Versions\<close>

text \<open>An \<open>int8range\<close> in its canonical form: empty, or from a height (or from the beginning) up to
  but excluding another one (or open). The bounds of an empty range and a bound that is absent
  are NULL, which no comparison accepts.\<close>

datatype version_range = EmptyRange | VersionRange "int option" "int option"

fun range_lower :: "version_range \<Rightarrow> int option" where
  "range_lower EmptyRange = None"
| "range_lower (VersionRange l u) = l"

fun range_upper :: "version_range \<Rightarrow> int option" where
  "range_upper EmptyRange = None"
| "range_upper (VersionRange l u) = u"

definition sql_greater :: "int option \<Rightarrow> int \<Rightarrow> bool" where
  "sql_greater x h = (case x of None \<Rightarrow> False | Some v \<Rightarrow> h < v)"

definition sql_at_most :: "int option \<Rightarrow> int \<Rightarrow> bool" where
  "sql_at_most x h = (case x of None \<Rightarrow> False | Some v \<Rightarrow> v \<le> h)"

type_synonym 'r version = "'r \<times> version_range"

definition delete_versions_above :: "u64 \<Rightarrow> 'r version list \<Rightarrow> 'r version list" where
  "delete_versions_above height rows = filter (\<lambda>(r, v). \<not> sql_greater (range_lower v) (uint height)) rows"

definition reopen_versions :: "u64 \<Rightarrow> 'r version list \<Rightarrow> 'r version list" where
  "reopen_versions height rows =
     map (\<lambda>(r, v).
       if sql_greater (range_upper v) (uint height) \<and> sql_at_most (range_lower v) (uint height)
       then (r, VersionRange (range_lower v) None)
       else (r, v)) rows"

text \<open>The two statements of a rewind, in their order.\<close>

definition rewind_versions :: "u64 \<Rightarrow> 'r version list \<Rightarrow> 'r version list" where
  "rewind_versions height rows = reopen_versions height (delete_versions_above height rows)"

section \<open>State at a height\<close>

fun valid_at :: "version_range \<Rightarrow> int \<Rightarrow> bool" where
  "valid_at EmptyRange h = False"
| "valid_at (VersionRange l u) h =
     ((case l of None \<Rightarrow> True | Some l \<Rightarrow> l \<le> h) \<and> (case u of None \<Rightarrow> True | Some u \<Rightarrow> h < u))"

definition state_at :: "'r version list \<Rightarrow> u64 \<Rightarrow> 'r list" where
  "state_at rows h = map fst (filter (\<lambda>(r, v). valid_at v (uint h)) rows)"

text \<open>One version through both statements.\<close>

definition rewind_version :: "u64 \<Rightarrow> 'r version \<Rightarrow> 'r version option" where
  "rewind_version H rv =
     (case range_lower (snd rv) of
        None \<Rightarrow> Some rv
      | Some l \<Rightarrow>
          if uint H < l then None
          else if sql_greater (range_upper (snd rv)) (uint H) then Some (fst rv, VersionRange (Some l) None)
          else Some rv)"

lemma rewind_versions_map: "rewind_versions H rows = List.map_filter (rewind_version H) rows"
proof (induction rows)
  case (Cons rv rows)
  obtain r v where rv: "rv = (r, v)" by (cases rv)
  show ?case
    using Cons
    by (cases "range_lower v") (auto simp: rv rewind_versions_def delete_versions_above_def reopen_versions_def
        rewind_version_def sql_greater_def sql_at_most_def map_filter_simps split: option.splits)
qed (simp add: rewind_versions_def delete_versions_above_def reopen_versions_def map_filter_simps)

text \<open>A version with a lower bound is seen at a height as it was at the lower of that height and the
  target; one without is not touched.\<close>

definition seen_at :: "version_range \<Rightarrow> u64 \<Rightarrow> u64 \<Rightarrow> u64" where
  "seen_at v H h = (if range_lower v = None then h else min h H)"

lemma rewind_version_valid:
  "(case rewind_version H rv of None \<Rightarrow> False | Some rv' \<Rightarrow> fst rv' = fst rv \<and> valid_at (snd rv') (uint h)) \<longleftrightarrow>
     valid_at (snd rv) (uint (seen_at (snd rv) H h))"
proof -
  have m: "uint (min h H) = min (uint h) (uint H)"
    by (simp add: min_def word_le_def)
  show ?thesis
    by (cases rv; cases "snd rv"; cases "range_lower (snd rv)"; cases "range_upper (snd rv)")
      (auto simp: rewind_version_def seen_at_def sql_greater_def m)
qed

lemma rewind_version_fst: "rewind_version H rv = Some rv' \<Longrightarrow> fst rv' = fst rv"
  by (auto simp: rewind_version_def split: option.splits if_splits)

lemma rewind_state:
  "state_at (rewind_versions H rows) h = map fst (filter (\<lambda>(r, v). valid_at v (uint (seen_at v H h))) rows)"
proof (induction rows)
  case Nil
  then show ?case by (simp add: rewind_versions_map state_at_def map_filter_simps)
next
  case (Cons rv rows)
  have cons: "state_at (rv # rows) k =
      (if valid_at (snd rv) (uint k) then fst rv # state_at rows k else state_at rows k)" for k and rv :: "'a version" and rows
    by (cases rv) (simp add: state_at_def)
  have "state_at (rewind_versions H (rv # rows)) h =
      (case rewind_version H rv of
         None \<Rightarrow> state_at (rewind_versions H rows) h
       | Some rv' \<Rightarrow> state_at (rv' # rewind_versions H rows) h)"
    by (simp add: rewind_versions_map map_filter_simps split: option.split)
  then show ?case
    using rewind_version_valid [where H = H and rv = rv and h = h] rewind_version_fst [where H = H and rv = rv]
    by (auto simp: cons Cons.IH split: option.splits prod.splits)
qed

lemma rewind_state_bounded:
  assumes "list_all (\<lambda>(r, v). v = EmptyRange \<or> range_lower v \<noteq> None) rows"
  shows "state_at (rewind_versions H rows) h = state_at rows (min h H)"
proof -
  have "filter (\<lambda>(r, v). valid_at v (uint (seen_at v H h))) rows = filter (\<lambda>(r, v). valid_at v (uint (min h H))) rows"
    using assms by (intro filter_cong refl) (auto simp: seen_at_def list_all_iff)
  then show ?thesis unfolding rewind_state by (simp add: state_at_def)
qed



text \<open>Rewinding twice is rewinding once to the lower height.\<close>

lemma rewind_versions_lower:
  "list_all (\<lambda>(r, v). v = EmptyRange \<or> range_lower v \<noteq> None) rows \<Longrightarrow>
     list_all (\<lambda>(r, v). v = EmptyRange \<or> range_lower v \<noteq> None) (rewind_versions H rows)"
  by (induction rows)
    (auto simp: rewind_versions_def delete_versions_above_def reopen_versions_def sql_at_most_def split: option.splits if_splits)

lemma rewind_twice:
  assumes "list_all (\<lambda>(r, v). v = EmptyRange \<or> range_lower v \<noteq> None) rows"
  shows "state_at (rewind_versions G (rewind_versions H rows)) h = state_at (rewind_versions (min G H) rows) h"
  using rewind_state_bounded [OF assms] rewind_state_bounded [OF rewind_versions_lower [OF assms]]
  by (simp add: min.assoc)

end
