(* ===== verification/Spec2Isabelle.thy ===== *)
theory Spec2Isabelle
  imports Sq_Recovery Sq_Writers Sq_EvmParams Sq_Reader Sq_EntityQuery Sq_Shutdown Sq_Finality Sq_Dispatcher Sq_Queue Sq_Indexing Sq_Schema Sq_Rewind
begin

text \<open>
  SuperQuery node: a verification of the Rust implementation of a blockchain indexing node.

  \<^bold>\<open>The program.\<close> The node reads the description of a project, connects to a PostgreSQL database
  and to JSON-RPC endpoints of an Ethereum-like chain, and brings the blocks of the chain into the
  database in height order, each exactly once, surviving errors, restarts and shutdown. In the
  commit that is modelled the binary runs in one mode only, \<open>--ingest-only\<close>: it appends block
  headers to a journal. The parts of the full indexer that are written (ordered commits, reorg
  detection, checkpoints, entity tables, the host side of the Wasm runtime) are modelled on
  their own; where the source has \<open>unimplemented!\<close>, the model has the panic.

  \<^bold>\<open>How the parts interact.\<close> \<open>main\<close> validates the settings and calls \<open>bootstrap\<close>, which loads
  the project directory, validates the manifest, prepares the handlers, builds the adapter and
  checks that the endpoints serve the configured chain. \<open>run_ingest\<close> verifies that the schema
  belongs to the project, reads the last journal entry, checks that it is still canonical, and
  drives the fetch scheduler from the height after it. The scheduler asks the adapter for the head
  and the finalized height, plans the next batch under the limits of back-pressure, fetches its
  blocks, and hands them one by one to the sink, which commits the header in one transaction;
  a height is acknowledged only after its commit. The theories compose in the same way: the chain,
  the sink and the database are parameters of the scheduler, and the last theories instantiate
  them.

  \<^bold>\<open>Theories and sources\<close> (paths below \<open>src/\<close>; the definitions have the names of the code).
  \<^item> \<open>Sq_Prelude\<close>, \<open>Sq_Strings\<close>, \<open>Sq_BTreeMap\<close>: the standard library as the code uses it: integers
    of a width with saturating, checked and wrapping operations, results, ranges of heights,
    strings as lists of UTF-8 bytes with number parsing and printing, ordered maps (locale
    \<open>ordered_map\<close>).
  \<^item> \<open>Sq_ChainApi\<close> (\<open>crates/chain-api\<close>), \<open>Sq_Errors\<close> (the \<open>error.rs\<close> of store, core and
    dispatcher): headers, blocks, filters, the error types and their retry classes.
  \<^item> \<open>Sq_Range\<close>, \<open>Sq_Scheduler\<close> (\<open>crates/core/src/fetch\<close>): batches, the bypass plan, back-pressure,
    and the scheduler with its loop \<open>run\<close>. \<open>Sq_SchedulerRun\<close> holds the locale \<open>block_sink\<close>, in
    which a run is followed once for any sink; \<open>Sq_Sourced\<close> follows where its blocks come from.
  \<^item> \<open>Sq_CommitBuffer\<close>, \<open>Sq_Dispatcher\<close>, \<open>Sq_Queue\<close> (\<open>crates/dispatcher/src\<close>): the reorder buffer
    with its generations, the limits and the committer, the bounded queue; both pipelines as step
    relations.
  \<^item> \<open>Sq_HeightMap\<close>, \<open>Sq_Indexing\<close> (\<open>crates/core/src/project\<close>, \<open>indexer\<close>, \<open>metrics\<close>): values that
    change with the height, datasources, block results, progress.
  \<^item> \<open>Sq_Database\<close> (\<open>crates/store/src/postgres.rs\<close>): database actions with a fault schedule,
    transactions, and the locales \<open>database_relation\<close> and \<open>table_relation\<close> for what actions keep.
    \<open>Sq_Metadata\<close>, \<open>Sq_Checkpoint\<close>, \<open>Sq_Ingestion\<close>, \<open>Sq_Schema\<close>, \<open>Sq_Naming\<close>, \<open>Sq_Entities\<close>,
    \<open>Sq_EntityStore\<close>, \<open>Sq_EntityQuery\<close>, \<open>Sq_Rewind\<close>: the files of \<open>crates/store/src\<close> with those
    names (\<open>Sq_Schema\<close> is \<open>migration.rs\<close> and \<open>introspect.rs\<close>; \<open>Sq_Entities\<close> is \<open>schema.rs\<close>,
    \<open>ddl.rs\<close>, \<open>entity.rs\<close>, \<open>store.rs\<close>; the next two hold its properties and its queries).
    \<open>Sq_Writers\<close> has several nodes commit to one journal.
  \<^item> \<open>Sq_Finality\<close> (\<open>crates/core/src/finality\<close>): the search for the common ancestor, the tracker,
    the rewind report.
  \<^item> \<open>Sq_NodeConfig\<close>, \<open>Sq_ConfigDb\<close>, \<open>Sq_Project\<close> (\<open>crates/config/src\<close>): settings, connection
    strings and endpoints, loading of a project; \<open>Sq_Files\<close>: paths and the file system with its
    links; \<open>Sq_Manifest\<close>, \<open>Sq_Reader\<close>, \<open>Sq_ManifestJson\<close> (\<open>vendor/sdk\<close>): the manifest and its
    validation, its reader with error positions (and the panic of that reader), and the JSON
    value it is serialised to.
  \<^item> \<open>Sq_EvmFilter\<close>, \<open>Sq_EvmDecode\<close>, \<open>Sq_EvmRpc\<close>, \<open>Sq_EvmAdapter\<close>, \<open>Sq_EvmParams\<close>, \<open>Sq_EvmProject\<close>
    (\<open>crates/chains/evm/src\<close>): filters and their JSON, decoding, the RPC client with its retries, the adapter
    (locale \<open>chain_source\<close>), the compilation of handlers.
  \<^item> \<open>Sq_Runtime\<close> (\<open>crates/runtime/src\<close>): the interface of mappings, its limits, the module checks,
    the host functions.
  \<^item> \<open>Sq_Ingest\<close>, \<open>Sq_Startup\<close>, \<open>Sq_Shutdown\<close>, \<open>Sq_Node\<close> (\<open>bins/superquery-node/src\<close>): the journal
    as sink of the scheduler, startup, the shutdown signal, the whole run. \<open>Sq_Healthy\<close> and
    \<open>Sq_Recovery\<close> compose all of them: a run reaches its end, also after others that crashed.

  \<^bold>\<open>What is shown\<close>, from the whole to the parts.
  \<^item> The run: it only extends the journal, within the configured range and after every check
    (\<open>node_run_safe\<close>); each header it adds was decoded from what an endpoint of the right chain sent
    for that height, under the finalized height (\<open>node_run_provenance\<close>); and after any number of
    crashed starts a run that is left alone ends with exactly the chain in the journal
    (\<open>node_recovers\<close>, over \<open>node_run_reaches_end\<close>).
  \<^item> Scheduler and sink: every height owed is delivered in order, once, and the rest stays owed,
    under any failure and cancellation; termination against a healthy chain; batches characterised.
  \<^item> Commit pipeline: released outputs are contiguous and of the current generation, in whatever
    order workers finish; an accepted completion is released or kept, once; a drain of the queue
    empties it and counts exactly.
  \<^item> Store: the journal and checkpoint transactions are all or nothing under every fault schedule,
    the lost answer of a commit included, and several writers of one journal agree; a schema belongs to one project; entity writes, reads
    and removals refine a map of rows, and a bulk write can stop after any prefix; paging is complete; the rewind statements restore the
    state of a height.
  \<^item> Chain: a fetched block is one consistent response with gapless indices; requests end within
    their attempts; filters and handlers select exactly what they describe; reorg decisions
    separate canonical from orphaned headers.
  \<^item> Configuration: validation of settings and manifests accepts exactly what its rules say; loading
    depends on no file outside the project but the target of a linked \<open>project.yaml\<close>; the
    fingerprint identifies the project, every field of its manifest included.
  \<^item> Negative results, where the code does not do what it is documented to do: the lemmas
    \<open>bypass_starves_buffer\<close>, \<open>checkpoint_roundtrip\<close> (empty hashes), \<open>writable_schemas\<close>,
    \<open>upsert_writes_prefix\<close>, \<open>names_collide\<close>, \<open>order_is_textual\<close>, \<open>null_filter_selects_nothing\<close>,
    \<open>quantity_accepts_sign\<close>, \<open>wide_character_panics\<close>, \<open>manifest_link_leads_out\<close>,
    \<open>partial_stamp_initialized\<close> and others.

  \<^bold>\<open>Conventions.\<close> \<open>u32\<close>, \<open>u64\<close> and \<open>usize\<close> are words of 32 and 64 bits; plain \<open>+\<close> and \<open>-\<close> wrap as
  in a release build. Errors are the left side of a sum, with the variants of the source. A
  database action takes the tables and the fault schedule and returns a result with the new ones;
  a schedule that is used up means no more faults. Asynchronous code is sequential between its
  waiting points, and what it waits for is an input: the loop of the scheduler consumes one
  \<open>turn\<close> per iteration (the answers of the chain and the points at which the shutdown token
  fires), and \<open>None\<close> means that the turns are used up while it is still running. Safety holds for
  every list of turns, so that nothing rests on the bound; the liveness theorems say how many
  turns are enough, one per height owed. The other loops have measures: the release of a run of
  the commit buffer the entries left, the skipping of bypassed heights the distance to the
  ceiling, the search of a fork the stored headers, the attempts of a request their number.

  \<^bold>\<open>Not modelled.\<close> Code that is not in the repository is a parameter with its documented behaviour:
  the parsers of YAML, JSON, GraphQL, URLs, semantic versions and event signatures, the alloy
  codecs, SHA-256, the printing of JSON and of URLs, the Tokio channel, PostgreSQL's casts,
  collations and planner, the file system, the Wasm engine.
  The effect of an SQL statement is written by hand next to its text. Time is present only as
  the choice whether a timeout struck and as the list of back-offs; fairness of the Tokio runtime
  is the assumption that turns come. Logging, the metric names, the parsing of the command line
  and the installation of signal handlers are input and output. The traits \<open>EntityStore\<close>,
  \<open>IndexerManager\<close>, \<open>BlockDispatcher\<close> and \<open>BlockCandidateProvider\<close> have no implementation in the
  source, and neither have the invocation of a mapping, the rewind driver and the write path of
  versioned entities.
\<close>

end
